(* ===== verification/Prelude.thy ===== *)
theory Prelude
  imports Main "HOL-Library.Word" "HOL-Library.Monad_Syntax"
begin

unbundle bit_operations_syntax

text \<open>
  What every component of the development shares: the machine integers of Go
  under short names, byte lists and strings, big-endian lengths, decimal
  printing and parsing, and the readers (\<open>Read\<close>, \<open>io.ReadFull\<close>) of a
  connection whose bytes arrive in chunks.
\<close>

type_synonym byte = "8 word"
type_synonym u16 = "16 word"
type_synonym u32 = "32 word"
type_synonym u64 = "64 word"

named_theorems bytes_simps \<open>lengths and reads of byte lists\<close>
named_theorems reader_simps \<open>reading from a connection\<close>
named_theorems decimal_simps \<open>decimal printing and parsing\<close>

section \<open>Strings and bytes\<close>

text \<open>A Go string is a byte sequence; a character of the model is one byte.\<close>

definition byte_of_char :: "char \<Rightarrow> byte" where
  "byte_of_char c = word_of_nat (of_char c)"

definition char_of_byte :: "byte \<Rightarrow> char" where
  "char_of_byte b = char_of (unat b)"

definition bytes_of :: "string \<Rightarrow> byte list" where
  "bytes_of s = map byte_of_char s"

definition string_of :: "byte list \<Rightarrow> string" where
  "string_of bs = map char_of_byte bs"

lemma char_of_byte_of_char [simp]: "char_of_byte (byte_of_char c) = c"
proof -
  have "(of_char c :: nat) < 256" by simp
  then show ?thesis
    by (simp add: char_of_byte_def byte_of_char_def unat_of_nat)
qed

lemma byte_of_char_of_byte [simp]: "byte_of_char (char_of_byte b) = b"
proof -
  have "unat b < 256" using unsigned_less [of b, where 'a = nat] by simp
  then show ?thesis by (simp add: char_of_byte_def byte_of_char_def)
qed

lemma string_of_bytes_of [simp]: "string_of (bytes_of s) = s"
  by (simp add: string_of_def bytes_of_def comp_def)

lemma bytes_of_string_of [simp]: "bytes_of (string_of bs) = bs"
  by (simp add: string_of_def bytes_of_def comp_def)

lemma length_bytes_of [simp, bytes_simps]: "length (bytes_of s) = length s"
  by (simp add: bytes_of_def)

lemma length_string_of [simp, bytes_simps]: "length (string_of bs) = length bs"
  by (simp add: string_of_def)

lemma bytes_of_append [simp]: "bytes_of (s @ t) = bytes_of s @ bytes_of t"
  by (simp add: bytes_of_def)

lemma string_of_append [simp]: "string_of (s @ t) = string_of s @ string_of t"
  by (simp add: string_of_def)

section \<open>Big-endian lengths\<close>

text \<open>
  \<open>binary.BigEndian.PutUint16\<close> and \<open>Uint16\<close>, and the conversion
  \<open>uint16(len(x))\<close>, which wraps.
\<close>

definition put_u16 :: "u16 \<Rightarrow> byte list" where
  "put_u16 v = [ucast (drop_bit 8 v), ucast v]"

definition get_u16 :: "byte \<Rightarrow> byte \<Rightarrow> u16" where
  "get_u16 a b = push_bit 8 (ucast a) OR ucast b"

definition len_u16 :: "'a list \<Rightarrow> u16" where
  "len_u16 xs = word_of_nat (length xs)"

lemma bit_byte_high: "bit (b :: byte) n \<Longrightarrow> n < 8"
  using bit_imp_le_length [of b n] by simp

lemma get_put_u16 [bytes_simps]: "get_u16 (ucast (drop_bit 8 v)) (ucast v) = v"
  unfolding get_u16_def
  by (rule bit_word_eqI) (auto simp: bit_simps)

lemma put_get_u16 [bytes_simps]: "put_u16 (get_u16 a b) = [a, b]"
proof -
  have "\<not> bit b (8 + n)" for n
    using bit_byte_high [of b "8 + n"] by auto
  then show ?thesis
    unfolding get_u16_def put_u16_def
    by (auto intro!: bit_word_eqI simp: bit_simps)
qed

lemma length_put_u16 [simp]: "length (put_u16 v) = 2"
  by (simp add: put_u16_def)

lemma unat_get_u16: "unat (get_u16 a b) = 256 * unat a + unat b"
proof -
  have disj: "push_bit 8 (ucast a :: u16) AND ucast b = 0"
    by (rule bit_word_eqI) (auto simp: bit_simps dest: bit_byte_high)
  have a: "unat a < 256" and b: "unat b < 256"
    using unsigned_less [of a, where 'a = nat] unsigned_less [of b, where 'a = nat] by simp_all
  have "get_u16 a b = push_bit 8 (ucast a) + ucast b"
    using disj by (simp add: get_u16_def disjunctive_add_eq_or)
  also have "\<dots> = word_of_nat (256 * unat a + unat b)"
    by (simp add: push_bit_eq_mult word_of_nat_eq_iff unsigned_ucast_eq)
  finally have "unat (get_u16 a b) = unat (word_of_nat (256 * unat a + unat b) :: u16)"
    by (simp only:)
  also have "\<dots> = (256 * unat a + unat b) mod 2 ^ 16"
    by (simp only: unsigned_of_nat take_bit_eq_mod) simp
  finally show ?thesis using a b by simp
qed

lemma unat_len_u16: "unat (len_u16 xs) = length xs mod 65536"
  by (simp add: len_u16_def unsigned_of_nat take_bit_eq_mod)

lemma unat_len_u16_small [simp]: "length xs \<le> 65535 \<Longrightarrow> unat (len_u16 xs) = length xs"
  by (simp add: unat_len_u16)

lemma unat_of_nat_u16: "n < 65536 \<Longrightarrow> unat (word_of_nat n :: u16) = n"
  by (simp add: unsigned_of_nat take_bit_nat_eq_self)

section \<open>Decimal numbers\<close>

text \<open>
  \<open>%d\<close> and \<open>strconv.Itoa\<close> on numbers, and the digit loop with which the
  standard library reads them back.
\<close>

definition digit :: "nat \<Rightarrow> char" where
  "digit n = char_of (48 + n)"

definition is_digit :: "char \<Rightarrow> bool" where
  "is_digit c \<longleftrightarrow> 48 \<le> (of_char c :: nat) \<and> (of_char c :: nat) \<le> 57"

definition digit_val :: "char \<Rightarrow> nat" where
  "digit_val c = of_char c - 48"

fun dec :: "nat \<Rightarrow> string" where
  "dec n = (if n < 10 then [digit n] else dec (n div 10) @ [digit (n mod 10)])"

declare dec.simps [simp del]

definition dec_int :: "int \<Rightarrow> string" where
  "dec_int i = (if i < 0 then CHR ''-'' # dec (nat (- i)) else dec (nat i))"

definition undec :: "string \<Rightarrow> nat" where
  "undec s = foldl (\<lambda>n c. 10 * n + digit_val c) 0 s"

lemma of_char_digit: "n < 10 \<Longrightarrow> (of_char (digit n) :: nat) = 48 + n"
  by (simp add: digit_def)

lemma digit_val_digit [simp]: "n < 10 \<Longrightarrow> digit_val (digit n) = n"
  by (simp add: digit_val_def of_char_digit)

lemma is_digit_digit [simp]: "n < 10 \<Longrightarrow> is_digit (digit n)"
  by (simp add: is_digit_def of_char_digit)

lemma digit_table [decimal_simps]:
  "digit 0 = CHR ''0''" "digit 1 = CHR ''1''" "digit (Suc 0) = CHR ''1''" "digit 2 = CHR ''2''" "digit 3 = CHR ''3''"
  "digit 4 = CHR ''4''" "digit 5 = CHR ''5''" "digit 6 = CHR ''6''" "digit 7 = CHR ''7''"
  "digit 8 = CHR ''8''" "digit 9 = CHR ''9''"
  by (simp_all add: digit_def char_of_def bit_numeral_rec bit_Suc_0_iff)

lemma dec_not_Nil [simp]: "dec n \<noteq> []"
  by (subst dec.simps) simp

lemma dec_digits: "c \<in> set (dec n) \<Longrightarrow> is_digit c"
proof (induction n rule: dec.induct)
  case (1 n)
  then show ?case by (cases "n < 10") (auto simp: dec.simps [of n])
qed

lemma undec_append: "undec (s @ [c]) = 10 * undec s + digit_val c"
  by (simp add: undec_def)

lemma undec_dec [simp, decimal_simps]: "undec (dec n) = n"
proof (induction n rule: dec.induct)
  case (1 n)
  show ?case
  proof (cases "n < 10")
    case True
    then show ?thesis by (subst dec.simps) (simp add: undec_def)
  next
    case False
    with 1 show ?thesis by (subst dec.simps) (simp add: undec_append)
  qed
qed

lemma dec_inj [simp]: "dec m = dec n \<longleftrightarrow> m = n"
  by (metis undec_dec)

lemma no_digit [simp]:
  "\<not> is_digit CHR ''.''" "\<not> is_digit CHR '':''" "\<not> is_digit CHR ''-''"
  "\<not> is_digit CHR ''/''" "\<not> is_digit CHR ''[''" "\<not> is_digit CHR '']''"
  by (simp_all add: is_digit_def)

lemma notin_dec [simp]: "\<not> is_digit c \<Longrightarrow> c \<notin> set (dec n)"
  using dec_digits by blast

section \<open>Splitting strings\<close>

text \<open>\<open>strings.Split(s, sep)\<close> for a separator of one byte, and \<open>strings.Join\<close>.\<close>

fun split_on :: "char \<Rightarrow> string \<Rightarrow> string list" where
  "split_on c [] = [[]]"
| "split_on c (x # xs) =
     (if x = c then [] # split_on c xs
      else case split_on c xs of
             [] \<Rightarrow> [[x]]
           | y # ys \<Rightarrow> (x # y) # ys)"

fun join :: "string \<Rightarrow> string list \<Rightarrow> string" where
  "join sep [] = []"
| "join sep [s] = s"
| "join sep (s # t # ts) = s @ sep @ join sep (t # ts)"

lemma split_on_not_Nil [simp]: "split_on c s \<noteq> []"
  by (induction s) (auto split: list.splits)

lemma join_split_on [simp]: "join [c] (split_on c s) = s"
proof (induction s)
  case (Cons x xs)
  then show ?case
    by (cases "split_on c xs"; cases "tl (split_on c xs)") (auto split: list.splits)
qed simp

lemma split_on_no_sep: "\<forall>p \<in> set (split_on c s). c \<notin> set p"
proof (induction s)
  case (Cons x xs)
  then show ?case by (cases "split_on c xs") simp_all
qed simp

lemma split_on_append:
  "c \<notin> set p \<Longrightarrow> split_on c (p @ c # s) = p # split_on c s"
  by (induction p) auto

lemma split_on_id: "c \<notin> set p \<Longrightarrow> split_on c p = [p]"
  by (induction p) auto

lemma split_on_join:
  "ps \<noteq> [] \<Longrightarrow> \<forall>p\<in>set ps. c \<notin> set p \<Longrightarrow> split_on c (join [c] ps) = ps"
  by (induction ps rule: induct_list012) (auto simp: split_on_append split_on_id)

text \<open>
  The part of a list before and after the first (\<open>strings.IndexByte\<close>) and the
  last (\<open>strings.LastIndexByte\<close>) occurrence of an element.
\<close>

fun cut :: "'a \<Rightarrow> 'a list \<Rightarrow> ('a list \<times> 'a list) option" where
  "cut c [] = None"
| "cut c (x # xs) =
     (if x = c then Some ([], xs) else map_option (\<lambda>(p, s). (x # p, s)) (cut c xs))"

definition rcut :: "'a \<Rightarrow> 'a list \<Rightarrow> ('a list \<times> 'a list) option" where
  "rcut c xs = map_option (\<lambda>(p, s). (rev s, rev p)) (cut c (rev xs))"

lemma cut_append [simp]: "c \<notin> set p \<Longrightarrow> cut c (p @ c # s) = Some (p, s)"
  by (induction p) auto

lemma cut_None: "cut c xs = None \<longleftrightarrow> c \<notin> set xs"
  by (induction xs) auto

lemma cut_Some: "cut c xs = Some (p, s) \<longleftrightarrow> xs = p @ c # s \<and> c \<notin> set p"
proof (induction xs arbitrary: p)
  case (Cons x xs)
  then show ?case by (cases p) auto
qed simp

lemma rcut_append [simp]:
  assumes "c \<notin> set s"
  shows "rcut c (p @ c # s) = Some (p, s)"
proof -
  have "cut c (rev s @ c # rev p) = Some (rev s, rev p)"
    using assms by (intro cut_append) simp
  then show ?thesis by (simp add: rcut_def)
qed

lemma rcut_None: "rcut c xs = None \<longleftrightarrow> c \<notin> set xs"
  by (simp add: rcut_def cut_None)

lemma rcut_Some: "rcut c xs = Some (p, s) \<longleftrightarrow> xs = p @ c # s \<and> c \<notin> set s"
proof
  assume "rcut c xs = Some (p, s)"
  then have "cut c (rev xs) = Some (rev s, rev p)"
    by (auto simp: rcut_def)
  then have "rev (rev xs) = rev (rev s @ c # rev p) \<and> c \<notin> set s"
    by (simp add: cut_Some)
  then show "xs = p @ c # s \<and> c \<notin> set s" by simp
qed auto

section \<open>Readers\<close>

text \<open>
  A connection that is read: the chunks in which its bytes arrive, and the
  error that a \<open>Read\<close> past the last byte returns (\<open>io.EOF\<close> after an orderly
  close). One \<open>Read\<close> hands out bytes of one chunk only, so it may return fewer
  bytes than were asked for; \<open>io.ReadFull\<close> keeps reading.
\<close>

datatype io_error = EOF | UnexpectedEOF | ConnErr

type_synonym reader = "byte list list \<times> io_error"

definition pending :: "reader \<Rightarrow> byte list" where
  "pending r = concat (fst r)"

definition chunked :: "reader \<Rightarrow> bool" where
  "chunked r \<longleftrightarrow> [] \<notin> set (fst r)"

fun rd_read :: "nat \<Rightarrow> reader \<Rightarrow> (io_error + byte list) \<times> reader" where
  "rd_read n ([], e) = (Inl e, ([], e))"
| "rd_read n (c # cs, e) =
     (Inr (take n c), (if length c \<le> n then cs else drop n c # cs, e))"

fun gather :: "nat \<Rightarrow> byte list list \<Rightarrow> byte list \<times> byte list list" where
  "gather n cs =
     (case cs of
        [] \<Rightarrow> ([], [])
      | c # cs' \<Rightarrow>
          if n = 0 then ([], cs)
          else if length c \<le> n then
            (case gather (n - length c) cs' of (bs, rest) \<Rightarrow> (c @ bs, rest))
          else (take n c, drop n c # cs'))"

declare gather.simps [simp del]

definition read_full :: "nat \<Rightarrow> reader \<Rightarrow> (io_error + byte list) \<times> reader" where
  "read_full n r =
     (case gather n (fst r) of (bs, rest) \<Rightarrow>
        if length bs = n then (Inr bs, (rest, snd r))
        else (Inl (if bs \<noteq> [] \<and> snd r = EOF then UnexpectedEOF else snd r), (rest, snd r)))"

lemma gather_Nil [simp]: "gather n [] = ([], [])"
  by (simp add: gather.simps)

lemma gather_Cons [simp]:
  "gather n (c # cs) =
     (if n = 0 then ([], c # cs)
      else if length c \<le> n then
        (case gather (n - length c) cs of (bs, rest) \<Rightarrow> (c @ bs, rest))
      else (take n c, drop n c # cs))"
  by (simp add: gather.simps)

lemma gather_take_drop:
  "fst (gather n cs) = take n (concat cs) \<and> concat (snd (gather n cs)) = drop n (concat cs)"
  by (induction cs arbitrary: n) (auto simp: case_prod_beta)

lemma gather_chunked: "[] \<notin> set cs \<Longrightarrow> [] \<notin> set (snd (gather n cs))"
  by (induction cs arbitrary: n) (auto simp: case_prod_beta)

lemma read_full_enough [reader_simps]:
  assumes "n \<le> length (pending r)"
  obtains r' where "read_full n r = (Inr (take n (pending r)), r')"
    and "pending r' = drop n (pending r)" and "snd r' = snd r"
proof -
  obtain bs rest where g: "gather n (fst r) = (bs, rest)" by fastforce
  then have "bs = take n (pending r)" and "concat rest = drop n (pending r)"
    using gather_take_drop [of n "fst r"] by (simp_all add: pending_def)
  with g assms that [of "(rest, snd r)"] show thesis
    by (simp add: read_full_def pending_def)
qed

lemma read_full_short [reader_simps]:
  assumes "length (pending r) < n"
  shows "fst (read_full n r) =
    Inl (if pending r \<noteq> [] \<and> snd r = EOF then UnexpectedEOF else snd r)"
proof -
  obtain bs rest where g: "gather n (fst r) = (bs, rest)" by fastforce
  then have "bs = pending r"
    using gather_take_drop [of n "fst r"] assms by (simp add: pending_def)
  with g assms show ?thesis by (simp add: read_full_def)
qed

lemma rd_read_pending:
  "rd_read n r = (Inr bs, r') \<Longrightarrow> pending r = bs @ pending r' \<and> snd r' = snd r"
  by (cases "(n, r)" rule: rd_read.cases) (auto simp: pending_def)

lemma rd_read_first:
  "n \<le> length c \<Longrightarrow> \<exists>r'. rd_read n (c # cs, e) = (Inr (take n c), r')
     \<and> pending r' = drop n c @ concat cs \<and> snd r' = e"
  by (auto simp: pending_def)

text \<open>
  What \<open>io.ReadFull\<close> returns depends on the bytes that arrive, not on the
  chunks they arrive in.
\<close>

lemma read_full_chunking:
  assumes "pending r = pending s" and "snd r = snd s"
  shows "fst (read_full n r) = fst (read_full n s)"
    and "pending (snd (read_full n r)) = pending (snd (read_full n s))"
    and "snd (snd (read_full n r)) = snd (snd (read_full n s))"
proof -
  obtain bs rest where r: "gather n (fst r) = (bs, rest)" by fastforce
  obtain bs' rest' where s: "gather n (fst s) = (bs', rest')" by fastforce
  have eq: "bs' = bs" "concat rest' = concat rest"
    using assms r s gather_take_drop [of n "fst r"] gather_take_drop [of n "fst s"]
    by (simp_all add: pending_def)
  then show "fst (read_full n r) = fst (read_full n s)"
    and "pending (snd (read_full n r)) = pending (snd (read_full n s))"
    and "snd (snd (read_full n r)) = snd (snd (read_full n s))"
    using assms(2) r s by (simp_all add: read_full_def pending_def)
qed

section \<open>Loops that accept\<close>

text \<open>
  A loop that calls \<open>Accept\<close> and starts a goroutine for what it gets, until the first error:
  what the goroutines are started with. The list holds the results of the calls in their
  order.
\<close>

primrec accept_loop :: "'c option list \<Rightarrow> 'c list" where
  "accept_loop [] = []"
| "accept_loop (r # rs) = (case r of None \<Rightarrow> [] | Some x \<Rightarrow> x # accept_loop rs)"

lemma accept_loop_error: "accept_loop (map Some xs @ None # rs) = xs"
  by (induction xs) simp_all

end
