(* ===== verification/Hostport.thy ===== *)
theory Hostport
  imports Prelude
begin

text \<open>
  Texts of the form host:port: \<open>net.SplitHostPort\<close>, which the plugins use on
  configured and on bound addresses, with all its error branches, and the
  \<open>fmt.Sprintf\<close> forms which it inverts.
\<close>

datatype addr_error = MissingPort | TooManyColons | MissingBracket | UnexpectedBracket

definition SplitHostPort :: "string \<Rightarrow> addr_error + (string \<times> string)" where
  "SplitHostPort hp =
     (case rcut CHR '':'' hp of
        None \<Rightarrow> Inl MissingPort
      | Some (before, port) \<Rightarrow>
          if hd hp = CHR ''['' then
            (case cut CHR '']'' hp of
               None \<Rightarrow> Inl MissingBracket
             | Some (pre, rest) \<Rightarrow>
                 if rest = [] then Inl MissingPort
                 else if length pre + 1 = length before then
                   (if CHR ''['' \<in> set (drop 1 hp) \<or> CHR '']'' \<in> set rest then Inl UnexpectedBracket
                    else Inr (drop 1 pre, port))
                 else if hd rest = CHR '':'' then Inl TooManyColons
                 else Inl MissingPort)
          else if CHR '':'' \<in> set before then Inl TooManyColons
          else if CHR ''['' \<in> set hp \<or> CHR '']'' \<in> set hp then Inl UnexpectedBracket
          else Inr (before, port))"

definition plain_host :: "string \<Rightarrow> bool" where
  "plain_host s \<longleftrightarrow> CHR '':'' \<notin> set s \<and> CHR ''['' \<notin> set s \<and> CHR '']'' \<notin> set s"

lemma plain_host_dec [simp]: "plain_host (dec n)"
  by (simp add: plain_host_def)

lemma SplitHostPort_plain [simp]:
  assumes "plain_host h" and "plain_host p"
  shows "SplitHostPort (h @ CHR '':'' # p) = Inr (h, p)"
proof -
  have "rcut CHR '':'' (h @ CHR '':'' # p) = Some (h, p)"
    using assms(2) by (simp add: plain_host_def)
  moreover have "hd (h @ CHR '':'' # p) \<noteq> CHR ''[''"
    using assms(1) by (cases h) (auto simp: plain_host_def)
  ultimately show ?thesis
    using assms by (simp add: SplitHostPort_def plain_host_def)
qed

lemma SplitHostPort_bracketed:
  assumes "CHR ''['' \<notin> set h" and "CHR '']'' \<notin> set h" and "plain_host p"
  shows "SplitHostPort (CHR ''['' # h @ CHR '']'' # CHR '':'' # p) = Inr (h, p)"
proof -
  let ?s = "CHR ''['' # h @ CHR '']'' # CHR '':'' # p"
  have "rcut CHR '':'' ?s = Some (CHR ''['' # h @ [CHR '']''], p)"
    using assms(3) rcut_append [of "CHR '':''" p "CHR ''['' # h @ [CHR '']'']"]
    by (simp add: plain_host_def)
  moreover have "cut CHR '']'' ?s = Some (CHR ''['' # h, CHR '':'' # p)"
    using assms(2) cut_append [of "CHR '']''" "CHR ''['' # h" "CHR '':'' # p"] by simp
  ultimately show ?thesis
    using assms by (simp add: SplitHostPort_def plain_host_def)
qed

lemma SplitHostPort_no_colon: "CHR '':'' \<notin> set s \<Longrightarrow> SplitHostPort s = Inl MissingPort"
  by (simp add: SplitHostPort_def iffD2 [OF rcut_None])

end
