(* ===== verification/Json.thy ===== *)
theory Json
  imports Prelude
begin

text \<open>
  What the program uses of \<open>encoding/json\<close>: the compact text that
  \<open>json.Marshal\<close> writes for structs of strings, and the reading of a JSON text
  by \<open>json.Unmarshal\<close> (white space, escapes, numbers, nested values). The
  printer follows Go's escaping with HTML escaping on; bytes above 127 are
  passed through, which is Go's behaviour on valid UTF-8, and the round trip
  below is stated for ASCII strings. The interface that the protocol code needs,
  a codec whose decoder inverts its encoder, is the locale \<open>codec\<close>.
\<close>

datatype json =
    JNull
  | JBool bool
  | JNum string
  | JStr string
  | JArr "json list"
  | JObj "(string \<times> json) list"

section \<open>Printing\<close>

definition hex_digit :: "nat \<Rightarrow> char" where
  "hex_digit n = (if n < 10 then char_of (48 + n) else char_of (87 + n))"

definition json_safe :: "char \<Rightarrow> bool" where
  "json_safe c \<longleftrightarrow> 32 \<le> (of_char c :: nat) \<and> c \<noteq> CHR 0x22 \<and> c \<noteq> CHR 0x5C
     \<and> c \<noteq> CHR ''<'' \<and> c \<noteq> CHR ''>'' \<and> c \<noteq> CHR ''&''"

definition escape_char :: "char \<Rightarrow> string" where
  "escape_char c =
     (if json_safe c then [c]
      else if c = CHR 0x5C \<or> c = CHR 0x22 then [CHR 0x5C, c]
      else if c = CHR 0x0A then [CHR 0x5C, CHR ''n'']
      else if c = CHR 0x0D then [CHR 0x5C, CHR ''r'']
      else if c = CHR 0x09 then [CHR 0x5C, CHR ''t'']
      else [CHR 0x5C, CHR ''u'', CHR ''0'', CHR ''0'',
            hex_digit (of_char c div 16), hex_digit (of_char c mod 16)])"

definition json_quote :: "string \<Rightarrow> string" where
  "json_quote s = CHR 0x22 # concat (map escape_char s) @ [CHR 0x22]"

fun json_print :: "json \<Rightarrow> string" where
  "json_print JNull = ''null''"
| "json_print (JBool b) = (if b then ''true'' else ''false'')"
| "json_print (JNum s) = s"
| "json_print (JStr s) = json_quote s"
| "json_print (JArr vs) = CHR ''['' # join '','' (map json_print vs) @ '']''"
| "json_print (JObj ms) =
     CHR ''{'' # join '','' (map (\<lambda>(k, v). json_quote k @ '':'' @ json_print v) ms) @ ''}''"

section \<open>Parsing\<close>

definition hex_val :: "char \<Rightarrow> nat option" where
  "hex_val c =
     (let n = of_char c in
      if 48 \<le> n \<and> n \<le> 57 then Some (n - 48)
      else if 97 \<le> n \<and> n \<le> 102 then Some (n - 87)
      else if 65 \<le> n \<and> n \<le> 70 then Some (n - 55)
      else None)"

fun hex4 :: "string \<Rightarrow> (nat \<times> string) option" where
  "hex4 (a # b # c # d # r) =
     (case (hex_val a, hex_val b, hex_val c, hex_val d) of
        (Some w, Some x, Some y, Some z) \<Rightarrow> Some (4096 * w + 256 * x + 16 * y + z, r)
      | _ \<Rightarrow> None)"
| "hex4 _ = None"

definition simple_escape :: "char \<Rightarrow> char option" where
  "simple_escape e =
     (if e = CHR 0x22 \<or> e = CHR 0x5C \<or> e = CHR ''/'' then Some e
      else if e = CHR ''b'' then Some CHR 0x08
      else if e = CHR ''f'' then Some CHR 0x0C
      else if e = CHR ''n'' then Some CHR 0x0A
      else if e = CHR ''r'' then Some CHR 0x0D
      else if e = CHR ''t'' then Some CHR 0x09
      else None)"

definition utf8 :: "nat \<Rightarrow> string" where
  "utf8 u =
     (if u < 128 then [char_of u]
      else if u < 2048 then [char_of (192 + u div 64), char_of (128 + u mod 64)]
      else if u < 65536 then
        [char_of (224 + u div 4096), char_of (128 + u div 64 mod 64), char_of (128 + u mod 64)]
      else
        [char_of (240 + u div 262144), char_of (128 + u div 4096 mod 64),
         char_of (128 + u div 64 mod 64), char_of (128 + u mod 64)])"

text \<open>A low surrogate escape right after a high one.\<close>

definition low_surrogate :: "nat \<Rightarrow> string \<Rightarrow> (nat \<times> string) option" where
  "low_surrogate u s =
     (if 55296 \<le> u \<and> u < 56320 \<and> take 2 s = [CHR 0x5C, CHR ''u''] then
        (case hex4 (drop 2 s) of
           Some (v, r) \<Rightarrow> if 56320 \<le> v \<and> v < 57344
             then Some (65536 + 1024 * (u - 55296) + (v - 56320), r) else None
         | None \<Rightarrow> None)
      else None)"

definition push_str :: "string \<Rightarrow> (string \<times> string) option \<Rightarrow> (string \<times> string) option" where
  "push_str s p = map_option (\<lambda>(t, r). (s @ t, r)) p"

lemma hex4_length: "hex4 s = Some (u, r) \<Longrightarrow> length r < length s"
  by (induction s rule: hex4.induct) (auto split: option.splits)

lemma low_surrogate_length: "low_surrogate u s = Some (v, r) \<Longrightarrow> length r < length s"
  using hex4_length [of "drop 2 s"]
  by (fastforce simp: low_surrogate_def split: if_splits option.splits)

function parse_str :: "string \<Rightarrow> (string \<times> string) option" where
  "parse_str [] = None"
| "parse_str (c # cs) =
     (if c = CHR 0x22 then Some ([], cs)
      else if c = CHR 0x5C then
        (case cs of
           [] \<Rightarrow> None
         | e # r \<Rightarrow>
             (case simple_escape e of
                Some ch \<Rightarrow> push_str [ch] (parse_str r)
              | None \<Rightarrow>
                  if e = CHR ''u'' then
                    (case hex4 r of
                       None \<Rightarrow> None
                     | Some (u, r1) \<Rightarrow>
                         (case low_surrogate u r1 of
                            Some (w, r2) \<Rightarrow> push_str (utf8 w) (parse_str r2)
                          | None \<Rightarrow>
                              push_str (utf8 (if 55296 \<le> u \<and> u < 57344 then 65533 else u))
                                (parse_str r1)))
                  else None))
      else if (of_char c :: nat) < 32 then None
      else push_str [c] (parse_str cs))"
  by pat_completeness auto
termination
  by (relation "measure length")
    (auto dest!: hex4_length low_surrogate_length)

fun skip_ws :: "string \<Rightarrow> string" where
  "skip_ws (c # cs) =
     (if c = CHR '' '' \<or> c = CHR 0x09 \<or> c = CHR 0x0A \<or> c = CHR 0x0D
      then skip_ws cs else c # cs)"
| "skip_ws [] = []"

text \<open>A number literal: sign, integer part, fraction, exponent.\<close>

definition lex_digits :: "string \<Rightarrow> (string \<times> string) option" where
  "lex_digits s =
     (case takeWhile is_digit s of [] \<Rightarrow> None | ds \<Rightarrow> Some (ds, dropWhile is_digit s))"

definition lex_int :: "string \<Rightarrow> (string \<times> string) option" where
  "lex_int s =
     (case s of
        c # r \<Rightarrow> if c = CHR ''0'' then Some (''0'', r) else lex_digits s
      | [] \<Rightarrow> None)"

definition lex_frac :: "string \<Rightarrow> (string \<times> string) option" where
  "lex_frac s =
     (case s of
        c # r \<Rightarrow> if c = CHR ''.'' then push_str ''.'' (lex_digits r) else Some ([], s)
      | [] \<Rightarrow> Some ([], s))"

definition lex_exp :: "string \<Rightarrow> (string \<times> string) option" where
  "lex_exp s =
     (case s of
        c # r \<Rightarrow>
          if c = CHR ''e'' \<or> c = CHR ''E'' then
            (case r of
               d # r' \<Rightarrow> if d = CHR ''+'' \<or> d = CHR ''-'' then push_str [c, d] (lex_digits r')
                         else push_str [c] (lex_digits r)
             | [] \<Rightarrow> None)
          else Some ([], s)
      | [] \<Rightarrow> Some ([], s))"

definition lex_num :: "string \<Rightarrow> (string \<times> string) option" where
  "lex_num s =
     (let (sgn, s1) = (case s of c # r \<Rightarrow> if c = CHR ''-'' then (''-'', r) else ([], s)
                               | [] \<Rightarrow> ([], s)) in
      case lex_int s1 of None \<Rightarrow> None | Some (i, s2) \<Rightarrow>
      case lex_frac s2 of None \<Rightarrow> None | Some (f, s3) \<Rightarrow>
      case lex_exp s3 of None \<Rightarrow> None | Some (x, s4) \<Rightarrow> Some (sgn @ i @ f @ x, s4))"

fun parse_value :: "nat \<Rightarrow> string \<Rightarrow> (json \<times> string) option"
and parse_elems :: "nat \<Rightarrow> string \<Rightarrow> (json list \<times> string) option"
and parse_members :: "nat \<Rightarrow> string \<Rightarrow> ((string \<times> json) list \<times> string) option"
where
  "parse_value 0 s = None"
| "parse_value (Suc n) s =
     (case skip_ws s of
        [] \<Rightarrow> None
      | c # r \<Rightarrow>
          if c = CHR 0x22 then map_option (\<lambda>(t, r'). (JStr t, r')) (parse_str r)
          else if c = CHR ''{'' then
            (if take 1 (skip_ws r) = ''}'' then Some (JObj [], drop 1 (skip_ws r))
             else map_option (\<lambda>(ms, r'). (JObj ms, r')) (parse_members n r))
          else if c = CHR ''['' then
            (if take 1 (skip_ws r) = '']'' then Some (JArr [], drop 1 (skip_ws r))
             else map_option (\<lambda>(vs, r'). (JArr vs, r')) (parse_elems n r))
          else if take 4 (c # r) = ''null'' then Some (JNull, drop 4 (c # r))
          else if take 4 (c # r) = ''true'' then Some (JBool True, drop 4 (c # r))
          else if take 5 (c # r) = ''false'' then Some (JBool False, drop 5 (c # r))
          else map_option (\<lambda>(t, r'). (JNum t, r')) (lex_num (c # r)))"
| "parse_elems 0 s = None"
| "parse_elems (Suc n) s =
     (case parse_value n s of
        None \<Rightarrow> None
      | Some (v, r) \<Rightarrow>
          (case skip_ws r of
             [] \<Rightarrow> None
           | d # r' \<Rightarrow>
               if d = CHR '','' then map_option (\<lambda>(vs, r2). (v # vs, r2)) (parse_elems n r')
               else if d = CHR '']'' then Some ([v], r') else None))"
| "parse_members 0 s = None"
| "parse_members (Suc n) s =
     (if take 1 (skip_ws s) \<noteq> [CHR 0x22] then None else
      case parse_str (drop 1 (skip_ws s)) of
        None \<Rightarrow> None
      | Some (k, r1) \<Rightarrow>
          (if take 1 (skip_ws r1) \<noteq> '':'' then None else
           case parse_value n (drop 1 (skip_ws r1)) of
             None \<Rightarrow> None
           | Some (v, r) \<Rightarrow>
               (case skip_ws r of
                  [] \<Rightarrow> None
                | d # r' \<Rightarrow>
                    if d = CHR '','' then map_option (\<lambda>(ms, r2). ((k, v) # ms, r2)) (parse_members n r')
                    else if d = CHR ''}'' then Some ([(k, v)], r') else None)))"

text \<open>
  Every recursive call has read at least one byte, so a fuel of one more than
  the length of the text is enough.
\<close>

definition json_parse :: "string \<Rightarrow> json option" where
  "json_parse s =
     (case parse_value (Suc (length s)) s of
        Some (v, r) \<Rightarrow> if skip_ws r = [] then Some v else None
      | None \<Rightarrow> None)"

section \<open>Reading back what was printed\<close>

lemma hex_val_digit [simp]: "n < 16 \<Longrightarrow> hex_val (hex_digit n) = Some n"
  by (auto simp: hex_val_def hex_digit_def Let_def)

lemma hex_digit_not_u [simp]: "n < 16 \<Longrightarrow> hex_digit n \<noteq> CHR 0x5C"
  by (auto simp: hex_digit_def dest!: arg_cong [where f = "of_char :: char \<Rightarrow> nat"])

lemma unsafe_small: "\<not> json_safe c \<Longrightarrow> (of_char c :: nat) < 128"
  by (auto simp: json_safe_def)

lemma parse_str_escape:
  "parse_str (escape_char c @ s) = push_str [c] (parse_str s)"
proof -
  have small: "hex4 (CHR ''0'' # CHR ''0'' # hex_digit (of_char c div 16)
      # hex_digit (of_char c mod 16) # s) = Some (of_char c, s)" if "\<not> json_safe c"
    using unsafe_small [OF that] by (simp add: hex_val_def [of "CHR ''0''"])
  have high: "low_surrogate (of_char c) s = None" if "\<not> json_safe c"
    using unsafe_small [OF that] by (simp add: low_surrogate_def)
  show ?thesis
  proof (cases "json_safe c")
    case True
    then show ?thesis by (simp add: escape_char_def json_safe_def)
  next
    case False
    with small high unsafe_small [OF False] show ?thesis
      by (simp add: escape_char_def simple_escape_def utf8_def)
  qed
qed

lemma parse_str_quote [simp]:
  "parse_str (concat (map escape_char s) @ CHR 0x22 # r) = Some (s, r)"
  by (induction s) (simp_all add: parse_str_escape push_str_def del: parse_str.simps(2),
      simp add: parse_str.simps)

fun num_free :: "json \<Rightarrow> bool" where
  "num_free (JNum s) = False"
| "num_free (JArr vs) = (\<forall>v\<in>set vs. num_free v)"
| "num_free (JObj ms) = (\<forall>(k, v)\<in>set ms. num_free v)"
| "num_free _ = True"

text \<open>Values whose numbers are integers as \<open>json.Marshal\<close> writes them.\<close>

fun ints_only :: "json \<Rightarrow> bool" where
  "ints_only (JNum s) = (\<exists>i. s = dec_int i)"
| "ints_only (JArr vs) = (\<forall>v\<in>set vs. ints_only v)"
| "ints_only (JObj ms) = (\<forall>(k, v)\<in>set ms. ints_only v)"
| "ints_only _ = True"

lemma num_free_ints_only: "num_free v \<Longrightarrow> ints_only v"
proof (induction v)
  case (JObj ms)
  show ?case using JObj.prems by (auto intro!: JObj.IH simp: snds.simps)
qed auto

text \<open>What may follow a number: the end, or a character that does not go on with it.\<close>

definition ends :: "string \<Rightarrow> bool" where
  "ends r \<longleftrightarrow> (case r of [] \<Rightarrow> True | c # s \<Rightarrow> c = CHR '','' \<or> c = CHR '']'' \<or> c = CHR ''}'')"

lemma ends_simps [simp]: "ends []" "ends (CHR '','' # r)" "ends (CHR '']'' # r)" "ends (CHR ''}'' # r)"
  by (simp_all add: ends_def)

lemma dec_zero: "dec n = CHR ''0'' # s \<Longrightarrow> n = 0"
proof (induction n arbitrary: s rule: dec.induct)
  case (1 n)
  show ?case
  proof (cases "n < 10")
    case True
    have "undec (dec n) = 0" using 1(2) True by (simp add: dec.simps [of n] undec_def digit_val_def)
    then show ?thesis by simp
  next
    case False
    then obtain t where "dec (n div 10) = CHR ''0'' # t"
      using 1(2) by (cases "dec (n div 10)") (auto simp: dec.simps [of n])
    with 1(1) False have "n div 10 = 0" by blast
    with False show ?thesis by simp
  qed
qed

lemma lex_int_dec:
  assumes "r = [] \<or> \<not> is_digit (hd r)"
  shows "lex_int (dec n @ r) = Some (dec n, r)"
proof (cases "n = 0")
  case True
  then show ?thesis by (simp add: lex_int_def dec.simps [of 0] digit_table)
next
  case False
  obtain c s where c: "dec n = c # s" by (cases "dec n") auto
  then have "c \<noteq> CHR ''0''" using dec_zero [of n s] False by auto
  moreover have "takeWhile is_digit (dec n @ r) = dec n" "dropWhile is_digit (dec n @ r) = r"
    using assms dec_digits [of _ n] by (cases r; auto simp: takeWhile_append2 dropWhile_append2)+
  ultimately show ?thesis using c by (auto simp: lex_int_def lex_digits_def)
qed

lemma lex_num_dec_int: "ends r \<Longrightarrow> lex_num (dec_int i @ r) = Some (dec_int i, r)"
proof -
  assume r: "ends r"
  have d: "r = [] \<or> \<not> is_digit (hd r)" using r by (auto simp: ends_def is_digit_def split: list.splits)
  have f: "lex_frac r = Some ([], r)" "lex_exp r = Some ([], r)"
    using r by (auto simp: ends_def lex_frac_def lex_exp_def split: list.splits)
  show ?thesis
  proof (cases "i < 0")
    case True
    then show ?thesis using lex_int_dec [OF d, of "nat (- i)"] f by (simp add: lex_num_def dec_int_def)
  next
    case False
    obtain c s where c: "dec (nat i) = c # s" by (cases "dec (nat i)") auto
    have "is_digit c" using c dec_digits [of c "nat i"] by simp
    then have "c \<noteq> CHR ''-''" by auto
    with c False lex_int_dec [OF d, of "nat i"] f show ?thesis by (simp add: lex_num_def dec_int_def)
  qed
qed

lemma dec_int_first: "\<exists>c s. dec_int i = c # s \<and> (is_digit c \<or> c = CHR ''-'')"
proof (cases "i < 0")
  case False
  obtain c s where c: "dec (nat i) = c # s" by (cases "dec (nat i)") auto
  with False dec_digits [of c "nat i"] show ?thesis by (simp add: dec_int_def)
qed (simp add: dec_int_def)

lemma print_first:
  "ints_only v \<Longrightarrow> \<exists>c s. json_print v = c # s \<and> \<not> (c = CHR '' '' \<or> c = CHR 0x09 \<or> c = CHR 0x0A \<or> c = CHR 0x0D \<or> c = CHR '']'')"
proof (cases v)
  case (JNum s)
  assume "ints_only v"
  then obtain i where "s = dec_int i" using JNum by auto
  with dec_int_first [of i] JNum show ?thesis by (auto simp: is_digit_def)
qed (auto simp: json_quote_def)

lemma skip_ws_print: "ints_only v \<Longrightarrow> skip_ws (json_print v @ r) = json_print v @ r"
  using print_first [of v] by auto

lemma print_nonempty: "ints_only v \<Longrightarrow> 0 < length (json_print v)"
  using print_first [of v] by auto

text \<open>
  One element (one member) of a list is read by the list's parser when the
  value parser reads it; the list lemmas then follow by induction.
\<close>

definition reads :: "json \<Rightarrow> bool" where
  "reads v \<longleftrightarrow> (\<forall>n r. length (json_print v) \<le> n \<longrightarrow> ends r \<longrightarrow> parse_value n (json_print v @ r) = Some (v, r))"

lemma reads_leaf:
  assumes "json_print v \<noteq> []"
    and "\<And>m r. ends r \<Longrightarrow> parse_value (Suc m) (json_print v @ r) = Some (v, r)"
  shows "reads v"
  unfolding reads_def
proof (intro allI impI)
  fix n r assume a: "length (json_print v) \<le> n" "ends r"
  with assms(1) obtain m where "n = Suc m" by (cases n) auto
  with assms(2) a(2) show "parse_value n (json_print v @ r) = Some (v, r)" by simp
qed

definition print_member :: "string \<times> json \<Rightarrow> string" where
  "print_member m = json_quote (fst m) @ '':'' @ json_print (snd m)"

lemma print_member_pair [simp]: "print_member (k, v) = json_quote k @ CHR '':'' # json_print v"
  by (simp add: print_member_def)

lemma print_members [simp]:
  "map (\<lambda>(k, v). json_quote k @ CHR '':'' # json_print v) ms = map print_member ms"
  by (simp add: print_member_def case_prod_beta)

lemma parse_elems_print:
  assumes "vs \<noteq> []" and "\<forall>v\<in>set vs. reads v"
    and "length (join '','' (map json_print vs)) < n"
  shows "parse_elems n (join '','' (map json_print vs) @ '']'' @ r) = Some (vs, r)"
  using assms
proof (induction vs arbitrary: n rule: induct_list012)
  case (2 v)
  then show ?case by (cases n) (simp_all add: reads_def)
next
  case (3 v w vs)
  then obtain m where n: "n = Suc m" by (cases n) auto
  with "3.prems" have "parse_value m (json_print v @ '','' @ join '','' (map json_print (w # vs)) @ '']'' @ r)
      = Some (v, '','' @ join '','' (map json_print (w # vs)) @ '']'' @ r)"
    by (simp add: reads_def)
  moreover have "parse_elems m (join '','' (map json_print (w # vs)) @ '']'' @ r) = Some (w # vs, r)"
    using "3.prems" n by (intro "3.IH") auto
  ultimately show ?case using n by simp
qed simp

lemma parse_members_comma:
  "parse_value n t = Some (v, CHR '','' # s) \<Longrightarrow>
   parse_members (Suc n) (json_quote k @ CHR '':'' # t) =
     map_option (\<lambda>(ms, r). ((k, v) # ms, r)) (parse_members n s)"
  by (simp add: json_quote_def)

lemma parse_members_print:
  assumes "ms \<noteq> []" and "\<forall>m\<in>set ms. reads (snd m)"
    and "length (join '','' (map print_member ms)) < n"
  shows "parse_members n (join '','' (map print_member ms) @ ''}'' @ r) = Some (ms, r)"
  using assms
proof (induction ms arbitrary: n rule: induct_list012)
  case (2 m)
  then show ?case by (cases n; cases m) (simp_all add: reads_def print_member_def json_quote_def)
next
  case (3 m m' ms)
  then obtain i where n: "n = Suc i" by (cases n) auto
  obtain k v where m: "m = (k, v)" by fastforce
  define t where "t = join '','' (map print_member (m' # ms)) @ ''}'' @ r"
  from n m "3.prems" have "parse_value i (json_print v @ CHR '','' # t) = Some (v, CHR '','' # t)"
    by (simp add: reads_def print_member_def)
  then have "parse_members n (json_quote k @ CHR '':'' # json_print v @ CHR '','' # t)
      = map_option (\<lambda>(ms, r). ((k, v) # ms, r)) (parse_members i t)"
    unfolding n by (rule parse_members_comma)
  moreover have "parse_members i (join '','' (map print_member (m' # ms)) @ ''}'' @ r) = Some (m' # ms, r)"
    using "3.prems" n by (intro "3.IH") auto
  ultimately show ?case using m by (simp add: t_def)
qed simp

lemma join_first:
  assumes "vs \<noteq> []" and "hd vs \<noteq> []"
  shows "join sep vs \<noteq> [] \<and> hd (join sep vs) = hd (hd vs)"
  using assms by (cases vs rule: remdups_adj.cases) (auto simp: neq_Nil_conv)

lemma reads_print: "ints_only v \<Longrightarrow> reads v"
proof (induction v)
  case (JArr vs)
  show ?case unfolding reads_def
  proof (intro allI impI)
    fix n r assume n: "length (json_print (JArr vs)) \<le> n" and r: "ends r"
    then obtain m where m: "n = Suc m" by (cases n) auto
    show "parse_value n (json_print (JArr vs) @ r) = Some (JArr vs, r)"
    proof (cases vs)
      case Nil
      with m show ?thesis by simp
    next
      case (Cons v vs')
      have skip: "skip_ws (join '','' (map json_print vs) @ '']'' @ r) = join '','' (map json_print vs) @ '']'' @ r"
        and ne: "take 1 (join '','' (map json_print vs) @ '']'' @ r) \<noteq> '']''"
        using JArr.prems Cons print_first [of v] by (cases vs'; auto)+
      have "parse_elems m (join '','' (map json_print vs) @ '']'' @ r) = Some (vs, r)"
        using JArr n m Cons by (intro parse_elems_print) auto
      with m skip ne show ?thesis by simp
    qed
  qed
next
  case (JObj ms)
  show ?case unfolding reads_def
  proof (intro allI impI)
    fix n r assume n: "length (json_print (JObj ms)) \<le> n" and r: "ends r"
    then obtain m where m: "n = Suc m" by (cases n) auto
    show "parse_value n (json_print (JObj ms) @ r) = Some (JObj ms, r)"
    proof (cases ms)
      case Nil
      with m show ?thesis by simp
    next
      case (Cons p ms')
      have skip: "skip_ws (join '','' (map print_member ms) @ ''}'' @ r) = join '','' (map print_member ms) @ ''}'' @ r"
        and ne: "take 1 (join '','' (map print_member ms) @ ''}'' @ r) \<noteq> ''}''"
        using Cons by (cases ms'; simp add: print_member_def json_quote_def)+
      have "parse_members m (join '','' (map print_member ms) @ ''}'' @ r) = Some (ms, r)"
      proof (rule parse_members_print)
        show "\<forall>q\<in>set ms. reads (snd q)" using JObj by (fastforce simp: snds.simps)
        show "length (join '','' (map print_member ms)) < m" using n m by simp
      qed (simp add: Cons)
      with m skip ne show ?thesis by simp
    qed
  qed
next
  case JNull
  show ?case by (rule reads_leaf) simp_all
next
  case (JBool b)
  show ?case by (rule reads_leaf; cases b) simp_all
next
  case (JStr s)
  show ?case by (rule reads_leaf) (simp_all add: json_quote_def)
next
  case (JNum s)
  then obtain i where i: "s = dec_int i" by auto
  obtain c t where c: "dec_int i = c # t" "is_digit c \<or> c = CHR ''-''" using dec_int_first by blast
  have v: "parse_value (Suc m) (c # t @ r) = Some (JNum s, r)" if "ends r" for m r
  proof -
    have "skip_ws (c # t @ r) = c # t @ r" using c(2) by (auto simp: is_digit_def)
    moreover have "c \<noteq> CHR 0x22" "c \<noteq> CHR ''{''" "c \<noteq> CHR ''[''" "c \<noteq> CHR ''n''" "c \<noteq> CHR ''t''" "c \<noteq> CHR ''f''"
      using c(2) by (auto simp: is_digit_def)
    moreover have "lex_num (c # t @ r) = Some (s, r)" using lex_num_dec_int [OF that, of i] c(1) i by simp
    ultimately show ?thesis by simp
  qed
  show ?case using v c(1) i by (intro reads_leaf) auto
qed

theorem json_parse_print_ints: "ints_only v \<Longrightarrow> json_parse (json_print v) = Some v"
proof -
  assume "ints_only v"
  then have "parse_value (Suc (length (json_print v))) (json_print v @ []) = Some (v, [])"
    using reads_print [of v] unfolding reads_def by (meson ends_simps(1) le_SucI order_refl)
  then show ?thesis by (simp add: json_parse_def del: parse_value.simps)
qed

theorem json_parse_print: "num_free v \<Longrightarrow> json_parse (json_print v) = Some v"
  by (intro json_parse_print_ints num_free_ints_only)

section \<open>Decoding into structs\<close>

text \<open>
  \<open>json.Unmarshal\<close> into a struct looks at the members in the order of the text;
  a key selects a field up to the case of its letters, \<open>null\<close> leaves the field
  as it is, an unknown key is ignored, and a value of another type is an error
  that is reported after the rest has been decoded.
\<close>

datatype json_error = SyntaxError | TypeError

definition lower :: "char \<Rightarrow> char" where
  "lower c = (if 65 \<le> (of_char c :: nat) \<and> (of_char c :: nat) \<le> 90
              then char_of (of_char c + 32 :: nat) else c)"

definition key_is :: "string \<Rightarrow> string \<Rightarrow> bool" where
  "key_is f k \<longleftrightarrow> map lower k = map lower f"

definition set_str :: "(string \<Rightarrow> 'r \<Rightarrow> 'r) \<Rightarrow> json \<Rightarrow> bool \<times> 'r \<Rightarrow> bool \<times> 'r" where
  "set_str upd v p =
     (case v of JStr s \<Rightarrow> (fst p, upd s (snd p)) | JNull \<Rightarrow> p | _ \<Rightarrow> (False, snd p))"

type_synonym 'r member_step = "string \<times> json \<Rightarrow> bool \<times> 'r \<Rightarrow> bool \<times> 'r"

definition decode_obj :: "'r member_step \<Rightarrow> 'r \<Rightarrow> json \<Rightarrow> bool \<times> 'r" where
  "decode_obj stp z v =
     (case v of JObj ms \<Rightarrow> fold stp ms (True, z) | JNull \<Rightarrow> (True, z) | _ \<Rightarrow> (False, z))"

definition unmarshal :: "'r member_step \<Rightarrow> 'r \<Rightarrow> byte list \<Rightarrow> json_error + 'r" where
  "unmarshal stp z bs =
     (case json_parse (string_of bs) of
        None \<Rightarrow> Inl SyntaxError
      | Some v \<Rightarrow> (case decode_obj stp z v of (ok, r) \<Rightarrow> if ok then Inr r else Inl TypeError))"

lemma unmarshal_print:
  assumes "num_free v" and "decode_obj stp z v = (True, r)"
  shows "unmarshal stp z (bytes_of (json_print v)) = Inr r"
  using assms by (simp add: unmarshal_def json_parse_print)

lemma unmarshal_print_ints:
  assumes "ints_only v" and "decode_obj stp z v = (True, r)"
  shows "unmarshal stp z (bytes_of (json_print v)) = Inr r"
  using assms by (simp add: unmarshal_def json_parse_print_ints)

lemma unmarshal_Nil: "unmarshal stp z [] = Inl SyntaxError"
  by (simp add: unmarshal_def json_parse_def string_of_def)

text \<open>\<open>strconv.ParseInt(s, 10, 64)\<close>, which reads the keys of a \<open>map[int]T\<close>.\<close>

definition parse_int :: "string \<Rightarrow> int option" where
  "parse_int s =
     (let (neg, ds) = (case s of
            c # r \<Rightarrow> if c = CHR ''-'' then (True, r) else if c = CHR ''+'' then (False, r) else (False, s)
          | [] \<Rightarrow> (False, s));
          n = (if neg then - int (undec ds) else int (undec ds))
      in if ds = [] \<or> \<not> list_all is_digit ds then None
         else if - (2 ^ 63) \<le> n \<and> n < 2 ^ 63 then Some n else None)"

lemma dec_hd_sign [simp]: "dec n = c # r \<Longrightarrow> c \<noteq> CHR ''-'' \<and> c \<noteq> CHR ''+''"
  using dec_digits [of c n] by (auto simp: is_digit_def)

lemma parse_int_dec_int:
  assumes "- (2 ^ 63) \<le> i" and "i < 2 ^ 63"
  shows "parse_int (dec_int i) = Some i"
proof -
  have digits: "list_all is_digit (dec n)" for n
    using dec_digits by (auto simp: list_all_iff)
  show ?thesis
  proof (cases "i < 0")
    case True
    with assms digits show ?thesis by (simp add: parse_int_def dec_int_def)
  next
    case False
    obtain c r where cr: "dec (nat i) = c # r" by (cases "dec (nat i)") auto
    with dec_hd_sign have "c \<noteq> CHR ''-''" "c \<noteq> CHR ''+''" by blast+
    with False cr assms digits [of "nat i"] undec_dec [of "nat i"] show ?thesis
      by (simp add: parse_int_def dec_int_def)
  qed
qed

section \<open>The codec interface\<close>

text \<open>
  What the framing code relies on: a value of the domain, once marshalled, is
  unmarshalled to its canonical form (the value itself, up to the order of a
  map's entries).
\<close>

definition ascii :: "string \<Rightarrow> bool" where
  "ascii s \<longleftrightarrow> (\<forall>c\<in>set s. (of_char c :: nat) < 128)"

locale codec =
  fixes enc :: "'a \<Rightarrow> byte list"
    and dcd :: "byte list \<Rightarrow> json_error + 'a"
    and canon :: "'a \<Rightarrow> 'a"
    and dom_ok :: "'a \<Rightarrow> bool"
  assumes dcd_enc: "dom_ok x \<Longrightarrow> dcd (enc x) = Inr (canon x)"
    and dcd_empty: "\<exists>e. dcd [] = Inl e"

end
