(* ===== verification/Proto.thy ===== *)
theory Proto
  imports Json "HOL-Library.Char_ord" "HOL-Library.List_Lexorder"
begin

text \<open>
  The wire protocol between client and server (\<open>internal/proto/cs.go\<close>): the
  messages, their JSON form, the 4-byte header with its 16-bit body length, and
  the functions that write and read one frame. A Go map is the list of its
  entries in the order in which a \<open>range\<close> over it visits them.
\<close>

section \<open>Commands and messages\<close>

definition CmdAuth :: int where "CmdAuth = 0"
definition CmdHeartbeat :: int where "CmdHeartbeat = 1"
definition CmdData :: int where "CmdData = 2"

record ForwardItem =
  fw_Protocol :: string
  fw_Ports :: "(int \<times> string) list"
  fw_LocalIP :: string
  fw_RawConfig :: string

record C2SAuth =
  c2s_Key :: string
  c2s_Domain :: string
  c2s_Forward :: "ForwardItem list"

record ProxyTuple =
  pt_Protocol :: string
  pt_FromPort :: string
  pt_ToPort :: string

record S2CAuth =
  s2c_Domain :: string
  s2c_Vip :: string
  s2c_ProxyInfos :: "ProxyTuple list"

record ProxyProtocol =
  pp_Protocol :: string
  pp_SrcIP :: string
  pp_SrcPort :: string
  pp_DstIP :: string
  pp_DstPort :: string

section \<open>The JSON form of the messages\<close>

definition json_of_ProxyProtocol :: "ProxyProtocol \<Rightarrow> json" where
  "json_of_ProxyProtocol p = JObj
     [(''protocol'', JStr (pp_Protocol p)), (''sip'', JStr (pp_SrcIP p)),
      (''sport'', JStr (pp_SrcPort p)), (''dip'', JStr (pp_DstIP p)),
      (''dport'', JStr (pp_DstPort p))]"

definition zero_ProxyProtocol :: ProxyProtocol where
  "zero_ProxyProtocol = \<lparr>pp_Protocol = [], pp_SrcIP = [], pp_SrcPort = [], pp_DstIP = [], pp_DstPort = []\<rparr>"

definition member_ProxyProtocol :: "ProxyProtocol member_step" where
  "member_ProxyProtocol m st =
     (let (k, v) = m in
      if key_is ''protocol'' k then set_str (\<lambda>s r. r\<lparr>pp_Protocol := s\<rparr>) v st
      else if key_is ''sip'' k then set_str (\<lambda>s r. r\<lparr>pp_SrcIP := s\<rparr>) v st
      else if key_is ''sport'' k then set_str (\<lambda>s r. r\<lparr>pp_SrcPort := s\<rparr>) v st
      else if key_is ''dip'' k then set_str (\<lambda>s r. r\<lparr>pp_DstIP := s\<rparr>) v st
      else if key_is ''dport'' k then set_str (\<lambda>s r. r\<lparr>pp_DstPort := s\<rparr>) v st
      else st)"

definition marshal_ProxyProtocol :: "ProxyProtocol \<Rightarrow> byte list" where
  "marshal_ProxyProtocol p = bytes_of (json_print (json_of_ProxyProtocol p))"

definition unmarshal_ProxyProtocol :: "byte list \<Rightarrow> json_error + ProxyProtocol" where
  "unmarshal_ProxyProtocol = unmarshal member_ProxyProtocol zero_ProxyProtocol"

definition ok_ProxyProtocol :: "ProxyProtocol \<Rightarrow> bool" where
  "ok_ProxyProtocol p \<longleftrightarrow> ascii (pp_Protocol p) \<and> ascii (pp_SrcIP p) \<and> ascii (pp_SrcPort p)
     \<and> ascii (pp_DstIP p) \<and> ascii (pp_DstPort p)"

text \<open>The entries of a map are written in the order of their keys' texts.\<close>

definition json_of_ports :: "(int \<times> string) list \<Rightarrow> json" where
  "json_of_ports ps =
     JObj (sort_key fst (map (\<lambda>(p, l). (dec_int p, JStr l)) ps))"

definition json_of_ForwardItem :: "ForwardItem \<Rightarrow> json" where
  "json_of_ForwardItem f = JObj
     [(''protocol'', JStr (fw_Protocol f)), (''ports'', json_of_ports (fw_Ports f)),
      (''localIP'', JStr (fw_LocalIP f)), (''rawConfig'', JStr (fw_RawConfig f))]"

definition json_of_C2SAuth :: "C2SAuth \<Rightarrow> json" where
  "json_of_C2SAuth a = JObj
     [(''key'', JStr (c2s_Key a)), (''domain'', JStr (c2s_Domain a)),
      (''forwards'', JArr (map json_of_ForwardItem (c2s_Forward a)))]"

definition map_put :: "'k \<Rightarrow> 'v \<Rightarrow> ('k \<times> 'v) list \<Rightarrow> ('k \<times> 'v) list" where
  "map_put k v m =
     (if k \<in> fst ` set m then map (\<lambda>(k', v'). if k' = k then (k, v) else (k', v')) m
      else m @ [(k, v)])"

definition member_ports :: "(int \<times> string) list member_step" where
  "member_ports m st =
     (let (k, v) = m; (ok, ps) = st in
      case parse_int k of
        None \<Rightarrow> (False, ps)
      | Some i \<Rightarrow>
          (case v of
             JStr s \<Rightarrow> (ok, map_put i s ps)
           | JNull \<Rightarrow> (ok, map_put i [] ps)
           | _ \<Rightarrow> (False, ps)))"

definition zero_ForwardItem :: ForwardItem where
  "zero_ForwardItem = \<lparr>fw_Protocol = [], fw_Ports = [], fw_LocalIP = [], fw_RawConfig = []\<rparr>"

definition member_ForwardItem :: "ForwardItem member_step" where
  "member_ForwardItem m st =
     (let (k, v) = m in
      if key_is ''protocol'' k then set_str (\<lambda>s r. r\<lparr>fw_Protocol := s\<rparr>) v st
      else if key_is ''ports'' k then
        (case (if v = JNull then (True, []) else decode_obj member_ports (fw_Ports (snd st)) v) of
           (ok, ps) \<Rightarrow> (fst st \<and> ok, (snd st)\<lparr>fw_Ports := ps\<rparr>))
      else if key_is ''localIP'' k then set_str (\<lambda>s r. r\<lparr>fw_LocalIP := s\<rparr>) v st
      else if key_is ''rawConfig'' k then set_str (\<lambda>s r. r\<lparr>fw_RawConfig := s\<rparr>) v st
      else st)"

text \<open>A slice of structs: every element is decoded from the zero value.\<close>

definition decode_slice :: "'r member_step \<Rightarrow> 'r \<Rightarrow> json \<Rightarrow> bool \<times> 'r list" where
  "decode_slice stp z v =
     (case v of
        JArr vs \<Rightarrow> (list_all fst (map (decode_obj stp z) vs), map snd (map (decode_obj stp z) vs))
      | JNull \<Rightarrow> (True, [])
      | _ \<Rightarrow> (False, []))"

definition zero_C2SAuth :: C2SAuth where
  "zero_C2SAuth = \<lparr>c2s_Key = [], c2s_Domain = [], c2s_Forward = []\<rparr>"

definition member_C2SAuth :: "C2SAuth member_step" where
  "member_C2SAuth m st =
     (let (k, v) = m in
      if key_is ''key'' k then set_str (\<lambda>s r. r\<lparr>c2s_Key := s\<rparr>) v st
      else if key_is ''domain'' k then set_str (\<lambda>s r. r\<lparr>c2s_Domain := s\<rparr>) v st
      else if key_is ''forwards'' k then
        (case decode_slice member_ForwardItem zero_ForwardItem v of
           (ok, fs) \<Rightarrow> (fst st \<and> ok, (snd st)\<lparr>c2s_Forward := fs\<rparr>))
      else st)"

definition marshal_C2SAuth :: "C2SAuth \<Rightarrow> byte list" where
  "marshal_C2SAuth a = bytes_of (json_print (json_of_C2SAuth a))"

definition unmarshal_C2SAuth :: "byte list \<Rightarrow> json_error + C2SAuth" where
  "unmarshal_C2SAuth = unmarshal member_C2SAuth zero_C2SAuth"

definition json_of_ProxyTuple :: "ProxyTuple \<Rightarrow> json" where
  "json_of_ProxyTuple t = JObj
     [(''Protocol'', JStr (pt_Protocol t)), (''FromPort'', JStr (pt_FromPort t)),
      (''ToPort'', JStr (pt_ToPort t))]"

definition json_of_S2CAuth :: "S2CAuth \<Rightarrow> json" where
  "json_of_S2CAuth a = JObj
     [(''domain'', JStr (s2c_Domain a)), (''vip'', JStr (s2c_Vip a)),
      (''proxyInfos'', JArr (map json_of_ProxyTuple (s2c_ProxyInfos a)))]"

definition zero_ProxyTuple :: ProxyTuple where
  "zero_ProxyTuple = \<lparr>pt_Protocol = [], pt_FromPort = [], pt_ToPort = []\<rparr>"

definition member_ProxyTuple :: "ProxyTuple member_step" where
  "member_ProxyTuple m st =
     (let (k, v) = m in
      if key_is ''Protocol'' k then set_str (\<lambda>s r. r\<lparr>pt_Protocol := s\<rparr>) v st
      else if key_is ''FromPort'' k then set_str (\<lambda>s r. r\<lparr>pt_FromPort := s\<rparr>) v st
      else if key_is ''ToPort'' k then set_str (\<lambda>s r. r\<lparr>pt_ToPort := s\<rparr>) v st
      else st)"

definition zero_S2CAuth :: S2CAuth where
  "zero_S2CAuth = \<lparr>s2c_Domain = [], s2c_Vip = [], s2c_ProxyInfos = []\<rparr>"

definition member_S2CAuth :: "S2CAuth member_step" where
  "member_S2CAuth m st =
     (let (k, v) = m in
      if key_is ''domain'' k then set_str (\<lambda>s r. r\<lparr>s2c_Domain := s\<rparr>) v st
      else if key_is ''vip'' k then set_str (\<lambda>s r. r\<lparr>s2c_Vip := s\<rparr>) v st
      else if key_is ''proxyInfos'' k then
        (case decode_slice member_ProxyTuple zero_ProxyTuple v of
           (ok, fs) \<Rightarrow> (fst st \<and> ok, (snd st)\<lparr>s2c_ProxyInfos := fs\<rparr>))
      else st)"

definition marshal_S2CAuth :: "S2CAuth \<Rightarrow> byte list" where
  "marshal_S2CAuth a = bytes_of (json_print (json_of_S2CAuth a))"

definition unmarshal_S2CAuth :: "byte list \<Rightarrow> json_error + S2CAuth" where
  "unmarshal_S2CAuth = unmarshal member_S2CAuth zero_S2CAuth"

section \<open>Frames\<close>

text \<open>\<open>Header [4]byte\<close>: version, command, two bytes of body length.\<close>

datatype Header = Header byte byte byte byte

fun Version :: "Header \<Rightarrow> int" where
  "Version (Header v c a b) = uint v"

fun Cmd :: "Header \<Rightarrow> int" where
  "Cmd (Header v c a b) = uint c"

fun Bodylen :: "Header \<Rightarrow> int" where
  "Bodylen (Header v c a b) = push_bit 8 (uint a) + uint b"

fun header_of :: "byte list \<Rightarrow> Header" where
  "header_of [v, c, a, b] = Header v c a b"
| "header_of _ = Header 0 0 0 0"

text \<open>\<open>Read\<close>: the header, then as many bytes as it announces.\<close>

definition proto_Read :: "reader \<Rightarrow> (io_error + Header \<times> byte list) \<times> reader" where
  "proto_Read conn =
     (case read_full 4 conn of
        (Inl err, conn1) \<Rightarrow> (Inl err, conn1)
      | (Inr hb, conn1) \<Rightarrow>
          (let h = header_of hb; bodylen = Bodylen h in
           if bodylen \<le> 0 then (Inr (h, []), conn1)
           else (case read_full (nat bodylen) conn1 of
                   (Inl err, conn2) \<Rightarrow> (Inl err, conn2)
                 | (Inr body, conn2) \<Rightarrow> (Inr (h, body), conn2))))"

text \<open>
  \<open>Write\<close>: the bytes of the one \<open>conn.Write\<close> call. The length is
  \<open>uint16(len(body))\<close>.
\<close>

definition proto_Write :: "int \<Rightarrow> byte list \<Rightarrow> byte list" where
  "proto_Write cmd body =
     (let bodylen = put_u16 (len_u16 body);
          hdr = [0x01, word_of_int cmd] @ bodylen
      in [] @ hdr @ body)"

datatype proto_error = IoFailed io_error | JsonFailed json_error

definition ReadJSON :: "(byte list \<Rightarrow> json_error + 'a) \<Rightarrow> reader \<Rightarrow> (proto_error + 'a) \<times> reader" where
  "ReadJSON dcd conn =
     (case proto_Read conn of
        (Inl err, conn1) \<Rightarrow> (Inl (IoFailed err), conn1)
      | (Inr (h, body), conn1) \<Rightarrow>
          (case dcd body of
             Inl err \<Rightarrow> (Inl (JsonFailed err), conn1)
           | Inr obj \<Rightarrow> (Inr obj, conn1)))"

definition WriteJSON :: "('a \<Rightarrow> byte list) \<Rightarrow> int \<Rightarrow> 'a \<Rightarrow> byte list" where
  "WriteJSON enc cmd obj = proto_Write cmd (enc obj)"

lemma Bodylen_header_of: "Bodylen (header_of [v, c, a, b]) = int (unat (get_u16 a b))"
  by (simp add: unat_get_u16 push_bit_eq_mult)

lemma proto_Write_bytes:
  "proto_Write cmd body =
     [1, word_of_int cmd, ucast (drop_bit 8 (len_u16 body)), ucast (len_u16 body)] @ body"
  by (simp add: proto_Write_def put_u16_def)

text \<open>
  What \<open>Read\<close> makes of a written frame, whatever the length of its body: it
  takes the body's length modulo \<open>2 ^ 16\<close>.
\<close>

lemma proto_Read_Write:
  assumes "pending conn = proto_Write cmd body @ rest"
  defines "k \<equiv> length body mod 65536"
  shows "\<exists>h conn'. proto_Read conn = (Inr (h, take k body), conn')
    \<and> Version h = 1 \<and> Cmd h = cmd mod 256 \<and> Bodylen h = int k
    \<and> pending conn' = drop k body @ rest \<and> snd conn' = snd conn"
proof -
  define n where "n = len_u16 body"
  define hb :: "byte list" where
    "hb = [1, word_of_int cmd, ucast (drop_bit 8 n), ucast n]"
  have p: "pending conn = hb @ body @ rest"
    using assms(1) by (simp add: proto_Write_bytes hb_def n_def)
  obtain conn1 where r1: "read_full 4 conn = (Inr (take 4 (pending conn)), conn1)"
      and p1: "pending conn1 = drop 4 (pending conn)" and e1: "snd conn1 = snd conn"
    by (rule read_full_enough [of 4 conn]) (simp_all add: p hb_def)
  have t4: "take 4 (pending conn) = hb" and d4: "pending conn1 = body @ rest"
    using p1 by (simp_all add: p hb_def)
  have k: "unat n = k"
    by (simp add: n_def k_def unat_len_u16)
  have bl: "Bodylen (header_of hb) = int k"
    using k unfolding hb_def Bodylen_header_of by (simp add: get_put_u16)
  have hd: "Version (header_of hb) = 1" "Cmd (header_of hb) = cmd mod 256"
    by (simp_all add: hb_def unsigned_of_int take_bit_eq_mod)
  have kb: "k \<le> length body" by (simp add: k_def)
  show ?thesis
  proof (cases "k = 0")
    case True
    with r1 t4 bl have "proto_Read conn = (Inr (header_of hb, []), conn1)"
      by (simp add: proto_Read_def)
    with True hd bl d4 e1 show ?thesis by auto
  next
    case False
    obtain conn2 where r2: "read_full k conn1 = (Inr (take k (pending conn1)), conn2)"
        and p2: "pending conn2 = drop k (pending conn1)" and e2: "snd conn2 = snd conn1"
      by (rule read_full_enough [of k conn1]) (use d4 kb in simp_all)
    from False r1 t4 bl r2 d4 kb
    have "proto_Read conn = (Inr (header_of hb, take k body), conn2)"
      by (simp add: proto_Read_def Let_def)
    with hd bl p2 d4 e1 e2 kb show ?thesis by auto
  qed
qed

text \<open>\<open>ReadJSON\<close> and \<open>WriteJSON\<close> over any codec.\<close>

context codec begin

lemma ReadJSON_WriteJSON:
  assumes "dom_ok x" and "length (enc x) \<le> 65535"
    and "pending conn = WriteJSON enc cmd x @ rest"
  shows "\<exists>conn'. ReadJSON dcd conn = (Inr (canon x), conn')
    \<and> pending conn' = rest \<and> snd conn' = snd conn"
proof -
  have k: "length (enc x) mod 65536 = length (enc x)"
    using assms(2) by simp
  obtain h conn' where "proto_Read conn = (Inr (h, enc x), conn')"
      and "pending conn' = rest" and "snd conn' = snd conn"
    using proto_Read_Write [of conn cmd "enc x" rest] assms(3)
    by (auto simp: WriteJSON_def k)
  then show ?thesis
    using dcd_enc [OF assms(1)] by (simp add: ReadJSON_def)
qed

lemma ReadJSON_no_body:
  assumes "proto_Read conn = (Inr (h, []), conn')"
  shows "\<exists>e. ReadJSON dcd conn = (Inl (JsonFailed e), conn')"
  using assms dcd_empty by (auto simp: ReadJSON_def)

end

section \<open>The codecs of the three messages\<close>

named_theorems decode_simps \<open>decoding a printed message\<close>

lemma decode_obj_JObj [decode_simps]: "decode_obj stp z (JObj ms) = fold stp ms (True, z)"
  by (simp add: decode_obj_def)

lemmas [decode_simps] = set_str_def key_is_def lower_def case_prod_beta Let_def

lemma decode_ProxyProtocol:
  "decode_obj member_ProxyProtocol zero_ProxyProtocol (json_of_ProxyProtocol p) = (True, p)"
  by (simp add: json_of_ProxyProtocol_def member_ProxyProtocol_def zero_ProxyProtocol_def decode_simps)

lemma decode_ProxyTuple:
  "decode_obj member_ProxyTuple zero_ProxyTuple (json_of_ProxyTuple t) = (True, t)"
  by (simp add: json_of_ProxyTuple_def member_ProxyTuple_def zero_ProxyTuple_def decode_simps)

lemma decode_slice_map:
  assumes "\<And>x. x \<in> set xs \<Longrightarrow> decode_obj stp z (f x) = (True, g x)"
  shows "decode_slice stp z (JArr (map f xs)) = (True, map g xs)"
  using assms by (simp add: decode_slice_def list_all_iff)

lemma decode_S2CAuth:
  "decode_obj member_S2CAuth zero_S2CAuth (json_of_S2CAuth a) = (True, a)"
  using decode_slice_map [of "s2c_ProxyInfos a" member_ProxyTuple zero_ProxyTuple json_of_ProxyTuple id]
  by (simp add: json_of_S2CAuth_def member_S2CAuth_def zero_S2CAuth_def decode_simps decode_ProxyTuple)

definition sort_ports :: "(int \<times> string) list \<Rightarrow> (int \<times> string) list" where
  "sort_ports ps = sort_key (\<lambda>p. dec_int (fst p)) ps"

definition canon_C2SAuth :: "C2SAuth \<Rightarrow> C2SAuth" where
  "canon_C2SAuth a =
     a\<lparr>c2s_Forward := map (\<lambda>f. f\<lparr>fw_Ports := sort_ports (fw_Ports f)\<rparr>) (c2s_Forward a)\<rparr>"

definition ok_ports :: "(int \<times> string) list \<Rightarrow> bool" where
  "ok_ports ps \<longleftrightarrow> distinct (map fst ps)
     \<and> (\<forall>(p, l)\<in>set ps. - (2 ^ 63) \<le> p \<and> p < 2 ^ 63 \<and> ascii l)"

definition ok_ForwardItem :: "ForwardItem \<Rightarrow> bool" where
  "ok_ForwardItem f \<longleftrightarrow> ascii (fw_Protocol f) \<and> ascii (fw_LocalIP f) \<and> ascii (fw_RawConfig f)
     \<and> ok_ports (fw_Ports f)"

definition ok_C2SAuth :: "C2SAuth \<Rightarrow> bool" where
  "ok_C2SAuth a \<longleftrightarrow> ascii (c2s_Key a) \<and> ascii (c2s_Domain a)
     \<and> (\<forall>f\<in>set (c2s_Forward a). ok_ForwardItem f)"

definition ok_S2CAuth :: "S2CAuth \<Rightarrow> bool" where
  "ok_S2CAuth a \<longleftrightarrow> ascii (s2c_Domain a) \<and> ascii (s2c_Vip a)
     \<and> (\<forall>t\<in>set (s2c_ProxyInfos a). ascii (pt_Protocol t) \<and> ascii (pt_FromPort t) \<and> ascii (pt_ToPort t))"

lemma insort_key_map: "insort_key f (g x) (map g xs) = map g (insort_key (\<lambda>x. f (g x)) x xs)"
  by (induction xs) auto

lemma sort_key_map: "sort_key f (map g xs) = map g (sort_key (\<lambda>x. f (g x)) xs)"
  by (induction xs) (simp_all add: insort_key_map)

lemma json_of_ports_sort:
  "json_of_ports ps = JObj (map (\<lambda>(p, l). (dec_int p, JStr l)) (sort_ports ps))"
  by (simp add: json_of_ports_def sort_ports_def sort_key_map case_prod_beta)

lemma ok_sort_ports [simp]: "ok_ports (sort_ports ps) = ok_ports ps"
  by (simp add: ok_ports_def sort_ports_def distinct_map)

lemma fold_member_ports:
  assumes "ok_ports ps" and "fst ` set acc \<inter> fst ` set ps = {}"
  shows "fold member_ports (map (\<lambda>(p, l). (dec_int p, JStr l)) ps) (True, acc) = (True, acc @ ps)"
  using assms
proof (induction ps arbitrary: acc)
  case (Cons q ps)
  obtain p l where q: "q = (p, l)" by fastforce
  from Cons.prems q have "parse_int (dec_int p) = Some p"
    by (intro parse_int_dec_int) (auto simp: ok_ports_def)
  moreover from Cons.prems q have "map_put p l acc = acc @ [(p, l)]"
    by (auto simp: map_put_def)
  ultimately have "member_ports (dec_int p, JStr l) (True, acc) = (True, acc @ [q])"
    by (simp add: member_ports_def q)
  moreover have "fold member_ports (map (\<lambda>(p, l). (dec_int p, JStr l)) ps) (True, acc @ [q])
      = (True, (acc @ [q]) @ ps)"
    using Cons.prems q by (intro Cons.IH) (auto simp: ok_ports_def)
  ultimately show ?case by (simp add: q)
qed simp

lemma decode_ports:
  "ok_ports ps \<Longrightarrow> decode_obj member_ports [] (json_of_ports ps) = (True, sort_ports ps)"
  using fold_member_ports [of "sort_ports ps" "[]"]
  by (simp add: json_of_ports_sort decode_obj_def)

lemma json_of_ports_not_null [simp]: "json_of_ports ps \<noteq> JNull"
  by (simp add: json_of_ports_def)

lemma decode_ForwardItem:
  "ok_ForwardItem f \<Longrightarrow>
   decode_obj member_ForwardItem zero_ForwardItem (json_of_ForwardItem f)
     = (True, f\<lparr>fw_Ports := sort_ports (fw_Ports f)\<rparr>)"
  using decode_ports [of "fw_Ports f"]
  by (simp add: ok_ForwardItem_def json_of_ForwardItem_def member_ForwardItem_def
      zero_ForwardItem_def decode_simps)

lemma decode_C2SAuth:
  "ok_C2SAuth a \<Longrightarrow>
   decode_obj member_C2SAuth zero_C2SAuth (json_of_C2SAuth a) = (True, canon_C2SAuth a)"
  using decode_slice_map [of "c2s_Forward a" member_ForwardItem zero_ForwardItem json_of_ForwardItem
      "\<lambda>f. f\<lparr>fw_Ports := sort_ports (fw_Ports f)\<rparr>"]
  by (simp add: ok_C2SAuth_def canon_C2SAuth_def json_of_C2SAuth_def member_C2SAuth_def
      zero_C2SAuth_def decode_simps decode_ForwardItem)

lemma num_free_ports [simp]: "num_free (json_of_ports ps)"
  by (auto simp: json_of_ports_def)

lemma num_free_messages [simp]:
  "num_free (json_of_ProxyProtocol p)" "num_free (json_of_C2SAuth a)" "num_free (json_of_S2CAuth b)"
  by (simp_all add: json_of_ProxyProtocol_def json_of_C2SAuth_def json_of_S2CAuth_def
      json_of_ForwardItem_def json_of_ProxyTuple_def)

interpretation proxy_codec: codec marshal_ProxyProtocol unmarshal_ProxyProtocol id ok_ProxyProtocol
  by unfold_locales
    (simp_all add: marshal_ProxyProtocol_def unmarshal_ProxyProtocol_def unmarshal_print
      decode_ProxyProtocol unmarshal_Nil)

interpretation auth_codec: codec marshal_C2SAuth unmarshal_C2SAuth canon_C2SAuth ok_C2SAuth
  by unfold_locales
    (simp_all add: marshal_C2SAuth_def unmarshal_C2SAuth_def unmarshal_print
      decode_C2SAuth unmarshal_Nil)

interpretation reply_codec: codec marshal_S2CAuth unmarshal_S2CAuth id ok_S2CAuth
  by unfold_locales
    (simp_all add: marshal_S2CAuth_def unmarshal_S2CAuth_def unmarshal_print
      decode_S2CAuth unmarshal_Nil)

section \<open>Properties\<close>

text \<open>
  C12. A frame that \<open>Write\<close> put on the connection is what \<open>Read\<close> takes off
  it, in whatever chunks it arrives: the header carries version 1 and the
  command's low byte, the body is the body written, and the bytes after the frame
  stay for the next \<open>Read\<close>. The body must fit the 16-bit length.
\<close>

theorem frame_roundtrip:
  assumes "length body \<le> 65535" and "pending conn = proto_Write cmd body @ rest"
  shows "\<exists>h conn'. proto_Read conn = (Inr (h, body), conn')
    \<and> Version h = 1 \<and> Cmd h = cmd mod 256 \<and> Bodylen h = int (length body)
    \<and> pending conn' = rest \<and> snd conn' = snd conn"
proof -
  have "length body mod 65536 = length body" using assms(1) by simp
  then show ?thesis using proto_Read_Write [OF assms(2)] by simp
qed

theorem frame_roundtrip_witness:
  "\<exists>h conn'. proto_Read ([[1, 2, 0], [2, 7], [8, 9]], EOF) = (Inr (h, [7, 8]), conn')
    \<and> Version h = 1 \<and> Cmd h = 2 mod 256 \<and> Bodylen h = int (length [7, 8 :: byte])
    \<and> pending conn' = [9] \<and> snd conn' = EOF"
  using frame_roundtrip [of "[7, 8]" "([[1, 2, 0], [2, 7], [8, 9]], EOF)" 2 "[9]"]
  by (simp add: pending_def proto_Write_def put_u16_def len_u16_def)

text \<open>
  C14. \<open>Write\<close> does not check that the body fits: of a longer body the peer
  gets the bytes up to the length modulo \<open>2 ^ 16\<close>, with no error on either
  side, and the bytes left over are what its next \<open>Read\<close> takes for a header.
\<close>

theorem long_frame_desyncs:
  assumes "65536 \<le> length body" and "pending conn = proto_Write cmd body @ rest"
  shows "\<exists>h conn' k. proto_Read conn = (Inr (h, take k body), conn')
    \<and> k = length body mod 65536 \<and> k < length body
    \<and> pending conn' = drop k body @ rest \<and> pending conn' \<noteq> rest"
proof -
  define k where "k = length body mod 65536"
  have "k < 65536" by (simp add: k_def)
  with assms(1) have k: "k < length body" by simp
  then have "drop k body @ rest \<noteq> rest" by simp
  with k proto_Read_Write [OF assms(2)] show ?thesis
    unfolding k_def by metis
qed

theorem long_frame_desyncs_witness:
  "\<exists>h conn' k. proto_Read ([proto_Write 0 (replicate 65536 (1 :: byte))], EOF)
      = (Inr (h, take k (replicate 65536 1)), conn')
    \<and> k = length (replicate 65536 (1 :: byte)) mod 65536 \<and> k < length (replicate 65536 (1 :: byte))
    \<and> pending conn' = drop k (replicate 65536 1) @ [] \<and> pending conn' \<noteq> []"
  by (rule long_frame_desyncs) (simp_all add: pending_def)

text \<open>
  A connection that ends inside a frame is an error and never a message:
  \<open>io.EOF\<close> when it ends before the header or right after it,
  \<open>io.ErrUnexpectedEOF\<close> anywhere else.
\<close>

theorem truncated_frame:
  assumes "length body \<le> 65535" and "k < length (proto_Write cmd body)"
    and "pending conn = take k (proto_Write cmd body)" and "snd conn = EOF"
  shows "fst (proto_Read conn) = Inl (if k = 0 \<or> k = 4 then EOF else UnexpectedEOF)"
proof (cases "k < 4")
  case True
  with assms have len: "length (pending conn) = k" by simp
  then have "pending conn = [] \<longleftrightarrow> k = 0" by auto
  with True len assms(4) have "fst (read_full 4 conn) = Inl (if k = 0 then EOF else UnexpectedEOF)"
    by (simp add: read_full_short)
  with True show ?thesis
    by (cases "read_full 4 conn") (auto simp: proto_Read_def)
next
  case False
  define hb :: "byte list" where
    "hb = [1, word_of_int cmd, ucast (drop_bit 8 (len_u16 body)), ucast (len_u16 body)]"
  from False assms(3) have p: "pending conn = hb @ take (k - 4) body"
    by (simp add: proto_Write_bytes hb_def take_Cons' numeral_eq_Suc)
  obtain conn1 where r1: "read_full 4 conn = (Inr hb, conn1)"
      and p1: "pending conn1 = take (k - 4) body" and e1: "snd conn1 = EOF"
    using read_full_enough [of 4 conn] assms(4) p by (auto simp: hb_def)
  have bl: "Bodylen (header_of hb) = int (length body)"
    using assms(1) unfolding hb_def Bodylen_header_of by (simp add: get_put_u16)
  have pos: "length (pending conn1) < length body"
    using assms(2) False p1 by (simp add: proto_Write_bytes)
  then have "fst (read_full (length body) conn1) = Inl (if k = 4 then EOF else UnexpectedEOF)"
    using p1 e1 False by (simp add: read_full_short) (auto simp: take_eq_Nil)
  with r1 bl pos False show ?thesis
    by (cases "read_full (length body) conn1") (auto simp: proto_Read_def Let_def)
qed

theorem truncated_frame_witness:
  "fst (proto_Read ([[1, 0, 0], [2, 7]], EOF)) = Inl (if (5::nat) = 0 \<or> (5::nat) = 4 then EOF else UnexpectedEOF)"
  by (rule truncated_frame [where body = "[7, 8]" and cmd = 0])
    (simp_all add: pending_def proto_Write_def put_u16_def len_u16_def)

text \<open>
  C13. The client's authentication message arrives at the server as it was
  sent: the key, the domain, and every forward with its protocol, its raw
  configuration and, as a map, its ports. (The server ranges over the ports in the
  order that the decoded map happens to have.)
\<close>

theorem auth_message_roundtrip:
  assumes "ok_C2SAuth a" and "length (marshal_C2SAuth a) \<le> 65535"
    and "pending conn = WriteJSON marshal_C2SAuth CmdAuth a @ rest"
  shows "\<exists>b conn'. ReadJSON unmarshal_C2SAuth conn = (Inr b, conn') \<and> pending conn' = rest
    \<and> c2s_Key b = c2s_Key a \<and> c2s_Domain b = c2s_Domain a
    \<and> list_all2 (\<lambda>f g. fw_Protocol g = fw_Protocol f \<and> fw_RawConfig g = fw_RawConfig f
        \<and> map_of (fw_Ports g) = map_of (fw_Ports f)) (c2s_Forward a) (c2s_Forward b)"
proof -
  have "map_of (sort_ports (fw_Ports f)) = map_of (fw_Ports f)" if "f \<in> set (c2s_Forward a)" for f
  proof -
    have d: "distinct (map fst (fw_Ports f))"
      using that assms(1) by (auto simp: ok_C2SAuth_def ok_ForwardItem_def ok_ports_def)
    then have "distinct (map fst (sort_ports (fw_Ports f)))"
      by (simp add: sort_ports_def distinct_map)
    with d show ?thesis
      by (intro map_of_inject_set [THEN iffD2]) (simp_all add: sort_ports_def)
  qed
  then show ?thesis
    using auth_codec.ReadJSON_WriteJSON [OF assms]
    by (auto simp: canon_C2SAuth_def list_all2_conv_all_nth)
qed

definition sample_auth :: C2SAuth where
  "sample_auth = \<lparr>c2s_Key = ''k'', c2s_Domain = [],
     c2s_Forward = [\<lparr>fw_Protocol = ''tcp'', fw_Ports = [(22, ''2222'')], fw_LocalIP = [], fw_RawConfig = []\<rparr>]\<rparr>"

lemma length_escape: "length (concat (map escape_char s)) \<le> 6 * length s"
  by (induction s) (auto simp: escape_char_def)

lemma length_json_quote: "length (json_quote s) \<le> 6 * length s + 2"
  using length_escape [of s] by (simp add: json_quote_def)

lemma sample_auth_ok: "ok_C2SAuth sample_auth" "length (marshal_C2SAuth sample_auth) \<le> 65535"
proof -
  show "ok_C2SAuth sample_auth"
    by (simp add: sample_auth_def ok_C2SAuth_def ok_ForwardItem_def ok_ports_def ascii_def)
  have dec22: "length (dec 22) = 2"
    by (simp add: dec.simps)
  show "length (marshal_C2SAuth sample_auth) \<le> 65535"
    using length_json_quote [of "''2222''"] length_json_quote [of "dec 22"] length_json_quote [of "''tcp''"]
      length_json_quote [of "''k''"] length_json_quote [of "''key''"] length_json_quote [of "''domain''"]
      length_json_quote [of "''forwards''"] length_json_quote [of "''protocol''"] length_json_quote [of "''ports''"]
      length_json_quote [of "''localIP''"] length_json_quote [of "''rawConfig''"] length_json_quote [of "[]"]
    by (simp add: sample_auth_def marshal_C2SAuth_def json_of_C2SAuth_def json_of_ForwardItem_def
        json_of_ports_def dec_int_def dec22)
qed

theorem auth_message_roundtrip_witness:
  "\<exists>b conn'. ReadJSON unmarshal_C2SAuth ([WriteJSON marshal_C2SAuth CmdAuth sample_auth], EOF) = (Inr b, conn')
    \<and> pending conn' = [] \<and> c2s_Key b = c2s_Key sample_auth \<and> c2s_Domain b = c2s_Domain sample_auth
    \<and> list_all2 (\<lambda>f g. fw_Protocol g = fw_Protocol f \<and> fw_RawConfig g = fw_RawConfig f
        \<and> map_of (fw_Ports g) = map_of (fw_Ports f)) (c2s_Forward sample_auth) (c2s_Forward b)"
  by (rule auth_message_roundtrip) (simp_all add: sample_auth_ok pending_def)

end
