(* ===== verification/Plugin.thy ===== *)
theory Plugin
  imports Hostport Proto
begin

text \<open>
  The plugin manager (\<open>opennotrd/plugin/plugin.go\<close>): the data that a proxy is
  made from, the interface that a plugin implements, the tables of plugins and of
  routes, and the operations that register and set up plugins and add and delete
  routes. What plugins act on (sockets, HTTP requests, their configuration) is a
  state \<open>'w\<close> that every operation of a plugin may change.
\<close>

section \<open>Data\<close>

record PluginMeta =
  pm_Protocol :: string
  pm_From :: string
  pm_To :: string
  pm_Domain :: string
  pm_Ctx :: string
  pm_RecycleSignal :: nat

text \<open>\<open>pm_RecycleSignal\<close> is the identity of the channel.\<close>

definition identify :: "PluginMeta \<Rightarrow> string" where
  "identify item = pm_Protocol item @ '':'' @ pm_From item @ '':'' @ pm_Domain item"

datatype plugin_error =
    InUse string
  | NotRegistered string
  | BadAddress addr_error
  | ResolveFail
  | ListenFail
  | BadConfig json_error

type_synonym run_result = "plugin_error + ProxyTuple"

record 'w IPlugin =
  plug_Setup :: "string \<Rightarrow> 'w \<Rightarrow> plugin_error option \<times> 'w"
  plug_StopProxy :: "PluginMeta \<Rightarrow> 'w \<Rightarrow> 'w"
  plug_RunProxy :: "PluginMeta \<Rightarrow> 'w \<Rightarrow> run_result \<times> 'w"

record 'w PluginManager =
  mg_routes :: "string \<rightharpoonup> PluginMeta"
  mg_plugins :: "string \<rightharpoonup> 'w IPlugin"

definition pluginMgr :: "'w PluginManager" where
  "pluginMgr = \<lparr>mg_routes = Map.empty, mg_plugins = Map.empty\<rparr>"

section \<open>Operations\<close>

definition Register :: "string \<Rightarrow> 'w IPlugin \<Rightarrow> 'w PluginManager \<Rightarrow> 'w PluginManager" where
  "Register protocol p m = m\<lparr>mg_plugins := (mg_plugins m)(protocol \<mapsto> p)\<rparr>"

text \<open>\<open>Setup\<close> takes the entries of its map in the order of one iteration.\<close>

fun Setup :: "(string \<times> string) list \<Rightarrow> 'w PluginManager \<Rightarrow> 'w \<Rightarrow> plugin_error option \<times> 'w" where
  "Setup [] m w = (None, w)"
| "Setup ((protocol, cfg) # rest) m w =
     (case mg_plugins m protocol of
        None \<Rightarrow> (Some (NotRegistered protocol), w)
      | Some plug \<Rightarrow>
          (case plug_Setup plug cfg w of
             (Some err, w') \<Rightarrow> (Some err, w')
           | (None, w') \<Rightarrow> Setup rest m w'))"

definition AddProxy ::
  "PluginMeta \<Rightarrow> 'w PluginManager \<Rightarrow> 'w \<Rightarrow> run_result \<times> 'w PluginManager \<times> 'w" where
  "AddProxy item m w =
     (let key = identify item in
      if mg_routes m key \<noteq> None then (Inl (InUse key), m, w)
      else case mg_plugins m (pm_Protocol item) of
             None \<Rightarrow> (Inl (NotRegistered (pm_Protocol item)), m, w)
           | Some plug \<Rightarrow>
               (case plug_RunProxy plug item w of
                  (Inl err, w') \<Rightarrow> (Inl err, m, w')
                | (Inr tuple, w') \<Rightarrow>
                    (Inr tuple, m\<lparr>mg_routes := (mg_routes m)(key \<mapsto> item)\<rparr>, w')))"

definition DelProxy :: "PluginMeta \<Rightarrow> 'w PluginManager \<Rightarrow> 'w \<Rightarrow> 'w PluginManager \<times> 'w" where
  "DelProxy item m w =
     (let key = identify item;
          w' = (case mg_plugins m (pm_Protocol item) of
                  Some plug \<Rightarrow> plug_StopProxy plug item w
                | None \<Rightarrow> w)
      in (m\<lparr>mg_routes := (mg_routes m)(key := None)\<rparr>, w'))"

section \<open>Keys of routes\<close>

text \<open>
  A route's key determines protocol, address and domain when the protocol has no
  colon and the address is of the form host:port.
\<close>

lemma identify_inj:
  assumes "identify a = identify b"
    and "CHR '':'' \<notin> set (pm_Protocol a)" and "CHR '':'' \<notin> set (pm_Protocol b)"
    and "pm_From a = ha @ CHR '':'' # pa" and "CHR '':'' \<notin> set ha" and "CHR '':'' \<notin> set pa"
    and "pm_From b = hb @ CHR '':'' # pb" and "CHR '':'' \<notin> set hb" and "CHR '':'' \<notin> set pb"
  shows "pm_Protocol a = pm_Protocol b \<and> pm_From a = pm_From b \<and> pm_Domain a = pm_Domain b"
proof -
  have "cut CHR '':'' (identify a) = cut CHR '':'' (identify b)" using assms(1) by simp
  then have "pm_Protocol a = pm_Protocol b"
      "ha @ CHR '':'' # pa @ CHR '':'' # pm_Domain a = hb @ CHR '':'' # pb @ CHR '':'' # pm_Domain b"
    using assms by (simp_all add: identify_def)
  moreover from this(2) have "cut CHR '':'' (ha @ CHR '':'' # pa @ CHR '':'' # pm_Domain a)
      = cut CHR '':'' (hb @ CHR '':'' # pb @ CHR '':'' # pm_Domain b)" by simp
  then have "ha = hb" "pa @ CHR '':'' # pm_Domain a = pb @ CHR '':'' # pm_Domain b"
    using assms by simp_all
  moreover from this(2) have "cut CHR '':'' (pa @ CHR '':'' # pm_Domain a)
      = cut CHR '':'' (pb @ CHR '':'' # pm_Domain b)" by simp
  then have "pa = pb" "pm_Domain a = pm_Domain b" using assms by simp_all
  ultimately show ?thesis using assms by simp
qed

section \<open>Effects\<close>

lemma AddProxy_ok:
  assumes "AddProxy item m w = (Inr t, m', w')"
  shows "mg_routes m (identify item) = None
    \<and> mg_routes m' = (mg_routes m)(identify item \<mapsto> item) \<and> mg_plugins m' = mg_plugins m
    \<and> (\<exists>plug. mg_plugins m (pm_Protocol item) = Some plug \<and> plug_RunProxy plug item w = (Inr t, w'))"
  using assms by (auto simp: AddProxy_def Let_def split: if_splits option.splits prod.splits sum.splits)

lemma AddProxy_fail: "AddProxy item m w = (Inl e, m', w') \<Longrightarrow> m' = m"
  by (auto simp: AddProxy_def Let_def split: if_splits option.splits prod.splits sum.splits)

lemma DelProxy_routes [simp]:
  "mg_routes (fst (DelProxy item m w)) = (mg_routes m)(identify item := None)"
  "mg_plugins (fst (DelProxy item m w)) = mg_plugins m"
  by (simp_all add: DelProxy_def Let_def)

end
