(* ===== verification/Recycle.thy ===== *)
theory Recycle
  imports Plugin
begin

text \<open>
  How a proxy is told to stop. Each proxy has a goroutine that waits on the
  unbuffered channel of its \<open>PluginMeta\<close>, and \<open>StopProxy\<close> sends on that channel
  in a \<open>select\<close> with a \<open>default\<close>: the signal is taken by a goroutine that waits at
  that moment, or it is lost.
\<close>

text \<open>
  The waiting goroutine: started but not yet at its \<open>select\<close>; at the \<open>select\<close>;
  with the signal in hand, before it closes the listener; ended.
\<close>

datatype watcher = Starting | Waiting | Received | Finished

text \<open>A send without blocking, to the first receiver that is ready.\<close>

fun offer :: "('p \<Rightarrow> bool) \<Rightarrow> ('p \<Rightarrow> 'p) \<Rightarrow> 'p list \<Rightarrow> 'p list" where
  "offer rdy recv [] = []"
| "offer rdy recv (p # ps) = (if rdy p then recv p # ps else p # offer rdy recv ps)"

lemma offer_none: "\<forall>p\<in>set ps. \<not> rdy p \<Longrightarrow> offer rdy recv ps = ps"
  by (induction ps) auto

lemma offer_length [simp]: "length (offer rdy recv ps) = length ps"
  by (induction ps) auto

lemma offer_map: "(\<And>p. rdy p \<Longrightarrow> f (recv p) = f p) \<Longrightarrow> map f (offer rdy recv ps) = map f ps"
  by (induction ps) auto

lemma offer_all: "(\<And>p. P p \<Longrightarrow> rdy p \<Longrightarrow> P (recv p)) \<Longrightarrow> \<forall>p\<in>set ps. P p \<Longrightarrow> \<forall>p\<in>set (offer rdy recv ps). P p"
  by (induction ps) auto

lemma offer_first:
  "\<forall>p\<in>set ps. \<not> rdy p \<Longrightarrow> rdy p \<Longrightarrow> offer rdy recv (ps @ p # qs) = ps @ recv p # qs"
  by (induction ps) auto

end
