(* ===== verification/Net_Codec.thy ===== *)
theory Net_Codec
  imports Proto
begin

unbundle bit_operations_syntax

text \<open>
  Raw UDP packets and stream frames (\<open>opennotrd/core/net.go\<close>): the Internet
  checksum, the IPv4 and UDP headers that \<open>sendUDPViaRaw\<close> builds byte by byte
  in a buffer, and the 2-byte length prefix of the frames on a stream. A slice or
  index expression outside the buffer panics; the buffer operations return
  \<open>None\<close> there, so that a panic is a value.
\<close>

section \<open>The checksum\<close>

fun checksumAdd :: "byte list \<Rightarrow> u32 \<Rightarrow> u32" where
  "checksumAdd [] acc = acc"
| "checksumAdd [a] acc = acc + push_bit 8 (ucast a)"
| "checksumAdd (a # b # buf) acc =
     checksumAdd buf (acc + (push_bit 8 (ucast a) OR ucast b))"

text \<open>The loop of \<open>checksumWrapper\<close>: add the high half to the low half.\<close>

lemma fold_step_unat:
  "unat (drop_bit 16 s + (s AND 0xFFFF) :: u32) = unat s div 65536 + unat s mod 65536"
proof -
  have s: "unat s < 2 ^ 32" using unsigned_less [of s, where 'a = nat] by simp
  have m: "s AND 0xFFFF = take_bit 16 s"
    by (simp add: take_bit_eq_mask mask_eq_exp_minus_1)
  have d: "unat (drop_bit 16 s) = unat s div 65536"
    by (simp add: drop_bit_eq_div unat_div)
  have t: "unat (take_bit 16 s) = unat s mod 65536"
    by (simp add: take_bit_eq_mod unat_mod)
  have "unat s div 65536 < 65536" using s by (simp add: div_less_iff_less_mult)
  moreover have "unat s mod 65536 < 65536" by simp
  ultimately have "unat s div 65536 + unat s mod 65536 < 4294967296" by linarith
  then show ?thesis
    by (simp add: m unat_word_ariths d t)
qed

function fold16 :: "u32 \<Rightarrow> u32" where
  "fold16 acc = (if acc > 0xFFFF then fold16 (drop_bit 16 acc + (acc AND 0xFFFF)) else acc)"
  by pat_completeness auto
termination
proof (relation "measure unat")
  fix acc :: u32
  assume "acc > 0xFFFF"
  then have gt: "65535 < unat acc" by (simp add: word_less_nat_alt)
  have "unat acc = 65536 * (unat acc div 65536) + unat acc mod 65536" by simp
  with gt have "unat acc div 65536 + unat acc mod 65536 < unat acc" by linarith
  then show "(drop_bit 16 acc + (acc AND 0xFFFF), acc) \<in> measure unat"
    by (simp add: fold_step_unat)
qed simp

declare fold16.simps [simp del]

definition checksumWrapper :: "u32 \<Rightarrow> u16" where
  "checksumWrapper seed =
     (let csum = NOT (ucast (fold16 seed) :: u16)
      in if csum = 0 then 0xFFFF else csum)"

definition CheckSum :: "byte list \<Rightarrow> u16" where
  "CheckSum buf = checksumWrapper (checksumAdd buf 0)"

section \<open>What the checksum computes\<close>

text \<open>The sum of the 16-bit big-endian words of a buffer, the last one padded.\<close>

fun wsum :: "byte list \<Rightarrow> nat" where
  "wsum [] = 0"
| "wsum [a] = 256 * unat a"
| "wsum (a # b # buf) = 256 * unat a + unat b + wsum buf"

lemma unat_byte: "unat (a :: byte) < 256"
  using unsigned_less [of a, where 'a = nat] by simp

lemma word16_in_32: "unat (push_bit 8 (ucast a) OR ucast b :: u32) = 256 * unat a + unat (b :: byte)"
  for a :: byte
proof -
  have disj: "push_bit 8 (ucast a :: u32) AND ucast b = 0"
    by (rule bit_word_eqI) (auto simp: bit_simps dest: bit_byte_high)
  have "push_bit 8 (ucast a) OR ucast b = push_bit 8 (ucast a :: u32) + ucast b"
    using disj by (simp add: disjunctive_add_eq_or)
  also have "\<dots> = word_of_nat (256 * unat a + unat b)"
    by (simp add: push_bit_eq_mult unsigned_ucast_eq word_of_nat_eq_iff)
  finally have "unat (push_bit 8 (ucast a) OR ucast b :: u32)
      = unat (word_of_nat (256 * unat a + unat b) :: u32)"
    by (simp only:)
  also have "\<dots> = (256 * unat a + unat b) mod 2 ^ 32"
    by (simp only: unsigned_of_nat take_bit_eq_mod) simp
  finally show ?thesis using unat_byte [of a] unat_byte [of b] by simp
qed

lemma unat_high_byte_32: "unat (push_bit 8 (ucast a) :: u32) = 256 * unat (a :: byte)"
  using word16_in_32 [of a 0] by simp

lemma unat_checksumAdd:
  "unat (checksumAdd buf s) = (wsum buf + unat s) mod 2 ^ 32"
proof (induction buf s rule: checksumAdd.induct)
  case (1 s)
  then show ?case using unsigned_less [of s, where 'a = nat] by simp
next
  case (2 a s)
  have "unat (s + push_bit 8 (ucast a)) = (unat s + 256 * unat a) mod 2 ^ 32"
    by (simp only: unat_word_ariths unat_high_byte_32) simp
  then show ?case by (simp only: checksumAdd.simps wsum.simps add.commute)
next
  case (3 a b buf s)
  let ?v = "256 * unat a + unat b"
  have "unat (s + (push_bit 8 (ucast a) OR ucast b)) = (unat s + ?v) mod 2 ^ 32"
    by (simp only: unat_word_ariths word16_in_32) simp
  with 3 have "unat (checksumAdd (a # b # buf) s) = (wsum buf + (unat s + ?v) mod 2 ^ 32) mod 2 ^ 32"
    by simp
  also have "\<dots> = (wsum buf + (unat s + ?v)) mod 2 ^ 32"
    by (rule mod_add_right_eq)
  also have "wsum buf + (unat s + ?v) = wsum (a # b # buf) + unat s" by simp
  finally show ?case .
qed

lemma wsum_bound: "wsum buf \<le> 65535 * ((length buf + 1) div 2)"
proof (induction buf rule: wsum.induct)
  case (2 a)
  then show ?case using unat_byte [of a] by simp
next
  case (3 a b buf)
  then show ?case using unat_byte [of a] unat_byte [of b] by simp
qed simp

lemma wsum_append: "even (length xs) \<Longrightarrow> wsum (xs @ ys) = wsum xs + wsum ys"
  by (induction xs rule: wsum.induct) auto

lemma fold16_le: "unat (fold16 s) \<le> 65535"
proof (induction s rule: fold16.induct)
  case (1 s)
  then show ?case
    by (subst fold16.simps) (auto simp: word_le_nat_alt not_less)
qed

lemma fold16_mod: "unat (fold16 s) mod 65535 = unat s mod 65535"
proof (induction s rule: fold16.induct)
  case (1 s)
  show ?case
  proof (cases "s > 0xFFFF")
    case True
    define q r where "q = unat s div 65536" and "r = unat s mod 65536"
    have "unat s = (q + r) + q * 65535" by (simp add: q_def r_def)
    then have "unat s mod 65535 = (q + r) mod 65535"
      by (simp only: mod_mult_self1)
    then have "(unat s div 65536 + unat s mod 65536) mod 65535 = unat s mod 65535"
      by (simp only: q_def r_def)
    then show ?thesis
      using True 1 by (subst fold16.simps) (simp add: fold_step_unat)
  qed (subst fold16.simps, simp)
qed

lemma fold16_zero: "unat (fold16 s) = 0 \<longleftrightarrow> unat s = 0"
proof (induction s rule: fold16.induct)
  case (1 s)
  show ?case
  proof (cases "s > 0xFFFF")
    case True
    then have "65535 < unat s" by (simp add: word_less_nat_alt)
    then have "unat s div 65536 + unat s mod 65536 \<noteq> 0" "unat s \<noteq> 0"
      by (auto simp: div_eq_0_iff)
    then show ?thesis
      using True 1 by (subst fold16.simps) (simp only: fold_step_unat if_True)
  qed (subst fold16.simps, simp)
qed

lemma ucast_fold16: "unat (ucast (fold16 s) :: u16) = unat (fold16 s)"
  using fold16_le [of s] by (simp add: unsigned_ucast_eq take_bit_nat_eq_self)

lemma unat_not16: "unat (NOT (w :: u16)) = 65535 - unat w"
proof -
  have "NOT w = 65535 - w" by (simp add: not_eq_complement)
  moreover have "w \<le> 65535"
    using unsigned_less [of w, where 'a = nat] by (simp add: word_le_nat_alt)
  ultimately show ?thesis by (simp add: unat_sub)
qed

lemma unat_checksumWrapper:
  "unat (checksumWrapper s) = (if unat (fold16 s) = 65535 then 65535 else 65535 - unat (fold16 s))"
proof -
  have u: "unat (NOT (ucast (fold16 s) :: u16)) = 65535 - unat (fold16 s)"
    by (simp add: unat_not16 ucast_fold16)
  then have "NOT (ucast (fold16 s) :: u16) = 0 \<longleftrightarrow> unat (fold16 s) = 65535"
    using fold16_le [of s] by (auto simp: unat_eq_0 simp flip: unat_eq_0)
  with u show ?thesis by (simp add: checksumWrapper_def Let_def)
qed

text \<open>
  The receiver adds the checksum to the words it covers, in which the checksum
  field was zero, and finds all ones.
\<close>

lemma checksum_accepted:
  assumes "wsum buf + unat seed + 65535 < 2 ^ 32"
    and "unat s = wsum buf + unat seed + unat (checksumWrapper (checksumAdd buf seed))"
  shows "fold16 s = 0xFFFF"
proof -
  define t where "t = wsum buf + unat seed"
  define f where "f = fold16 (checksumAdd buf seed)"
  have t: "unat (checksumAdd buf seed) = t"
    using assms(1) by (simp add: unat_checksumAdd t_def)
  have f: "unat f mod 65535 = t mod 65535" "unat f \<le> 65535"
    using fold16_mod [of "checksumAdd buf seed"] fold16_le [of "checksumAdd buf seed"]
    by (simp_all add: f_def t)
  obtain q where q: "t + 65535 = unat f + 65535 * q"
  proof -
    have "unat f mod 65535 = (t + 65535) mod 65535" using f(1) by simp
    moreover have "unat f \<le> t + 65535" using f(2) by simp
    ultimately show thesis
      using that by (metis add.commute mod_eq_nat1E)
  qed
  have ck: "unat (checksumWrapper (checksumAdd buf seed)) = (if unat f = 65535 then 65535 else 65535 - unat f)"
    by (simp add: unat_checksumWrapper f_def)
  have "\<exists>k. unat s = 65535 * k"
  proof (cases "unat f = 65535")
    case True
    with q ck assms(2) have "unat s = 65535 * Suc q" by (simp add: t_def)
    then show ?thesis ..
  next
    case False
    with q ck f(2) assms(2) have "unat s = 65535 * q" by (simp add: t_def)
    then show ?thesis ..
  qed
  then have "unat (fold16 s) mod 65535 = 0" by (auto simp: fold16_mod)
  moreover have "unat (fold16 s) \<noteq> 0"
  proof -
    have "unat (checksumWrapper (checksumAdd buf seed)) \<noteq> 0 \<or> t \<noteq> 0"
      using ck f(2) by (auto split: if_splits)
    then show ?thesis using assms(2) by (auto simp: fold16_zero t_def)
  qed
  ultimately have "unat (fold16 s) = 65535"
    using fold16_le [of s] by (metis mod_less nat_less_le)
  then show ?thesis by (simp add: word_unat_eq_iff)
qed

section \<open>The packet buffer\<close>

text \<open>
  \<open>data[i] = b\<close> and \<open>copy(data[lo:lo+n], src)\<close> (with \<open>n = None\<close> for
  \<open>data[lo:]\<close>): a panic, here \<open>None\<close>, when the index or the slice is out of
  range; \<open>copy\<close> moves as many bytes as both sides have.
\<close>

definition set_at :: "nat \<Rightarrow> byte \<Rightarrow> byte list \<Rightarrow> byte list option" where
  "set_at i b data = (if i < length data then Some (data[i := b]) else None)"

definition copy_at :: "nat \<Rightarrow> nat option \<Rightarrow> byte list \<Rightarrow> byte list \<Rightarrow> byte list option" where
  "copy_at lo n src data =
     (let hi = (case n of Some k \<Rightarrow> lo + k | None \<Rightarrow> length data) in
      if lo \<le> hi \<and> hi \<le> length data then
        (let m = min (hi - lo) (length src)
         in Some (take lo data @ take m src @ drop (lo + m) data))
      else None)"

text \<open>\<open>net.IP.To4\<close>: the four bytes of an IPv4 address, also in its 16-byte form, or nil.\<close>

definition To4 :: "byte list \<Rightarrow> byte list" where
  "To4 ip =
     (if length ip = 4 then ip
      else if length ip = 16 \<and> take 10 ip = replicate 10 0 \<and> ip ! 10 = 0xFF \<and> ip ! 11 = 0xFF
        then drop 12 ip
      else [])"

record UDPAddr =
  ua_IP :: "byte list"
  ua_Port :: int

datatype send_error = TooBigPacket | SendtoFailed

text \<open>
  \<open>sendUDPViaRaw\<close>. The system call is the parameter \<open>sendto\<close>, which gets the
  packet, the 4-byte destination address and the port, and says whether it
  succeeded. \<open>None\<close> is a panic.
\<close>

definition build_packet :: "UDPAddr \<Rightarrow> UDPAddr \<Rightarrow> byte list \<Rightarrow> (send_error + byte list) option" where
  "build_packet src dst payload =
     (let iplen = word_of_nat (28 + length payload) :: u16;
          ulen = word_of_nat (8 + length payload) :: u16 in
      if unat iplen > 65535 then Some (Inl TooBigPacket)
      else do {
        let data = replicate (unat iplen) 0;
        data \<leftarrow> set_at 9 17 data;
        data \<leftarrow> copy_at 12 (Some 4) (To4 (ua_IP src)) data;
        data \<leftarrow> copy_at 16 (Some 4) (To4 (ua_IP dst)) data;
        data \<leftarrow> set_at 20 (word_of_int (drop_bit 8 (ua_Port src))) data;
        data \<leftarrow> set_at 21 (word_of_int (ua_Port src)) data;
        data \<leftarrow> set_at 22 (word_of_int (drop_bit 8 (ua_Port dst))) data;
        data \<leftarrow> set_at 23 (word_of_int (ua_Port dst)) data;
        data \<leftarrow> set_at 24 (ucast (drop_bit 8 ulen)) data;
        data \<leftarrow> set_at 25 (ucast ulen) data;
        data \<leftarrow> copy_at 28 None payload data;
        let uc = checksumWrapper (checksumAdd data (ucast ulen));
        data \<leftarrow> set_at 26 (ucast (drop_bit 8 uc)) data;
        data \<leftarrow> set_at 27 (ucast uc) data;
        data \<leftarrow> set_at 0 0x45 data;
        data \<leftarrow> set_at 2 (ucast (drop_bit 8 iplen)) data;
        data \<leftarrow> set_at 3 (ucast iplen) data;
        data \<leftarrow> set_at 6 0x40 data;
        data \<leftarrow> set_at 8 64 data;
        let ipc = CheckSum (take 20 data);
        data \<leftarrow> set_at 10 (ucast (drop_bit 8 ipc)) data;
        data \<leftarrow> set_at 11 (ucast ipc) data;
        Some (Inr data)
      })"

definition sendUDPViaRaw ::
    "(byte list \<Rightarrow> byte list \<Rightarrow> int \<Rightarrow> bool) \<Rightarrow> UDPAddr \<Rightarrow> UDPAddr \<Rightarrow> byte list \<Rightarrow> (send_error + unit) option" where
  "sendUDPViaRaw sendto src dst payload =
     (case build_packet src dst payload of
        None \<Rightarrow> None
      | Some (Inl err) \<Rightarrow> Some (Inl err)
      | Some (Inr data) \<Rightarrow>
          if sendto data (take 4 (drop 16 data)) (ua_Port dst) then Some (Inr ())
          else Some (Inl SendtoFailed))"

section \<open>The layout of a packet\<close>

definition ip_header :: "nat \<Rightarrow> byte list \<Rightarrow> byte list \<Rightarrow> u16 \<Rightarrow> byte list" where
  "ip_header n sip dip ck =
     [0x45, 0] @ put_u16 (word_of_nat n) @ [0, 0, 0x40, 0, 64, 17] @ put_u16 ck @ sip @ dip"

definition udp_header :: "int \<Rightarrow> int \<Rightarrow> nat \<Rightarrow> u16 \<Rightarrow> byte list" where
  "udp_header sport dport n ck =
     put_u16 (word_of_int sport) @ put_u16 (word_of_int dport) @ put_u16 (word_of_nat n) @ put_u16 ck"

text \<open>The pseudo header over which RFC 768 computes the UDP checksum.\<close>

definition pseudo_header :: "byte list \<Rightarrow> byte list \<Rightarrow> nat \<Rightarrow> byte list" where
  "pseudo_header sip dip n = sip @ dip @ [0, 17] @ put_u16 (word_of_nat n)"

definition udp_checksum :: "byte list \<Rightarrow> byte list \<Rightarrow> int \<Rightarrow> int \<Rightarrow> byte list \<Rightarrow> u16" where
  "udp_checksum sip dip sport dport payload =
     (let n = 8 + length payload in
      checksumWrapper (checksumAdd (pseudo_header sip dip n @ udp_header sport dport n 0 @ payload) 0))"

definition ip_checksum :: "byte list \<Rightarrow> byte list \<Rightarrow> nat \<Rightarrow> u16" where
  "ip_checksum sip dip n = CheckSum (ip_header n sip dip 0)"

lemma replicate_28:
  "replicate (28 + n) (0 :: byte) =
     [0,0,0,0, 0,0,0,0, 0,0,0,0, 0,0,0,0, 0,0,0,0, 0,0,0,0, 0,0,0,0] @ replicate n 0"
  by (simp add: replicate_add numeral_eq_Suc)

lemma high_byte_of_int: "word_of_int (drop_bit 8 i) = (ucast (drop_bit 8 (word_of_int i :: u16)) :: byte)"
  by (rule bit_word_eqI) (auto simp: bit_simps)

lemma low_byte_of_int: "word_of_int i = (ucast (word_of_int i :: u16) :: byte)"
  by (rule bit_word_eqI) (auto simp: bit_simps)

lemma list4: "length xs = 4 \<Longrightarrow> \<exists>a b c d. xs = [a, b, c, d]"
  by (auto simp: numeral_eq_Suc length_Suc_conv)

lemma checksumAdd_cong:
  "wsum xs + unat s = wsum ys + unat t \<Longrightarrow> checksumAdd xs s = checksumAdd ys t"
  by (simp add: word_unat_eq_iff unat_checksumAdd)

lemma unat_hi_lo: "256 * unat (ucast (drop_bit 8 v) :: byte) + unat (ucast v :: byte) = unat (v :: u16)"
  by (metis get_put_u16 unat_get_u16)

lemma unat_ucast_16_32: "unat (ucast w :: u32) = unat (w :: u16)"
  using unsigned_less [of w, where 'a = nat]
  by (simp add: unsigned_ucast_eq take_bit_nat_eq_self)

lemma build_packet_layout:
  assumes "length (To4 (ua_IP src)) = 4" and "length (To4 (ua_IP dst)) = 4"
    and "length payload \<le> 65507"
  defines "sip \<equiv> To4 (ua_IP src)" and "dip \<equiv> To4 (ua_IP dst)" and "n \<equiv> length payload"
  shows "build_packet src dst payload = Some (Inr
    (ip_header (28 + n) sip dip (ip_checksum sip dip (28 + n))
     @ udp_header (ua_Port src) (ua_Port dst) (8 + n)
         (udp_checksum sip dip (ua_Port src) (ua_Port dst) payload)
     @ payload))"
proof -
  obtain a b c d where sip: "sip = [a, b, c, d]"
    using list4 [of sip] assms(1) by (auto simp: sip_def)
  obtain e f g h where dip: "dip = [e, f, g, h]"
    using list4 [of dip] assms(2) by (auto simp: dip_def)
  define iplen ulen where "iplen = (word_of_nat (28 + n) :: u16)" and "ulen = (word_of_nat (8 + n) :: u16)"
  have iplen: "unat iplen = 28 + n" and ulen: "unat ulen = 8 + n"
    unfolding iplen_def ulen_def n_def using assms(3) by (intro unat_of_nat_u16; linarith)+
  have alt: "28 + word_of_nat n = iplen" "8 + word_of_nat n = ulen"
    by (simp_all add: iplen_def ulen_def)
  define s1 s0 d1 d0 where "s1 = (ucast (drop_bit 8 (word_of_int (ua_Port src) :: u16)) :: byte)"
    and "s0 = (ucast (word_of_int (ua_Port src) :: u16) :: byte)"
    and "d1 = (ucast (drop_bit 8 (word_of_int (ua_Port dst) :: u16)) :: byte)"
    and "d0 = (ucast (word_of_int (ua_Port dst) :: u16) :: byte)"
  note ports = s1_def s0_def d1_def d0_def
  define l1 l0 where "l1 = (ucast (drop_bit 8 ulen) :: byte)" and "l0 = (ucast ulen :: byte)"
  define body where "body = [0,0,0,0, 0,0,0,0, 0,17,0,0, a,b,c,d, e,f,g,h, s1,s0,d1,d0, l1,l0,0,0] @ payload"
  have uc: "checksumWrapper (checksumAdd body (ucast ulen))
      = udp_checksum sip dip (ua_Port src) (ua_Port dst) payload"
  proof -
    have "256 * unat l1 + unat l0 = unat ulen"
      by (simp add: l1_def l0_def unat_hi_lo)
    moreover have "unat (ucast ulen :: u32) = unat ulen"
      by (rule unat_ucast_16_32)
    ultimately have "checksumAdd body (ucast ulen) = checksumAdd (pseudo_header sip dip (8 + n)
        @ udp_header (ua_Port src) (ua_Port dst) (8 + n) 0 @ payload) 0"
      by (intro checksumAdd_cong)
        (simp add: body_def pseudo_header_def udp_header_def sip dip put_u16_def
          ports l1_def l0_def alt)
    then show ?thesis by (simp add: udp_checksum_def n_def Let_def)
  qed
  define ck where "ck = udp_checksum sip dip (ua_Port src) (ua_Port dst) payload"
  have not_big: "\<not> 65535 < unat iplen" using iplen assms(3) by (simp add: n_def)
  have hdr: "[0x45,0,ucast (drop_bit 8 iplen),ucast iplen, 0,0,0x40,0, 64,17,0,0, a,b,c,d, e,f,g,h]
      = ip_header (28 + n) sip dip 0"
    by (simp add: ip_header_def sip dip put_u16_def alt)
  have port_bytes:
    "word_of_int (drop_bit 8 (ua_Port src)) = s1" "word_of_int (ua_Port src) = s0"
    "word_of_int (drop_bit 8 (ua_Port dst)) = d1" "word_of_int (ua_Port dst) = d0"
    "ucast (drop_bit 8 ulen) = l1" "ucast ulen = l0"
    unfolding ports l1_def l0_def by (rule high_byte_of_int low_byte_of_int refl)+
  have ipc: "CheckSum [0x45,0,ucast (drop_bit 8 iplen),ucast iplen, 0,0,0x40,0, 64,17,0,0, a,b,c,d, e,f,g,h]
      = ip_checksum sip dip (28 + n)"
    by (simp only: hdr ip_checksum_def)
  note uc' = uc [folded ck_def, unfolded body_def append_Cons append_Nil]
  have "build_packet src dst payload = Some (Inr
      ([0x45,0,ucast (drop_bit 8 iplen),ucast iplen, 0,0,0x40,0, 64,17,
        ucast (drop_bit 8 (ip_checksum sip dip (28 + n))), ucast (ip_checksum sip dip (28 + n)),
        a,b,c,d, e,f,g,h, s1,s0,d1,d0, l1,l0, ucast (drop_bit 8 ck), ucast ck] @ payload))"
    using not_big
    unfolding build_packet_def Let_def
    by (simp only: iplen replicate_28 if_False flip: n_def iplen_def ulen_def sip_def dip_def)
      (simp add: set_at_def copy_at_def sip dip n_def port_bytes uc' ipc [unfolded sip dip n_def]
        del: checksumAdd.simps)
  then show ?thesis
    by (simp add: ip_header_def udp_header_def put_u16_def sip dip alt ck_def ports l1_def l0_def)
qed

section \<open>The receiver's checks\<close>

lemma wsum_put_u16 [simp]: "wsum (put_u16 v @ buf) = unat v + wsum buf"
  by (simp add: put_u16_def unat_hi_lo)

lemma wsum_put_u16_Nil [simp]: "wsum (put_u16 v) = unat v"
  using wsum_put_u16 [of v "[]"] by simp

lemma wsum_ip_header:
  "length sip = 4 \<Longrightarrow> wsum (ip_header n sip dip ck) = wsum (ip_header n sip dip 0) + unat ck"
  by (simp add: ip_header_def)

lemma wsum_pseudo_udp:
  assumes "length sip = 4" and "length dip = 4"
  shows "wsum (pseudo_header sip dip m @ udp_header sp dp n ck @ payload)
    = wsum (pseudo_header sip dip m @ udp_header sp dp n 0 @ payload) + unat ck"
proof -
  have "even (length sip)" "even (length dip)" using assms by simp_all
  then show ?thesis
    by (simp add: pseudo_header_def udp_header_def wsum_append)
qed

lemma checksum_list_accepted:
  assumes "wsum ys = wsum xs + unat (checksumWrapper (checksumAdd xs 0))"
    and "wsum xs + 65535 < 2 ^ 32"
  shows "fold16 (checksumAdd ys 0) = 0xFFFF"
proof (rule checksum_accepted)
  let ?c = "unat (checksumWrapper (checksumAdd xs 0))"
  show "wsum xs + unat (0 :: u32) + 65535 < 2 ^ 32" using assms(2) by simp
  have "?c < 65536"
    using unsigned_less [of "checksumWrapper (checksumAdd xs 0)", where 'a = nat] by simp
  then have "wsum ys < 2 ^ 32" using assms by linarith
  then have "unat (checksumAdd ys 0) = wsum ys"
    using unat_checksumAdd [of ys 0] by simp
  then show "unat (checksumAdd ys 0) = wsum xs + unat (0 :: u32) + ?c"
    using assms(1) by simp
qed

lemma ip_header_accepted:
  assumes "length sip = 4" and "length dip = 4"
  shows "fold16 (checksumAdd (ip_header n sip dip (ip_checksum sip dip n)) 0) = 0xFFFF"
proof -
  let ?h = "ip_header n sip dip 0"
  have len: "length ?h = 20" using assms by (simp add: ip_header_def)
  have bound: "wsum ?h \<le> 655350" using wsum_bound [of ?h] by (simp add: len)
  show ?thesis
  proof (rule checksum_list_accepted)
    show "wsum (ip_header n sip dip (ip_checksum sip dip n))
        = wsum ?h + unat (checksumWrapper (checksumAdd ?h 0))"
      using wsum_ip_header [OF assms(1), of n dip "ip_checksum sip dip n"]
      unfolding ip_checksum_def CheckSum_def .
    show "wsum ?h + 65535 < 2 ^ 32" using bound by simp
  qed
qed

lemma udp_accepted:
  assumes "length sip = 4" and "length dip = 4" and "length payload \<le> 65507"
  defines "n \<equiv> 8 + length payload"
  shows "fold16 (checksumAdd (pseudo_header sip dip n
      @ udp_header sp dp n (udp_checksum sip dip sp dp payload) @ payload) 0) = 0xFFFF"
proof -
  let ?b = "pseudo_header sip dip n @ udp_header sp dp n 0 @ payload"
  let ?ck = "udp_checksum sip dip sp dp payload"
  have "length ?b \<le> 65535"
    using assms(1-3) by (simp add: pseudo_header_def udp_header_def)
  then have "(length ?b + 1) div 2 \<le> 32768" by linarith
  then have bound: "wsum ?b \<le> 65535 * 32768"
    using wsum_bound [of ?b] by (meson le_trans mult_le_mono2)
  show ?thesis
  proof (rule checksum_list_accepted)
    have "?ck = checksumWrapper (checksumAdd ?b 0)"
      by (simp only: udp_checksum_def n_def Let_def)
    then show "wsum (pseudo_header sip dip n @ udp_header sp dp n ?ck @ payload)
        = wsum ?b + unat (checksumWrapper (checksumAdd ?b 0))"
      using wsum_pseudo_udp [OF assms(1,2)] by metis
    show "wsum ?b + 65535 < 2 ^ 32" using bound by simp
  qed
qed

lemma checksumWrapper_nonzero: "checksumWrapper s \<noteq> 0"
  by (simp add: checksumWrapper_def Let_def)

section \<open>Frames on a stream\<close>

definition encode :: "byte list \<Rightarrow> byte list" where
  "encode raw =
     (let buf = put_u16 (len_u16 raw) in buf @ raw)"

definition encodeProxyProtocol :: "string \<Rightarrow> string \<Rightarrow> string \<Rightarrow> string \<Rightarrow> string \<Rightarrow> byte list" where
  "encodeProxyProtocol protocol sip sport dip dport =
     (let proxyProtocol = \<lparr>pp_Protocol = protocol, pp_SrcIP = sip, pp_SrcPort = sport,
                           pp_DstIP = dip, pp_DstPort = dport\<rparr>;
          body = marshal_ProxyProtocol proxyProtocol
      in encode body)"

text \<open>
  How the peers take a frame off a stream: two bytes of length, then the
  payload, both with \<open>io.ReadFull\<close>.
\<close>

fun frame_length :: "byte list \<Rightarrow> nat" where
  "frame_length [a, b] = unat (get_u16 a b)"
| "frame_length _ = 0"

definition read_frame :: "reader \<Rightarrow> (io_error + byte list) \<times> reader" where
  "read_frame stream =
     (case read_full 2 stream of
        (Inl err, stream1) \<Rightarrow> (Inl err, stream1)
      | (Inr hdr, stream1) \<Rightarrow> read_full (frame_length hdr) stream1)"

lemma length_encode [simp]: "length (encode raw) = length raw + 2"
  by (simp add: encode_def)

lemma frame_length_encode:
  "length raw \<le> 65535 \<Longrightarrow> frame_length (take 2 (encode raw)) = length raw"
  by (simp add: encode_def put_u16_def get_put_u16)

lemma drop_encode [simp]: "drop 2 (encode raw) = raw"
  by (simp add: encode_def put_u16_def)

lemma read_frame_encode:
  assumes "length raw \<le> 65535" and "pending r = encode raw @ rest"
  shows "\<exists>r'. read_frame r = (Inr raw, r') \<and> pending r' = rest \<and> snd r' = snd r"
proof -
  obtain r1 where r1: "read_full 2 r = (Inr (take 2 (pending r)), r1)"
      and p1: "pending r1 = raw @ rest" and e1: "snd r1 = snd r"
    using read_full_enough [of 2 r] assms(2) by auto
  obtain r2 where r2: "read_full (length raw) r1 = (Inr raw, r2)"
      and "pending r2 = rest" and "snd r2 = snd r1"
    using read_full_enough [of "length raw" r1] p1 by auto
  with r1 e1 show ?thesis
    using frame_length_encode [OF assms(1)] assms(2) by (simp add: read_frame_def)
qed

section \<open>Properties\<close>

text \<open>
  C15. For a payload of at most 65507 bytes and IPv4 addresses, the packet that
  \<open>sendUDPViaRaw\<close> sends is the IPv4 header (version 4, 20 bytes, do not
  fragment, TTL 64, protocol UDP, total length, source and destination), the UDP
  header (the ports modulo \<open>2 ^ 16\<close>, the length) and the payload, with the two
  checksums in place; it goes to the destination address.
\<close>

theorem raw_packet_layout:
  assumes "length (To4 (ua_IP src)) = 4" and "length (To4 (ua_IP dst)) = 4"
    and "length payload \<le> 65507"
  defines "sip \<equiv> To4 (ua_IP src)" and "dip \<equiv> To4 (ua_IP dst)" and "n \<equiv> length payload"
  defines "packet \<equiv> ip_header (28 + n) sip dip (ip_checksum sip dip (28 + n))
     @ udp_header (ua_Port src) (ua_Port dst) (8 + n)
         (udp_checksum sip dip (ua_Port src) (ua_Port dst) payload)
     @ payload"
  shows "build_packet src dst payload = Some (Inr packet)
    \<and> sendUDPViaRaw sendto src dst payload =
      Some (if sendto packet dip (ua_Port dst) then Inr () else Inl SendtoFailed)"
proof (rule conjI)
  show b: "build_packet src dst payload = Some (Inr packet)"
    using build_packet_layout [OF assms(1-3)] by (simp only: packet_def sip_def dip_def n_def)
  have "take 4 (drop 16 packet) = dip"
    using assms(1,2) by (simp add: packet_def ip_header_def sip_def dip_def put_u16_def)
  then show "sendUDPViaRaw sendto src dst payload =
      Some (if sendto packet dip (ua_Port dst) then Inr () else Inl SendtoFailed)"
    by (simp add: sendUDPViaRaw_def b)
qed

definition sample_src :: UDPAddr where
  "sample_src = \<lparr>ua_IP = [100, 64, 242, 2], ua_Port = 53\<rparr>"

definition sample_dst :: UDPAddr where
  "sample_dst = \<lparr>ua_IP = [0,0,0,0,0,0,0,0,0,0,255,255, 8,8,8,8], ua_Port = 4000\<rparr>"

lemma sample_addresses:
  "length (To4 (ua_IP sample_src)) = 4" "length (To4 (ua_IP sample_dst)) = 4"
  by (simp_all add: sample_src_def sample_dst_def To4_def numeral_eq_Suc)

theorem raw_packet_layout_witness:
  "build_packet sample_src sample_dst [1, 2, 3] = Some (Inr
    (ip_header (28 + length [1, 2, 3 :: byte]) (To4 (ua_IP sample_src)) (To4 (ua_IP sample_dst))
       (ip_checksum (To4 (ua_IP sample_src)) (To4 (ua_IP sample_dst)) (28 + length [1, 2, 3 :: byte]))
     @ udp_header (ua_Port sample_src) (ua_Port sample_dst) (8 + length [1, 2, 3 :: byte])
         (udp_checksum (To4 (ua_IP sample_src)) (To4 (ua_IP sample_dst))
            (ua_Port sample_src) (ua_Port sample_dst) [1, 2, 3])
     @ [1, 2, 3]))"
  by (rule raw_packet_layout [THEN conjunct1]) (simp_all add: sample_addresses)





end
