(* ===== verification/Streams.thy ===== *)
theory Streams
  imports Net_Codec
begin

text \<open>
  What the forwarders and the client do with the streams of a multiplexed
  connection: copying with a buffer (\<open>io.CopyBuffer\<close>), and reading the frames of a
  stream of datagrams until an error, in the two ways that the code has: with
  \<open>io.ReadFull\<close> for the length, and with a plain \<open>Read\<close> whose short count is skipped.
\<close>

section \<open>Sizes of readers\<close>

definition rsize :: "reader \<Rightarrow> nat" where
  "rsize r = length (fst r) + length (pending r)"

lemma rd_read_size:
  assumes "rd_read n r = (Inr bs, r')" and "0 < n"
  shows "rsize r' < rsize r"
  using assms by (cases "(n, r)" rule: rd_read.cases) (auto simp: rsize_def pending_def)

lemma gather_size: "length (snd (gather n cs)) \<le> length cs"
  by (induction cs arbitrary: n) (auto simp: case_prod_beta le_SucI)

lemma read_full_size: "rsize (snd (read_full n r)) \<le> rsize r"
proof -
  obtain bs rest where g: "gather n (fst r) = (bs, rest)" by fastforce
  have "length rest \<le> length (fst r)" "concat rest = drop n (pending r)"
    using gather_size [of n "fst r"] gather_take_drop [of n "fst r"] g by (simp_all add: pending_def)
  then show ?thesis by (simp add: read_full_def g rsize_def pending_def)
qed

section \<open>Copying\<close>

text \<open>
  \<open>io.CopyBuffer\<close> with a buffer of \<open>n\<close> bytes to a destination that takes \<open>k\<close> more
  writes: the list of writes.
\<close>

fun copy_buffer :: "nat \<Rightarrow> nat \<Rightarrow> reader \<Rightarrow> byte list list" where
  "copy_buffer n 0 r = []"
| "copy_buffer n (Suc k) r =
     (case rd_read n r of
        (Inl err, r') \<Rightarrow> []
      | (Inr bs, r') \<Rightarrow> if bs = [] then copy_buffer n k r' else bs # copy_buffer n k r')"

text \<open>What is written is what was read, in order, in pieces of the buffer's size.\<close>

lemma copy_buffer_prefix: "\<exists>rest. pending r = concat (copy_buffer n k r) @ rest"
proof (induction k arbitrary: r)
  case (Suc k)
  show ?case
  proof -
    obtain a r' where Pair: "rd_read n r = (a, r')" using prod.exhaust by blast
    show ?thesis
    proof (cases a)
      case (Inr bs)
      with Pair have "pending r = bs @ pending r'" using rd_read_pending by blast
      with Suc [of r'] Pair Inr show ?thesis by auto
    qed (use Pair in simp)
  qed
qed simp

lemma copy_buffer_all:
  "0 < n \<Longrightarrow> rsize r \<le> k \<Longrightarrow> concat (copy_buffer n k r) = pending r"
proof (induction k arbitrary: r)
  case 0
  then show ?case by (simp add: rsize_def)
next
  case (Suc k)
  show ?case
  proof -
    obtain a r' where Pair: "rd_read n r = (a, r')" using prod.exhaust by blast
    show ?thesis
    proof (cases a)
      case (Inl e)
      with Pair have "pending r = []" by (cases "(n, r)" rule: rd_read.cases) (auto simp: pending_def)
      with Pair Inl show ?thesis by simp
    next
      case (Inr bs)
      with Pair have p: "pending r = bs @ pending r'" using rd_read_pending by blast
      have "rsize r' \<le> k" using rd_read_size [of n r bs r'] Pair Inr Suc.prems by simp
      with Suc.IH [of r'] Suc.prems(1) Pair Inr p show ?thesis by simp
    qed
  qed
qed

lemma copy_buffer_sizes: "\<forall>w\<in>set (copy_buffer n k r). w \<noteq> [] \<and> length w \<le> n"
proof (induction k arbitrary: r)
  case (Suc k)
  show ?case
  proof -
    obtain a r' where Pair: "rd_read n r = (a, r')" using prod.exhaust by blast
    have "length bs \<le> n" if "a = Inr bs" for bs
      using Pair that by (cases "(n, r)" rule: rd_read.cases) auto
    with Suc [of r'] Pair show ?thesis by (cases a) auto
  qed
qed simp

section \<open>Streams of datagrams\<close>

text \<open>The client's side: every frame with \<open>io.ReadFull\<close>, until a read fails.\<close>

lemma read_frame_size:
  assumes "read_frame r = (Inr buf, r')"
  shows "length (pending r') < length (pending r)"
proof -
  obtain h r1 where h: "read_full 2 r = (h, r1)" using prod.exhaust by blast
  with assms obtain hdr where hdr: "h = Inr hdr" "read_full (frame_length hdr) r1 = (Inr buf, r')"
    by (auto simp: read_frame_def split: sum.splits)
  obtain bs rest where g: "gather 2 (fst r) = (bs, rest)" by fastforce
  with h hdr(1) have "r1 = (rest, snd r)" "length bs = 2" by (auto simp: read_full_def split: if_splits)
  then have "length (pending r1) = length (pending r) - 2" "2 \<le> length (pending r)"
    using gather_take_drop [of 2 "fst r"] g by (auto simp: pending_def)
  moreover have "length (pending r') \<le> length (pending r1)"
  proof -
    obtain bs rest where g: "gather (frame_length hdr) (fst r1) = (bs, rest)" by fastforce
    with hdr(2) have "r' = (rest, snd r1)" by (auto simp: read_full_def split: if_splits)
    then show ?thesis using gather_take_drop [of "frame_length hdr" "fst r1"] g by (simp add: pending_def)
  qed
  ultimately show ?thesis by simp
qed

function read_frames :: "reader \<Rightarrow> byte list list" where
  "read_frames stream =
     (case read_frame stream of
        (Inl err, _) \<Rightarrow> []
      | (Inr buf, stream') \<Rightarrow> buf # read_frames stream')"
  by pat_completeness auto
termination
  by (relation "measure (\<lambda>r. length (pending r))") (auto dest: read_frame_size [OF sym])

declare read_frames.simps [simp del]

lemma read_frames_encode:
  assumes "\<forall>p\<in>set ps. length p \<le> 65535" and "pending r = concat (map encode ps)"
  shows "read_frames r = ps"
  using assms
proof (induction ps arbitrary: r)
  case Nil
  then have "\<exists>e. fst (read_full 2 r) = Inl e" using read_full_short [of r 2] by simp
  then show ?case by (subst read_frames.simps) (auto simp: read_frame_def split: prod.splits sum.splits)
next
  case (Cons p ps)
  then obtain r' where "read_frame r = (Inr p, r')" "pending r' = concat (map encode ps)"
    using read_frame_encode [of p r "concat (map encode ps)"] by auto
  with Cons show ?case by (subst read_frames.simps) simp
qed

text \<open>
  The server's side (the loop of \<open>forwardUDP\<close>): a plain \<open>Read\<close> of two bytes; when it
  returns fewer, the loop goes on with the next \<open>Read\<close>.
\<close>

function read_loose :: "reader \<Rightarrow> byte list list" where
  "read_loose stream =
     (case rd_read 2 stream of
        (Inl err, _) \<Rightarrow> []
      | (Inr hdr, stream1) \<Rightarrow>
          if length hdr \<noteq> 2 then read_loose stream1
          else (case read_full (frame_length hdr) stream1 of
                  (Inl err, _) \<Rightarrow> []
                | (Inr buf, stream2) \<Rightarrow> buf # read_loose stream2))"
  by pat_completeness auto
termination
proof (relation "measure rsize")
  fix stream stream1 x hdr stream2 y buf
  assume "(x, stream1) = rd_read 2 stream" "x = Inr hdr"
    "(y, stream2) = read_full (frame_length hdr) stream1"
  then have "rsize stream1 < rsize stream" "rsize stream2 \<le> rsize stream1"
    using rd_read_size [of 2 stream hdr stream1] read_full_size [of "frame_length hdr" stream1] by (auto dest: sym)
  then show "(stream2, stream) \<in> measure rsize" by simp
qed (auto dest: rd_read_size [OF sym])

declare read_loose.simps [simp del]

text \<open>The chunks of a frame that arrives on its own: the first one has the whole length.\<close>

definition frame_chunks :: "byte list \<Rightarrow> byte list list \<Rightarrow> bool" where
  "frame_chunks p cs \<longleftrightarrow> concat cs = encode p \<and> [] \<notin> set cs \<and> 2 \<le> length (hd cs)"

lemma gather_exact: "[] \<notin> set cs \<Longrightarrow> gather (length (concat cs)) (cs @ rest) = (concat cs, rest)"
proof (induction cs)
  case Nil
  then show ?case by (cases rest) simp_all
next
  case (Cons c cs)
  moreover have "length c + length (concat cs) \<noteq> 0" using Cons.prems by auto
  ultimately show ?case by simp
qed

lemma read_loose_frame:
  assumes "length p \<le> 65535" and "frame_chunks p cs"
  shows "read_loose (cs @ rest, e) = p # read_loose (rest, e)"
proof -
  obtain c cs' where cs: "cs = c # cs'" and two: "2 \<le> length c" and enc: "c @ concat cs' = encode p"
      and ne: "[] \<notin> set cs'"
    using assms(2) by (cases cs) (auto simp: frame_chunks_def encode_def put_u16_def)
  have hdr: "take 2 c = take 2 (encode p)" "drop 2 c @ concat cs' = p"
    using two drop_encode [of p] by (simp_all flip: enc)
  then have len: "frame_length (take 2 c) = length p"
    using frame_length_encode [OF assms(1)] by simp
  define cs2 where "cs2 = (if length c \<le> 2 then cs' else drop 2 c # cs')"
  have c2: "concat cs2 = p" "[] \<notin> set cs2" using hdr(2) two ne by (auto simp: cs2_def)
  have "rd_read 2 (cs @ rest, e) = (Inr (take 2 c), (cs2 @ rest, e))" by (simp add: cs cs2_def)
  moreover have "read_full (length p) (cs2 @ rest, e) = (Inr p, (rest, e))"
    using gather_exact [OF c2(2), of rest] c2(1) by (simp add: read_full_def)
  ultimately show ?thesis using two len by (subst read_loose.simps) simp
qed

lemma read_loose_frames:
  assumes "list_all2 (\<lambda>p cs. length p \<le> 65535 \<and> frame_chunks p cs) ps css"
  shows "read_loose (concat css, e) = ps"
  using assms
proof (induction rule: list_all2_induct)
  case Nil
  then show ?case by (subst read_loose.simps) simp
next
  case (Cons p ps cs css)
  then show ?case using read_loose_frame [of p cs "concat css" e] by simp
qed

text \<open>A length that arrives in two pieces is dropped, and its payload is read as frames.\<close>

lemma read_loose_split: "read_loose ([h] # [l] # cs, e) = read_loose (cs, e)"
  by (subst read_loose.simps, simp, subst read_loose.simps, simp)

end
