(* ===== verification/Tcp_Proxy.thy ===== *)
theory Tcp_Proxy
  imports Recycle Streams
begin

text \<open>
  One running proxy of the tcp plugin (\<open>opennotrd/plugin/tcpproxy/tcpproxy.go\<close>):
  the listener, the goroutine that waits for the recycle signal, the accept loop
  with its deferred calls, the table of accepted connections and the goroutine of
  each connection. The steps of these goroutines interleave in any order.
\<close>

section \<open>State\<close>

text \<open>
  The goroutine of one accepted connection: spawned; its connection stored in the
  table and the backend not dialled yet; copying in both directions.
\<close>

datatype handler = Spawned | Stored | Copying

record tcp_proxy =
  tp_laddr :: string
  tp_to :: string
  tp_signal :: nat
  tp_open :: bool
  tp_watch :: watcher
  tp_loop :: bool
  tp_fin :: bool
  tp_sess :: "string \<rightharpoonup> nat"
  tp_handlers :: "nat \<rightharpoonup> string \<times> handler"
  tp_conns :: "nat set"
  tp_backends :: "nat set"
  tp_next :: nat

text \<open>
  \<open>tp_conns\<close> and \<open>tp_backends\<close> are the connections that are open, by the number of
  the accepted connection; \<open>tp_handlers\<close> its remote address and its goroutine.
\<close>

definition tcp_start :: "string \<Rightarrow> string \<Rightarrow> nat \<Rightarrow> tcp_proxy" where
  "tcp_start laddr to sig =
     \<lparr>tp_laddr = laddr, tp_to = to, tp_signal = sig, tp_open = True, tp_watch = Starting,
      tp_loop = True, tp_fin = False, tp_sess = Map.empty, tp_handlers = Map.empty,
      tp_conns = {}, tp_backends = {}, tp_next = 0\<rparr>"

section \<open>Steps\<close>

text \<open>The receive in the \<open>select\<close> of the waiting goroutine.\<close>

definition tcp_ready :: "nat \<Rightarrow> tcp_proxy \<Rightarrow> bool" where
  "tcp_ready sig p \<longleftrightarrow> tp_signal p = sig \<and> tp_watch p = Waiting"

definition tcp_receive :: "tcp_proxy \<Rightarrow> tcp_proxy" where
  "tcp_receive p = p\<lparr>tp_watch := Received\<rparr>"

definition tcp_stop :: "nat \<Rightarrow> tcp_proxy \<Rightarrow> tcp_proxy" where
  "tcp_stop sig p = (if tcp_ready sig p then tcp_receive p else p)"

text \<open>The waiting goroutine's own steps: reach the \<open>select\<close>, close, or see \<open>fin\<close> closed.\<close>

definition tcp_watch :: "tcp_proxy \<Rightarrow> tcp_proxy" where
  "tcp_watch p =
     (case tp_watch p of
        Starting \<Rightarrow> p\<lparr>tp_watch := Waiting\<rparr>
      | Received \<Rightarrow> p\<lparr>tp_open := False, tp_watch := Finished\<rparr>
      | Waiting \<Rightarrow> if tp_fin p then p\<lparr>tp_watch := Finished\<rparr> else p
      | Finished \<Rightarrow> p)"

definition tcp_accept :: "string \<Rightarrow> tcp_proxy \<Rightarrow> tcp_proxy" where
  "tcp_accept remote p =
     (if tp_loop p \<and> tp_open p then
        p\<lparr>tp_handlers := (tp_handlers p)(tp_next p \<mapsto> (remote, Spawned)),
          tp_conns := insert (tp_next p) (tp_conns p), tp_next := tp_next p + 1\<rparr>
      else p)"

text \<open>
  \<open>Accept\<close> fails: the loop ends and the deferred calls run, the last deferred
  first: the stored connections are closed, then \<open>fin\<close>, then the listener.
\<close>

definition tcp_exit :: "tcp_proxy \<Rightarrow> tcp_proxy" where
  "tcp_exit p =
     (if tp_loop p then
        p\<lparr>tp_loop := False, tp_conns := tp_conns p - ran (tp_sess p), tp_fin := True,
          tp_open := False\<rparr>
      else p)"

definition tcp_store :: "nat \<Rightarrow> tcp_proxy \<Rightarrow> tcp_proxy" where
  "tcp_store i p =
     (case tp_handlers p i of
        Some (r, Spawned) \<Rightarrow>
          p\<lparr>tp_sess := (tp_sess p)(r \<mapsto> i), tp_handlers := (tp_handlers p)(i \<mapsto> (r, Stored))\<rparr>
      | _ \<Rightarrow> p)"

text \<open>The end of a connection's goroutine: close the backend and the connection, delete the entry.\<close>

definition tcp_done :: "nat \<Rightarrow> tcp_proxy \<Rightarrow> tcp_proxy" where
  "tcp_done i p =
     (case tp_handlers p i of
        Some (r, _) \<Rightarrow>
          p\<lparr>tp_backends := tp_backends p - {i}, tp_conns := tp_conns p - {i},
            tp_sess := (tp_sess p)(r := None), tp_handlers := (tp_handlers p)(i := None)\<rparr>
      | None \<Rightarrow> p)"

definition doProxy :: "bool \<Rightarrow> nat \<Rightarrow> tcp_proxy \<Rightarrow> tcp_proxy" where
  "doProxy dialled i p =
     (case tp_handlers p i of
        Some (r, Stored) \<Rightarrow>
          if dialled then
            p\<lparr>tp_backends := insert i (tp_backends p), tp_handlers := (tp_handlers p)(i \<mapsto> (r, Copying))\<rparr>
          else tcp_done i p
      | Some (r, Copying) \<Rightarrow> tcp_done i p
      | _ \<Rightarrow> p)"

text \<open>
  The two copies of \<open>doProxy\<close>: from the accepted connection to the backend and from the
  backend to the connection, each a reader and the number of writes that the other side
  takes; what is written on the backend and on the connection.
\<close>

definition doProxy_copies :: "reader \<times> nat \<Rightarrow> reader \<times> nat \<Rightarrow> byte list list \<times> byte list list" where
  "doProxy_copies conn_in to_in =
     (copy_buffer 1500 (snd conn_in) (fst conn_in), copy_buffer 1500 (snd to_in) (fst to_in))"

inductive tcp_step :: "tcp_proxy \<Rightarrow> tcp_proxy \<Rightarrow> bool" where
  step_stop: "tcp_step p (tcp_stop sig p)"
| step_watch: "tcp_step p (tcp_watch p)"
| step_accept: "tcp_step p (tcp_accept remote p)"
| step_exit: "tcp_step p (tcp_exit p)"
| step_store: "tcp_step p (tcp_store i p)"
| step_doProxy: "tcp_step p (doProxy dialled i p)"

inductive_cases tcp_stepE: "tcp_step p q"

inductive tcp_steps :: "tcp_proxy \<Rightarrow> tcp_proxy \<Rightarrow> bool" where
  steps_refl: "tcp_steps p p"
| steps_step: "tcp_steps p q \<Longrightarrow> tcp_step q r \<Longrightarrow> tcp_steps p r"

lemmas tcp_defs =
  tcp_stop_def tcp_ready_def tcp_receive_def tcp_watch_def tcp_accept_def tcp_exit_def
  tcp_store_def tcp_done_def doProxy_def

section \<open>Invariant\<close>

definition tcp_inv :: "tcp_proxy \<Rightarrow> bool" where
  "tcp_inv p \<longleftrightarrow>
     (tp_fin p \<longleftrightarrow> \<not> tp_loop p) \<and> (\<not> tp_loop p \<longrightarrow> \<not> tp_open p) \<and>
     (tp_watch p = Finished \<longrightarrow> \<not> tp_open p) \<and>
     (\<forall>r i. tp_sess p r = Some i \<longrightarrow> (\<exists>h. tp_handlers p i = Some (r, h) \<and> h \<noteq> Spawned)) \<and>
     (\<forall>i\<in>tp_conns p. tp_handlers p i \<noteq> None) \<and>
     (\<forall>i\<in>tp_backends p. \<exists>r. tp_handlers p i = Some (r, Copying)) \<and>
     (\<forall>i. tp_handlers p i \<noteq> None \<longrightarrow> i < tp_next p)"

lemma tcp_inv_start [simp]: "tcp_inv (tcp_start laddr to sig)"
  by (simp add: tcp_inv_def tcp_start_def)

lemma tcp_inv_stop: "tcp_inv p \<Longrightarrow> tcp_inv (tcp_stop sig p)"
  by (simp add: tcp_inv_def tcp_stop_def tcp_ready_def tcp_receive_def)

lemma tcp_inv_watch: "tcp_inv p \<Longrightarrow> tcp_inv (tcp_watch p)"
  by (auto simp: tcp_inv_def tcp_watch_def split: watcher.splits)

lemma tcp_inv_accept:
  assumes "tcp_inv p"
  shows "tcp_inv (tcp_accept remote p)"
proof -
  have "tp_handlers p (tp_next p) = None"
    using assms unfolding tcp_inv_def by (metis less_irrefl)
  then have "tp_sess p r \<noteq> Some (tp_next p)" "tp_next p \<notin> tp_backends p" for r
    using assms unfolding tcp_inv_def by fastforce+
  with assms show ?thesis by (auto simp: tcp_inv_def tcp_accept_def less_Suc_eq)
qed

lemma tcp_inv_exit: "tcp_inv p \<Longrightarrow> tcp_inv (tcp_exit p)"
  by (auto simp: tcp_inv_def tcp_exit_def)

lemma tcp_inv_store:
  assumes "tcp_inv p"
  shows "tcp_inv (tcp_store i p)"
proof (cases "\<exists>r. tp_handlers p i = Some (r, Spawned)")
  case True
  then obtain r where r: "tp_handlers p i = Some (r, Spawned)" by blast
  then have "tp_sess p s \<noteq> Some i" "i \<notin> tp_backends p" for s
    using assms unfolding tcp_inv_def by fastforce+
  with assms r show ?thesis by (auto simp: tcp_inv_def tcp_store_def)
next
  case False
  then show ?thesis using assms by (auto simp: tcp_store_def split: option.splits handler.splits)
qed

lemma tcp_inv_done:
  assumes "tcp_inv p"
  shows "tcp_inv (tcp_done i p)"
proof (cases "tp_handlers p i")
  case (Some rh)
  obtain r h where rh: "rh = (r, h)" by (cases rh)
  have "\<exists>h. tp_handlers p j = Some (s, h) \<and> h \<noteq> Spawned \<and> j \<noteq> i"
    if "tp_sess p s = Some j" "s \<noteq> r" for s j
    using assms that Some rh unfolding tcp_inv_def by fastforce
  with assms Some rh show ?thesis by (auto simp: tcp_inv_def tcp_done_def)
qed (simp add: tcp_done_def assms)

lemma tcp_inv_doProxy: "tcp_inv p \<Longrightarrow> tcp_inv (doProxy dialled i p)"
proof (cases "tp_handlers p i")
  case (Some rh)
  assume inv: "tcp_inv p"
  obtain r h where rh: "rh = (r, h)" by (cases rh)
  show ?thesis
  proof (cases "h = Stored \<and> dialled")
    case True
    have "\<exists>h'. tp_handlers p j = Some (s, h') \<and> h' \<noteq> Spawned \<and> (j = i \<longrightarrow> s = r)"
      if "tp_sess p s = Some j" for s j
      using inv that Some rh unfolding tcp_inv_def by fastforce
    with True inv Some rh show ?thesis by (auto simp: tcp_inv_def doProxy_def)
  next
    case False
    then show ?thesis using inv Some rh by (auto simp: doProxy_def tcp_inv_done split: handler.splits)
  qed
qed (simp add: doProxy_def)

lemmas tcp_inv_intros =
  tcp_inv_stop tcp_inv_watch tcp_inv_accept tcp_inv_exit tcp_inv_store tcp_inv_doProxy

lemma tcp_inv_step: "tcp_step p q \<Longrightarrow> tcp_inv p \<Longrightarrow> tcp_inv q"
  by (erule tcp_stepE) (auto intro: tcp_inv_intros)

lemma tcp_inv_steps: "tcp_steps p q \<Longrightarrow> tcp_inv p \<Longrightarrow> tcp_inv q"
  by (induction rule: tcp_steps.induct) (auto intro: tcp_inv_step)

lemma tcp_closed_step: "tcp_step p q \<Longrightarrow> \<not> tp_open p \<Longrightarrow> \<not> tp_open q"
  by (erule tcp_stepE)
    (auto simp: tcp_defs split: watcher.splits option.splits handler.splits)

lemma tcp_closed_steps: "tcp_steps p q \<Longrightarrow> \<not> tp_open p \<Longrightarrow> \<not> tp_open q"
  by (induction rule: tcp_steps.induct) (auto dest: tcp_closed_step)

lemma tcp_steps_trans: "tcp_steps q r \<Longrightarrow> tcp_steps p q \<Longrightarrow> tcp_steps p r"
  by (induction rule: tcp_steps.induct) (auto intro: tcp_steps.intros)

section \<open>Properties of a proxy\<close>

text \<open>
  C22. A stopped proxy stays down. In every state that a new proxy can reach, in any
  interleaving of its goroutines, the accept loop has ended only with the listener
  closed and \<open>fin\<close> closed; every table entry is a connection whose goroutine is alive
  and deletes it; no connection and no backend is open without such a goroutine; and
  a listener that is closed is never open again.
\<close>

theorem tcp_proxy_safe:
  assumes "tcp_steps (tcp_start laddr to sig) p"
  shows "(\<not> tp_loop p \<longrightarrow> \<not> tp_open p \<and> tp_fin p)
    \<and> (\<forall>r i. tp_sess p r = Some i \<longrightarrow> (\<exists>h. tp_handlers p i = Some (r, h)))
    \<and> tp_conns p \<union> tp_backends p \<subseteq> dom (tp_handlers p)
    \<and> (\<not> tp_open p \<longrightarrow> (\<forall>q. tcp_steps p q \<longrightarrow> \<not> tp_open q))"
proof -
  have inv: "tcp_inv p" using assms tcp_inv_steps tcp_inv_start by blast
  then show ?thesis
    using tcp_closed_steps [of p] unfolding tcp_inv_def by fastforce
qed


definition tcp_sample :: tcp_proxy where
  "tcp_sample = tcp_store 0 (tcp_accept ''1.2.3.4:5'' (tcp_watch (tcp_start ''[::]:80'' ''10.0.0.2:80'' 7)))"

theorem tcp_proxy_safe_witness:
  "tp_sess tcp_sample ''1.2.3.4:5'' = Some 0 \<and> (\<exists>h. tp_handlers tcp_sample 0 = Some (''1.2.3.4:5'', h))"
proof -
  have "tcp_steps (tcp_start ''[::]:80'' ''10.0.0.2:80'' 7) tcp_sample"
    unfolding tcp_sample_def
    by (intro steps_step [OF _ step_store] steps_step [OF _ step_accept] steps_step [OF _ step_watch] steps_refl)
  from tcp_proxy_safe [OF this]
  have *: "\<forall>r i. tp_sess tcp_sample r = Some i \<longrightarrow> (\<exists>h. tp_handlers tcp_sample i = Some (r, h))"
    by blast
  have s: "tp_sess tcp_sample ''1.2.3.4:5'' = Some 0"
    by (simp add: tcp_sample_def tcp_start_def tcp_watch_def tcp_accept_def tcp_store_def)
  with * show ?thesis by blast
qed


end
