(* ===== verification/Udp_Proxy.thy ===== *)
theory Udp_Proxy
  imports Recycle
begin

text \<open>
  One running proxy of the udp plugin (\<open>opennotrd/plugin/udpproxy/udpproxy.go\<close>):
  the listener, the goroutine that waits for the recycle signal, the loop that reads
  datagrams, the tables of backend connections and of their last activity, the timer
  that expires sessions and the goroutine that copies each backend's answers.
  Times are nanoseconds; the comparison of seconds as floating-point numbers is the
  exact comparison here.
\<close>

section \<open>State\<close>

definition defaultTimeout :: int where
  "defaultTimeout = 30"

definition udp_interval :: "int \<Rightarrow> int" where
  "udp_interval timeout = (let interval = timeout div 2 in if interval \<le> 0 then timeout else interval)"

record udp_proxy =
  up_laddr :: string
  up_to :: string
  up_signal :: nat
  up_open :: bool
  up_watch :: watcher
  up_loop :: bool
  up_done :: bool
  up_sess :: "string \<rightharpoonup> nat"
  up_sessionTimeout :: "string \<rightharpoonup> int"
  up_conns :: "nat \<rightharpoonup> string"
  up_next :: nat

text \<open>
  \<open>up_done\<close>: the context is cancelled. \<open>up_conns\<close>: the open backend connections, each
  with the client's address to which its answers are copied.
\<close>

definition udp_start :: "string \<Rightarrow> string \<Rightarrow> nat \<Rightarrow> udp_proxy" where
  "udp_start laddr to sig =
     \<lparr>up_laddr = laddr, up_to = to, up_signal = sig, up_open = True, up_watch = Starting,
      up_loop = True, up_done = False, up_sess = Map.empty, up_sessionTimeout = Map.empty,
      up_conns = Map.empty, up_next = 0\<rparr>"

section \<open>Steps\<close>

definition udp_ready :: "nat \<Rightarrow> udp_proxy \<Rightarrow> bool" where
  "udp_ready sig p \<longleftrightarrow> up_signal p = sig \<and> up_watch p = Waiting"

definition udp_receive :: "udp_proxy \<Rightarrow> udp_proxy" where
  "udp_receive p = p\<lparr>up_watch := Received\<rparr>"

definition udp_stop :: "nat \<Rightarrow> udp_proxy \<Rightarrow> udp_proxy" where
  "udp_stop sig p = (if udp_ready sig p then udp_receive p else p)"

definition udp_watch :: "udp_proxy \<Rightarrow> udp_proxy" where
  "udp_watch p =
     (case up_watch p of
        Starting \<Rightarrow> p\<lparr>up_watch := Waiting\<rparr>
      | Received \<Rightarrow> p\<lparr>up_open := False, up_watch := Finished\<rparr>
      | Waiting \<Rightarrow> if up_done p then p\<lparr>up_watch := Finished\<rparr> else p
      | Finished \<Rightarrow> p)"

text \<open>The loop ends: the stored connections, the context and the listener are closed.\<close>

definition udp_exit :: "udp_proxy \<Rightarrow> udp_proxy" where
  "udp_exit p =
     (if up_loop p then
        p\<lparr>up_loop := False, up_conns := up_conns p |` (- ran (up_sess p)), up_done := True,
          up_open := False\<rparr>
      else p)"

text \<open>
  One turn of the loop for a datagram from \<open>key\<close>: the writes to backend connections
  (a closed one takes nothing, and the error is ignored) and the new state;
  \<open>dialled\<close> is the outcome of resolving and dialling the backend.
\<close>

definition udp_packet :: "bool \<Rightarrow> int \<Rightarrow> string \<Rightarrow> byte list \<Rightarrow> udp_proxy \<Rightarrow> (nat \<times> byte list) list \<times> udp_proxy" where
  "udp_packet dialled now key payload p =
     (if \<not> up_loop p \<or> \<not> up_open p then ([], p)
      else
        let p1 = (case up_sess p key of
                    Some _ \<Rightarrow> p
                  | None \<Rightarrow>
                      if dialled then
                        p\<lparr>up_sess := (up_sess p)(key \<mapsto> up_next p),
                          up_sessionTimeout := (up_sessionTimeout p)(key \<mapsto> now),
                          up_conns := (up_conns p)(up_next p \<mapsto> key), up_next := up_next p + 1\<rparr>
                      else udp_exit p)
        in (if \<not> up_loop p1 then ([], p1)
            else case up_sess p1 key of
                   None \<Rightarrow> ([], p1)
                 | Some c \<Rightarrow>
                     (if up_conns p1 c = None then [] else [(c, payload)],
                      p1\<lparr>up_sessionTimeout := (up_sessionTimeout p1)(key \<mapsto> now)\<rparr>)))"

text \<open>A tick of the timer, which no end of the proxy stops.\<close>

definition expired :: "int \<Rightarrow> int \<Rightarrow> int \<Rightarrow> bool" where
  "expired timeout now lastActiveAt \<longleftrightarrow> now - lastActiveAt > timeout * 1000000000"

definition udp_tick :: "int \<Rightarrow> int \<Rightarrow> udp_proxy \<Rightarrow> udp_proxy" where
  "udp_tick timeout now p =
     p\<lparr>up_sess := (\<lambda>k. case up_sessionTimeout p k of
          Some lastActiveAt \<Rightarrow> if expired timeout now lastActiveAt then None else up_sess p k
        | None \<Rightarrow> up_sess p k)\<rparr>"

text \<open>
  One turn of \<open>udpCopy\<close>: an answer of backend \<open>c\<close> goes to its client; a failed
  read (\<open>None\<close>) or a failed write ends the goroutine, which closes the connection.
\<close>

definition udpCopy :: "nat \<Rightarrow> byte list option \<Rightarrow> bool \<Rightarrow> udp_proxy \<Rightarrow> (string \<times> byte list) list \<times> udp_proxy" where
  "udpCopy c read written p =
     (case (up_conns p c, read) of
        (Some client, Some payload) \<Rightarrow>
          if up_open p \<and> written then ([(client, payload)], p)
          else ([], p\<lparr>up_conns := (up_conns p)(c := None)\<rparr>)
      | (Some client, None) \<Rightarrow> ([], p\<lparr>up_conns := (up_conns p)(c := None)\<rparr>)
      | (None, _) \<Rightarrow> ([], p))"

inductive udp_step :: "int \<Rightarrow> udp_proxy \<Rightarrow> udp_proxy \<Rightarrow> bool" for timeout :: int where
  ustep_stop: "udp_step timeout p (udp_stop sig p)"
| ustep_watch: "udp_step timeout p (udp_watch p)"
| ustep_exit: "udp_step timeout p (udp_exit p)"
| ustep_packet: "udp_step timeout p (snd (udp_packet dialled now key payload p))"
| ustep_tick: "udp_step timeout p (udp_tick timeout now p)"
| ustep_copy: "udp_step timeout p (snd (udpCopy c read written p))"

inductive_cases udp_stepE: "udp_step timeout p q"

inductive udp_steps :: "int \<Rightarrow> udp_proxy \<Rightarrow> udp_proxy \<Rightarrow> bool" for timeout :: int where
  usteps_refl: "udp_steps timeout p p"
| usteps_step: "udp_steps timeout p q \<Longrightarrow> udp_step timeout q r \<Longrightarrow> udp_steps timeout p r"

lemmas udp_defs =
  udp_stop_def udp_ready_def udp_receive_def udp_watch_def udp_exit_def udp_packet_def
  udp_tick_def udpCopy_def

section \<open>Invariant\<close>

definition udp_inv :: "udp_proxy \<Rightarrow> bool" where
  "udp_inv p \<longleftrightarrow>
     (up_done p \<longleftrightarrow> \<not> up_loop p) \<and> (\<not> up_loop p \<longrightarrow> \<not> up_open p) \<and>
     (up_watch p = Finished \<longrightarrow> \<not> up_open p) \<and>
     (\<forall>k c. up_sess p k = Some c \<longrightarrow> c < up_next p \<and> up_sessionTimeout p k \<noteq> None
        \<and> (up_conns p c = None \<or> up_conns p c = Some k)) \<and>
     (\<forall>c. up_conns p c \<noteq> None \<longrightarrow> c < up_next p)"

lemma udp_inv_sess:
  assumes "udp_inv p" and "up_sess p k = Some c"
  shows "up_conns p c = Some k \<or> up_conns p c = None" and "c < up_next p"
proof -
  have "\<forall>k c. up_sess p k = Some c \<longrightarrow> c < up_next p \<and> up_sessionTimeout p k \<noteq> None
      \<and> (up_conns p c = None \<or> up_conns p c = Some k)"
    using assms(1) unfolding udp_inv_def by (elim conjE)
  then show "up_conns p c = Some k \<or> up_conns p c = None" "c < up_next p"
    using assms(2) by (metis, metis)
qed

lemma udp_inv_start [simp]: "udp_inv (udp_start laddr to sig)"
  by (simp add: udp_inv_def udp_start_def)

lemma udp_inv_stop: "udp_inv p \<Longrightarrow> udp_inv (udp_stop sig p)"
  by (simp add: udp_inv_def udp_stop_def udp_ready_def udp_receive_def)

lemma udp_inv_watch: "udp_inv p \<Longrightarrow> udp_inv (udp_watch p)"
  by (auto simp: udp_inv_def udp_watch_def split: watcher.splits)

lemma udp_inv_exit: "udp_inv p \<Longrightarrow> udp_inv (udp_exit p)"
  by (auto simp: udp_inv_def udp_exit_def restrict_map_def)

lemma udp_tick_sess:
  "up_sess (udp_tick timeout now p) k = Some c \<longleftrightarrow> up_sess p k = Some c
    \<and> (\<forall>t. up_sessionTimeout p k = Some t \<longrightarrow> \<not> expired timeout now t)"
  by (auto simp: udp_tick_def split: option.splits)

lemma udp_tick_other [simp]:
  "up_sessionTimeout (udp_tick timeout now p) = up_sessionTimeout p"
  "up_conns (udp_tick timeout now p) = up_conns p" "up_next (udp_tick timeout now p) = up_next p"
  "up_open (udp_tick timeout now p) = up_open p" "up_loop (udp_tick timeout now p) = up_loop p"
  "up_done (udp_tick timeout now p) = up_done p" "up_watch (udp_tick timeout now p) = up_watch p"
  by (simp_all add: udp_tick_def)

lemma udp_inv_tick: "udp_inv p \<Longrightarrow> udp_inv (udp_tick timeout now p)"
  unfolding udp_inv_def udp_tick_sess udp_tick_other by blast

lemma udp_inv_copy: "udp_inv p \<Longrightarrow> udp_inv (snd (udpCopy c read written p))"
  by (auto simp: udp_inv_def udpCopy_def split: option.splits)

text \<open>A turn of the loop, by its four cases.\<close>

lemma udp_packet_cases:
  assumes "udp_inv p"
  obtains (down) "\<not> up_open p" "udp_packet d now k pl p = ([], p)"
  | (fail) "up_open p" "up_sess p k = None" "\<not> d" "udp_packet d now k pl p = ([], udp_exit p)"
  | (new) "up_open p" "up_sess p k = None" d
      "udp_packet d now k pl p = ([(up_next p, pl)],
         p\<lparr>up_sess := (up_sess p)(k \<mapsto> up_next p), up_sessionTimeout := (up_sessionTimeout p)(k \<mapsto> now),
           up_conns := (up_conns p)(up_next p \<mapsto> k), up_next := up_next p + 1\<rparr>)"
  | (known) c where "up_open p" "up_sess p k = Some c"
      "udp_packet d now k pl p = (if up_conns p c = None then [] else [(c, pl)],
         p\<lparr>up_sessionTimeout := (up_sessionTimeout p)(k \<mapsto> now)\<rparr>)"
proof (cases "up_open p")
  case False
  then show ?thesis using down by (simp add: udp_packet_def)
next
  case True
  then have "up_loop p" using assms by (auto simp: udp_inv_def)
  with True show ?thesis
    using fail new known
    by (cases "up_sess p k") (auto simp: udp_packet_def udp_exit_def Let_def split: if_splits)
qed

lemma udp_inv_packet:
  assumes "udp_inv p"
  shows "udp_inv (snd (udp_packet d now k pl p))"
  using assms
proof (cases rule: udp_packet_cases [where d = d and now = now and k = k and pl = pl])
  case down
  then show ?thesis using assms by simp
next
  case fail
  then show ?thesis using assms by (simp add: udp_inv_exit)
next
  case new
  have "up_sess p k' \<noteq> Some (up_next p)" for k' using assms unfolding udp_inv_def by (metis less_irrefl)
  with new assms show ?thesis by (auto simp: udp_inv_def less_Suc_eq)
next
  case (known c)
  then show ?thesis using assms by (auto simp: udp_inv_def)
qed

lemmas udp_inv_intros =
  udp_inv_stop udp_inv_watch udp_inv_exit udp_inv_tick udp_inv_copy udp_inv_packet

lemma udp_inv_step: "udp_step timeout p q \<Longrightarrow> udp_inv p \<Longrightarrow> udp_inv q"
  by (erule udp_stepE) (auto intro: udp_inv_intros)

lemma udp_inv_steps: "udp_steps timeout p q \<Longrightarrow> udp_inv p \<Longrightarrow> udp_inv q"
  by (induction rule: udp_steps.induct) (auto intro: udp_inv_step)

lemma udp_inv_reachable: "udp_steps timeout (udp_start laddr to sig) p \<Longrightarrow> udp_inv p"
  using udp_inv_steps udp_inv_start by blast

text \<open>A backend connection keeps the client that it was opened for.\<close>

lemma udp_conns_packet:
  assumes "udp_inv p" and "c < up_next p"
  shows "c < up_next (snd (udp_packet d now k pl p))
    \<and> (up_conns (snd (udp_packet d now k pl p)) c = up_conns p c
      \<or> up_conns (snd (udp_packet d now k pl p)) c = None)"
  using assms(1)
  by (cases rule: udp_packet_cases [where d = d and now = now and k = k and pl = pl])
    (use assms(2) in \<open>auto simp: udp_exit_def restrict_map_def\<close>)

lemma udp_conns_step:
  assumes "udp_step timeout p q" and "udp_inv p" and "c < up_next p"
  shows "c < up_next q \<and> (up_conns q c = up_conns p c \<or> up_conns q c = None)"
  using assms
  by (elim udp_stepE) (simp_all add: udp_conns_packet,
    auto simp: udp_stop_def udp_ready_def udp_receive_def udp_watch_def udp_exit_def udpCopy_def
      restrict_map_def split: watcher.splits option.splits)

lemma udp_conns_steps:
  assumes "udp_steps timeout p q" and "udp_inv p" and "c < up_next p"
  shows "c < up_next q \<and> (up_conns q c = up_conns p c \<or> up_conns q c = None)"
  using assms
proof (induction rule: udp_steps.induct)
  case (usteps_step p q r)
  have "udp_inv q" using usteps_step.hyps(1) usteps_step.prems(1) by (rule udp_inv_steps)
  then show ?case using udp_conns_step [OF usteps_step.hyps(2)] usteps_step by metis
qed simp

section \<open>Properties of a proxy\<close>


text \<open>
  A tick removes exactly the sessions whose last datagram is older than the
  timeout, and closes no connection: the expired session's backend connection stays
  open, and the client's next datagram gets another one beside it.
\<close>

theorem udp_tick_leaks:
  assumes "udp_inv p" and "up_sess p key = Some c" and "up_conns p c = Some key"
    and "up_sessionTimeout p key = Some t" and "expired timeout now t" and "up_open p"
  defines "q \<equiv> udp_tick timeout now p"
  shows "(\<forall>k i. up_sess q k = Some i \<longleftrightarrow> up_sess p k = Some i
      \<and> (\<forall>t. up_sessionTimeout p k = Some t \<longrightarrow> \<not> expired timeout now t))
    \<and> (\<exists>r. udp_packet True now key pl q = ([(up_next p, pl)], r) \<and> c \<noteq> up_next p
        \<and> up_conns r c = Some key \<and> up_conns r (up_next p) = Some key)"
proof
  show "\<forall>k i. up_sess q k = Some i \<longleftrightarrow> up_sess p k = Some i
      \<and> (\<forall>t. up_sessionTimeout p k = Some t \<longrightarrow> \<not> expired timeout now t)"
    by (simp add: q_def udp_tick_sess)
  have "up_sess q key = None" using assms by (simp add: q_def udp_tick_def)
  moreover have "udp_inv q" using assms by (simp add: q_def udp_inv_tick)
  moreover have "c < up_next p" using udp_inv_sess(2) [OF assms(1,2)] .
  ultimately show "\<exists>r. udp_packet True now key pl q = ([(up_next p, pl)], r) \<and> c \<noteq> up_next p
        \<and> up_conns r c = Some key \<and> up_conns r (up_next p) = Some key"
    using assms(3,6)
    by (elim udp_packet_cases [where d = True and now = now and k = key and pl = pl]) (simp_all add: q_def)
qed


definition udp_sample :: udp_proxy where
  "udp_sample = snd (udp_packet True 5 ''1.2.3.4:5'' [1] (udp_start ''[::]:53'' ''10.0.0.2:53'' 7))"

lemma udp_sample_state:
  "udp_sample = (udp_start ''[::]:53'' ''10.0.0.2:53'' 7)
     \<lparr>up_sess := [''1.2.3.4:5'' \<mapsto> 0], up_sessionTimeout := [''1.2.3.4:5'' \<mapsto> 5],
      up_conns := [0 \<mapsto> ''1.2.3.4:5''], up_next := 1\<rparr>"
  by (simp add: udp_sample_def udp_start_def udp_packet_def)

lemma udp_sample_reachable: "udp_steps 30 (udp_start ''[::]:53'' ''10.0.0.2:53'' 7) udp_sample"
  unfolding udp_sample_def by (intro usteps_step [OF _ ustep_packet] usteps_refl)


theorem udp_tick_leaks_witness:
  "\<exists>r. udp_packet True 40000000000 ''1.2.3.4:5'' [2] (udp_tick 30 40000000000 udp_sample) = ([(1, [2])], r)
    \<and> up_conns r 0 = Some ''1.2.3.4:5''"
proof -
  have "udp_inv udp_sample" using udp_inv_reachable [OF udp_sample_reachable] .
  from udp_tick_leaks [OF this, of "''1.2.3.4:5''" 0 5 30 40000000000 "[2]"] show ?thesis
    by (simp add: udp_sample_state udp_start_def expired_def) blast
qed


end
