(* ===== verification/Plugins.thy ===== *)
theory Plugins
  imports Tcp_Proxy Udp_Proxy "HOL-Library.Multiset"
begin

text \<open>
  The four plugins as the manager sees them: the dummy plugin
  (\<open>opennotrd/plugin/dummy\<close>), the http plugin, which tells a gateway about domains
  (\<open>opennotrd/plugin/restyproxy\<close>), and the operations of the tcp and udp plugins
  (\<open>opennotrd/plugin/tcpproxy\<close>, \<open>opennotrd/plugin/udpproxy\<close>) over the state that
  they share, and their registration (\<open>opennotrd/plugins.go\<close>).
\<close>

section \<open>The state that plugins act on\<close>

text \<open>
  \<open>wd_pending\<close>: the requests of goroutines that have been started; \<open>wd_sent\<close>: the
  requests in the order in which they are tried; what becomes of one (its URL can be
  refused, or the gateway fail) only decides what is written to the log. \<open>wd_resty\<close> is the
  configuration of each registered instance of the http plugin, by protocol.
\<close>

datatype request = POST string "byte list" | DELETE string

record world =
  wd_tcp :: "tcp_proxy list"
  wd_udp :: "udp_proxy list"
  wd_resty :: "string \<Rightarrow> string"
  wd_udp_timeout :: int
  wd_pending :: "request list"
  wd_sent :: "request list"

definition initial_world :: world where
  "initial_world = \<lparr>wd_tcp = [], wd_udp = [], wd_resty = (\<lambda>_. []), wd_udp_timeout = 0,
     wd_pending = [], wd_sent = []\<rparr>"

text \<open>
  The network of the host: the address that listening on an address binds, in a
  given state, and whether a UDP address resolves.
\<close>

record network =
  nw_listen :: "string \<Rightarrow> world \<Rightarrow> string option"
  nw_resolve :: "string \<Rightarrow> bool"
  nw_listenUDP :: "string \<Rightarrow> world \<Rightarrow> string option"

definition port_of :: "string \<Rightarrow> string" where
  "port_of hp = (case SplitHostPort hp of Inr (_, port) \<Rightarrow> port | Inl _ \<Rightarrow> [])"

section \<open>The dummy plugin\<close>

definition DummyPlugin :: "world IPlugin" where
  "DummyPlugin = \<lparr>plug_Setup = \<lambda>cfg w. (None, w), plug_StopProxy = \<lambda>item w. w,
     plug_RunProxy = \<lambda>item w. (Inr zero_ProxyTuple, w)\<rparr>"

section \<open>The http plugin\<close>

record AddUpstreamBody =
  ub_Scheme :: string
  ub_Host :: string
  ub_IP :: string
  ub_Port :: string

definition marshal_AddUpstreamBody :: "AddUpstreamBody \<Rightarrow> byte list" where
  "marshal_AddUpstreamBody b = bytes_of (json_print (JObj
     [(''scheme'', JStr (ub_Scheme b)), (''host'', JStr (ub_Host b)),
      (''ip'', JStr (ub_IP b)), (''port'', JStr (ub_Port b))]))"

definition member_RestyConfig :: "string member_step" where
  "member_RestyConfig m st =
     (let (k, v) = m in if key_is ''adminUrl'' k then set_str (\<lambda>s r. s) v st else st)"

definition RestyProxy_Setup :: "string \<Rightarrow> string \<Rightarrow> world \<Rightarrow> plugin_error option \<times> world" where
  "RestyProxy_Setup scheme config w =
     (case unmarshal member_RestyConfig [] (bytes_of config) of
        Inl err \<Rightarrow> (Some (BadConfig err), w)
      | Inr cfg \<Rightarrow> (None, w\<lparr>wd_resty := (wd_resty w)(scheme := cfg)\<rparr>))"

definition sendPostReq :: "string \<Rightarrow> AddUpstreamBody \<Rightarrow> request" where
  "sendPostReq adminUrl body = POST adminUrl (marshal_AddUpstreamBody body)"

definition sendDeleteReq :: "string \<Rightarrow> string \<Rightarrow> string \<Rightarrow> request" where
  "sendDeleteReq adminUrl host scheme =
     DELETE (adminUrl @ ''?host='' @ host @ ''&scheme='' @ scheme)"

text \<open>
  How a request ends, and the one message that is logged: the text, whether it is an error,
  and its values. The status of an answer is not looked at.
\<close>

datatype gateway = RefusedURL string | NoResponse string | BrokenBody string | Replied nat "byte list"

datatype resty_value = RV_Body AddUpstreamBody | RV_Text string

type_synonym resty_log = "bool \<times> string \<times> resty_value list"

definition sendPostReq_log :: "AddUpstreamBody \<Rightarrow> gateway \<Rightarrow> resty_log" where
  "sendPostReq_log body g =
     (case g of
        RefusedURL err \<Rightarrow> (True, ''request %v fail: %v'', [RV_Body body, RV_Text err])
      | NoResponse err \<Rightarrow> (True, ''request %v fail: %v'', [RV_Body body, RV_Text err])
      | BrokenBody err \<Rightarrow> (True, ''request %v fail: %v'', [RV_Body body, RV_Text err])
      | Replied status cnt \<Rightarrow> (False, ''set upstream %v reply: %s'', [RV_Body body, RV_Text (string_of cnt)]))"

definition sendDeleteReq_log :: "string \<Rightarrow> gateway \<Rightarrow> resty_log" where
  "sendDeleteReq_log host g =
     (case g of
        RefusedURL err \<Rightarrow> (True, ''delete host %s fail: %v'', [RV_Text host, RV_Text err])
      | NoResponse err \<Rightarrow> (True, ''delete host %s fail: %v'', [RV_Text host, RV_Text err])
      | BrokenBody err \<Rightarrow> (True, ''delete host %s fail: %v'', [RV_Text host, RV_Text err])
      | Replied status cnt \<Rightarrow> (False, ''delete upstream reply: %s'', [RV_Text (string_of cnt)]))"

lemma gateway_refusal_is_no_error:
  "\<not> fst (sendPostReq_log body (Replied status cnt)) \<and> \<not> fst (sendDeleteReq_log host (Replied status cnt))"
  by (simp add: sendPostReq_log_def sendDeleteReq_log_def)

text \<open>The POST is sent by a goroutine of its own, the DELETE before the operation returns.\<close>

definition RestyProxy_StopProxy :: "string \<Rightarrow> PluginMeta \<Rightarrow> world \<Rightarrow> world" where
  "RestyProxy_StopProxy scheme item w =
     w\<lparr>wd_sent := wd_sent w @ [sendDeleteReq (wd_resty w scheme) (pm_Domain item) (pm_Protocol item)]\<rparr>"

definition RestyProxy_RunProxy :: "string \<Rightarrow> PluginMeta \<Rightarrow> world \<Rightarrow> run_result \<times> world" where
  "RestyProxy_RunProxy scheme item w =
     (case SplitHostPort (pm_To item) of
        Inl err \<Rightarrow> (Inl (BadAddress err), w)
      | Inr (vip, port) \<Rightarrow>
          (let req = \<lparr>ub_Scheme = pm_Protocol item, ub_Host = pm_Domain item, ub_IP = vip, ub_Port = port\<rparr> in
           (Inr \<lparr>pt_Protocol = pm_Protocol item, pt_FromPort = [], pt_ToPort = port_of (pm_To item)\<rparr>,
            w\<lparr>wd_pending := wd_pending w @ [sendPostReq (wd_resty w scheme) req]\<rparr>)))"

text \<open>The goroutine of the \<open>i\<close>-th pending request runs.\<close>

definition deliver :: "nat \<Rightarrow> world \<Rightarrow> world" where
  "deliver i w =
     (if i < length (wd_pending w) then
        w\<lparr>wd_pending := take i (wd_pending w) @ drop (Suc i) (wd_pending w),
          wd_sent := wd_sent w @ [wd_pending w ! i]\<rparr>
      else w)"

definition RestyProxy :: "string \<Rightarrow> world IPlugin" where
  "RestyProxy scheme = \<lparr>plug_Setup = RestyProxy_Setup scheme,
     plug_StopProxy = RestyProxy_StopProxy scheme, plug_RunProxy = RestyProxy_RunProxy scheme\<rparr>"

section \<open>The tcp plugin\<close>

definition TCPProxy_StopProxy :: "PluginMeta \<Rightarrow> world \<Rightarrow> world" where
  "TCPProxy_StopProxy item w =
     w\<lparr>wd_tcp := offer (tcp_ready (pm_RecycleSignal item)) tcp_receive (wd_tcp w)\<rparr>"

definition TCPProxy_RunProxy :: "network \<Rightarrow> PluginMeta \<Rightarrow> world \<Rightarrow> run_result \<times> world" where
  "TCPProxy_RunProxy nw item w =
     (case nw_listen nw (pm_From item) w of
        None \<Rightarrow> (Inl ListenFail, w)
      | Some laddr \<Rightarrow>
          (Inr \<lparr>pt_Protocol = pm_Protocol item, pt_FromPort = port_of laddr, pt_ToPort = port_of (pm_To item)\<rparr>,
           w\<lparr>wd_tcp := wd_tcp w @ [tcp_start laddr (pm_To item) (pm_RecycleSignal item)]\<rparr>))"

definition TCPProxy :: "network \<Rightarrow> world IPlugin" where
  "TCPProxy nw = \<lparr>plug_Setup = \<lambda>config w. (None, w), plug_StopProxy = TCPProxy_StopProxy,
     plug_RunProxy = TCPProxy_RunProxy nw\<rparr>"

section \<open>The udp plugin\<close>

definition member_udp_config :: "int member_step" where
  "member_udp_config m st =
     (let (k, v) = m in
      if key_is ''sessionTimeout'' k then
        (case v of
           JNum s \<Rightarrow> (case parse_int s of Some i \<Rightarrow> (fst st, i) | None \<Rightarrow> (False, snd st))
         | JNull \<Rightarrow> st
         | _ \<Rightarrow> (False, snd st))
      else st)"

definition UDPProxy_Setup :: "string \<Rightarrow> world \<Rightarrow> plugin_error option \<times> world" where
  "UDPProxy_Setup rawMessage w =
     (case unmarshal member_udp_config 0 (bytes_of rawMessage) of
        Inl err \<Rightarrow> (Some (BadConfig err), w)
      | Inr t \<Rightarrow> (None, w\<lparr>wd_udp_timeout := (if t \<le> 0 then defaultTimeout else t)\<rparr>))"

definition UDPProxy_StopProxy :: "PluginMeta \<Rightarrow> world \<Rightarrow> world" where
  "UDPProxy_StopProxy item w =
     w\<lparr>wd_udp := offer (udp_ready (pm_RecycleSignal item)) udp_receive (wd_udp w)\<rparr>"

definition UDPProxy_RunProxy :: "network \<Rightarrow> PluginMeta \<Rightarrow> world \<Rightarrow> run_result \<times> world" where
  "UDPProxy_RunProxy nw item w =
     (if \<not> nw_resolve nw (pm_From item) then (Inl ResolveFail, w)
      else case nw_listenUDP nw (pm_From item) w of
        None \<Rightarrow> (Inl ListenFail, w)
      | Some laddr \<Rightarrow>
          (Inr \<lparr>pt_Protocol = pm_Protocol item, pt_FromPort = port_of laddr, pt_ToPort = port_of (pm_To item)\<rparr>,
           w\<lparr>wd_udp := wd_udp w @ [udp_start laddr (pm_To item) (pm_RecycleSignal item)]\<rparr>))"

definition UDPProxy :: "network \<Rightarrow> world IPlugin" where
  "UDPProxy nw = \<lparr>plug_Setup = UDPProxy_Setup, plug_StopProxy = UDPProxy_StopProxy,
     plug_RunProxy = UDPProxy_RunProxy nw\<rparr>"

section \<open>The registered plugins\<close>

definition registered :: "network \<Rightarrow> world PluginManager" where
  "registered nw =
     Register ''udp'' (UDPProxy nw) (Register ''tcp'' (TCPProxy nw)
       (Register ''h2c'' (RestyProxy ''h2c'') (Register ''https'' (RestyProxy ''https'')
         (Register ''http'' (RestyProxy ''http'') (Register ''dummy'' DummyPlugin pluginMgr)))))"

section \<open>The contract of the plugins\<close>

text \<open>
  What the manager and the server rely on: every operation of a registered plugin
  keeps an invariant of the state, and a run or a setup that fails changes nothing.
\<close>

locale plugin_table =
  fixes tbl :: "string \<rightharpoonup> 'w IPlugin"
    and winv :: "'w \<Rightarrow> bool"
  assumes setup_inv: "tbl p = Some plug \<Longrightarrow> winv w \<Longrightarrow> winv (snd (plug_Setup plug cfg w))"
    and stop_inv: "tbl p = Some plug \<Longrightarrow> winv w \<Longrightarrow> winv (plug_StopProxy plug item w)"
    and run_inv: "tbl p = Some plug \<Longrightarrow> winv w \<Longrightarrow> winv (snd (plug_RunProxy plug item w))"
    and run_fail: "tbl p = Some plug \<Longrightarrow> plug_RunProxy plug item w = (Inl e, w') \<Longrightarrow> w' = w"
    and setup_fail: "tbl p = Some plug \<Longrightarrow> plug_Setup plug cfg w = (Some e, w') \<Longrightarrow> w' = w"

context plugin_table begin

lemma Setup_inv:
  assumes "mg_plugins m = tbl" and "winv w"
  shows "winv (snd (Setup cfgs m w))"
  using assms(2)
proof (induction cfgs arbitrary: w)
  case (Cons c cfgs)
  obtain p cfg where c: "c = (p, cfg)" by (cases c)
  show ?case
  proof (cases "tbl p")
    case (Some plug)
    then show ?thesis
      using Cons setup_inv [OF Some, of w cfg] assms(1) c
      by (auto split: prod.splits option.splits)
  qed (use Cons assms(1) c in simp)
qed simp

lemma AddProxy_inv:
  assumes "mg_plugins m = tbl" and "winv w" and "AddProxy item m w = (r, m', w')"
  shows "winv w' \<and> mg_plugins m' = tbl"
  using assms run_inv [of "pm_Protocol item" _ w item]
  by (auto simp: AddProxy_def Let_def split: if_splits option.splits prod.splits sum.splits)

lemma AddProxy_fail_world:
  assumes "mg_plugins m = tbl" and "AddProxy item m w = (Inl e, m', w')"
  shows "m' = m \<and> w' = w"
  using assms run_fail [of "pm_Protocol item" _ item w]
  by (auto simp: AddProxy_def Let_def split: if_splits option.splits prod.splits sum.splits)

lemma DelProxy_inv:
  assumes "mg_plugins m = tbl" and "winv w"
  shows "winv (snd (DelProxy item m w)) \<and> mg_plugins (fst (DelProxy item m w)) = tbl"
  using assms stop_inv [of "pm_Protocol item" _ w item]
  by (auto simp: DelProxy_def Let_def split: option.splits)

end

definition world_inv :: "world \<Rightarrow> bool" where
  "world_inv w \<longleftrightarrow> (\<forall>p\<in>set (wd_tcp w). tcp_inv p) \<and> (\<forall>p\<in>set (wd_udp w). udp_inv p)"

lemma world_inv_initial [simp]: "world_inv initial_world"
  by (simp add: world_inv_def initial_world_def)

lemma registered_plugins [simp]:
  "mg_plugins (registered nw) = [''dummy'' \<mapsto> DummyPlugin, ''http'' \<mapsto> RestyProxy ''http'',
     ''https'' \<mapsto> RestyProxy ''https'', ''h2c'' \<mapsto> RestyProxy ''h2c'', ''tcp'' \<mapsto> TCPProxy nw,
     ''udp'' \<mapsto> UDPProxy nw]"
  "mg_routes (registered nw) = Map.empty"
  by (simp_all add: registered_def Register_def pluginMgr_def)

lemma registered_cases:
  assumes "mg_plugins (registered nw) p = Some plug"
  obtains (dummy) "p = ''dummy''" "plug = DummyPlugin"
  | (resty) "p = ''http'' \<or> p = ''https'' \<or> p = ''h2c''" "plug = RestyProxy p"
  | (tcp) "p = ''tcp''" "plug = TCPProxy nw"
  | (udp) "p = ''udp''" "plug = UDPProxy nw"
  using assms by (auto split: if_splits)

lemma tcp_offer_inv: "\<forall>p\<in>set ps. tcp_inv p \<Longrightarrow> \<forall>p\<in>set (offer (tcp_ready sig) tcp_receive ps). tcp_inv p"
  by (intro offer_all) (auto simp: tcp_inv_def tcp_ready_def tcp_receive_def)

lemma udp_offer_inv: "\<forall>p\<in>set ps. udp_inv p \<Longrightarrow> \<forall>p\<in>set (offer (udp_ready sig) udp_receive ps). udp_inv p"
  by (intro offer_all) (auto simp: udp_inv_def udp_ready_def udp_receive_def)

lemmas plugin_defs =
  DummyPlugin_def RestyProxy_def TCPProxy_def UDPProxy_def RestyProxy_Setup_def
  RestyProxy_StopProxy_def RestyProxy_RunProxy_def TCPProxy_StopProxy_def TCPProxy_RunProxy_def
  UDPProxy_Setup_def UDPProxy_StopProxy_def UDPProxy_RunProxy_def

interpretation reg: plugin_table "mg_plugins (registered nw)" world_inv
proof unfold_locales
  fix p plug w cfg item e w'
  assume p: "mg_plugins (registered nw) p = Some plug"
  show "world_inv w \<Longrightarrow> world_inv (snd (plug_Setup plug cfg w))"
    using p by (cases rule: registered_cases) (auto simp: plugin_defs world_inv_def split: sum.splits)
  show "world_inv w \<Longrightarrow> world_inv (plug_StopProxy plug item w)"
    using p by (cases rule: registered_cases)
      (auto simp: plugin_defs world_inv_def dest: tcp_offer_inv udp_offer_inv)
  show "world_inv w \<Longrightarrow> world_inv (snd (plug_RunProxy plug item w))"
    using p by (cases rule: registered_cases)
      (auto simp: plugin_defs world_inv_def Let_def split: sum.splits option.splits)
  show "plug_RunProxy plug item w = (Inl e, w') \<Longrightarrow> w' = w"
    using p by (cases rule: registered_cases)
      (auto simp: plugin_defs Let_def split: sum.splits option.splits if_splits)
  show "plug_Setup plug cfg w = (Some e, w') \<Longrightarrow> w' = w"
    using p by (cases rule: registered_cases)
      (auto simp: plugin_defs split: sum.splits)
qed

section \<open>The setup of the plugins\<close>

text \<open>What a configuration does to the state, and whether it is accepted.\<close>

definition cfg_ok :: "string \<times> string \<Rightarrow> bool" where
  "cfg_ok c = (let (p, cfg) = c in
     if p \<in> {''http'', ''https'', ''h2c''} then \<exists>u. unmarshal member_RestyConfig [] (bytes_of cfg) = Inr u
     else if p = ''udp'' then \<exists>t. unmarshal member_udp_config 0 (bytes_of cfg) = Inr t
     else p \<in> {''dummy'', ''tcp''})"

definition cfg_apply :: "string \<times> string \<Rightarrow> world \<Rightarrow> world" where
  "cfg_apply c w = (let (p, cfg) = c in
     if p \<in> {''http'', ''https'', ''h2c''} then
       w\<lparr>wd_resty := (wd_resty w)(p := projr (unmarshal member_RestyConfig [] (bytes_of cfg)))\<rparr>
     else if p = ''udp'' then
       (let t = projr (unmarshal member_udp_config 0 (bytes_of cfg)) in
        w\<lparr>wd_udp_timeout := (if t \<le> 0 then defaultTimeout else t)\<rparr>)
     else w)"

lemma Setup_one:
  "Setup ((p, cfg) # rest) (registered nw) w =
     (if cfg_ok (p, cfg) then Setup rest (registered nw) (cfg_apply (p, cfg) w)
      else (Some (case mg_plugins (registered nw) p of
              None \<Rightarrow> NotRegistered p
            | Some plug \<Rightarrow> the (fst (plug_Setup plug cfg w))), w))"
  by (auto simp: cfg_ok_def cfg_apply_def plugin_defs Let_def split: sum.splits)

lemma Setup_all: "\<forall>c\<in>set cfgs. cfg_ok c \<Longrightarrow> Setup cfgs (registered nw) w = (None, fold cfg_apply cfgs w)"
  by (induction cfgs arbitrary: w) (auto simp: Setup_one simp del: Setup.simps(2))

lemma Setup_some: "fst (Setup cfgs (registered nw) w) = None \<Longrightarrow> \<forall>c\<in>set cfgs. cfg_ok c"
proof (induction cfgs arbitrary: w)
  case (Cons c cfgs)
  obtain p cfg where c: "c = (p, cfg)" by (cases c)
  have "cfg_ok c" using Cons.prems unfolding c Setup_one by (auto split: if_splits)
  moreover have "\<forall>c\<in>set cfgs. cfg_ok c"
    using Cons.prems Cons.IH unfolding c Setup_one by (auto split: if_splits)
  ultimately show ?case by simp
qed simp

lemma cfg_apply_commute:
  "fst c \<noteq> fst d \<Longrightarrow> cfg_apply c \<circ> cfg_apply d = cfg_apply d \<circ> cfg_apply c"
  by (cases c; cases d) (auto simp: cfg_apply_def Let_def fun_eq_iff fun_upd_twist)

text \<open>
  The order in which \<open>Setup\<close> visits its map does not matter for its success nor,
  when it succeeds, for the configuration that the plugins end up with: it succeeds
  exactly when every protocol is registered and accepts its text.
\<close>

theorem setup_order:
  assumes "distinct (map fst cfgs)" and "mset cfgs' = mset cfgs"
  shows "(fst (Setup cfgs (registered nw) w) = None \<longleftrightarrow> (\<forall>c\<in>set cfgs. cfg_ok c))
    \<and> (fst (Setup cfgs' (registered nw) w) = None \<longleftrightarrow> fst (Setup cfgs (registered nw) w) = None)
    \<and> (fst (Setup cfgs (registered nw) w) = None \<longrightarrow>
        Setup cfgs' (registered nw) w = Setup cfgs (registered nw) w)"
proof -
  have set: "set cfgs' = set cfgs" using assms(2) by (rule mset_eq_setD)
  have ok: "fst (Setup cs (registered nw) w) = None \<longleftrightarrow> (\<forall>c\<in>set cs. cfg_ok c)" for cs
    using Setup_all [of cs nw w] Setup_some [of cs nw w] by fastforce
  have "fold cfg_apply cfgs' = fold cfg_apply cfgs"
  proof (rule fold_multiset_equiv)
    fix c d assume "c \<in> set cfgs'" "d \<in> set cfgs'"
    then show "cfg_apply c \<circ> cfg_apply d = cfg_apply d \<circ> cfg_apply c"
      using cfg_apply_commute [of c d] assms(1) set
      by (cases "c = d") (auto simp: distinct_map inj_on_def)
  qed (use assms(2) in simp)
  then show ?thesis using ok set Setup_all by metis
qed

section \<open>Routes\<close>

text \<open>
  C21. \<open>AddProxy\<close> on the registered plugins, in full: a key in use or an unknown
  protocol is refused, and so is a listener that cannot be had; every refusal leaves
  the routes and the state of the plugins as they were. A success adds the one route,
  keeps the invariant of every proxy, and the \<open>DelProxy\<close> of the same item makes the
  routes what they were before.
\<close>

theorem add_proxy_correct:
  assumes "mg_plugins m = mg_plugins (registered nw)" and "world_inv w"
    and "AddProxy item m w = (r, m', w')"
  shows "(case r of
      Inl e \<Rightarrow> m' = m \<and> w' = w
        \<and> (e = InUse (identify item) \<longleftrightarrow> identify item \<in> dom (mg_routes m))
    | Inr t \<Rightarrow> identify item \<notin> dom (mg_routes m)
        \<and> mg_routes m' = (mg_routes m)(identify item \<mapsto> item) \<and> world_inv w'
        \<and> pm_Protocol item \<in> dom (mg_plugins (registered nw))
        \<and> mg_routes (fst (DelProxy item m' w')) = mg_routes m
        \<and> world_inv (snd (DelProxy item m' w')))"
proof (cases r)
  case (Inl e)
  then have "m' = m \<and> w' = w"
    using reg.AddProxy_fail_world [OF assms(1)] assms(3) by blast
  moreover have "e = InUse (identify item) \<longleftrightarrow> identify item \<in> dom (mg_routes m)"
    using assms(1,3) Inl
    by (auto simp: AddProxy_def Let_def plugin_defs split: if_splits option.splits prod.splits sum.splits)
  ultimately show ?thesis using Inl by simp
next
  case (Inr t)
  have a: "mg_routes m (identify item) = None" "mg_routes m' = (mg_routes m)(identify item \<mapsto> item)"
      "pm_Protocol item \<in> dom (mg_plugins (registered nw))"
    using AddProxy_ok [of item m w t m' w'] assms(1,3) Inr
    by (auto simp del: registered_plugins(1))
  have i: "world_inv w'" "mg_plugins m' = mg_plugins (registered nw)"
    using reg.AddProxy_inv [OF assms] by auto
  have d: "mg_routes (fst (DelProxy item m' w')) = mg_routes m"
    using a(1,2) by auto
  show ?thesis using Inr a i d reg.DelProxy_inv [OF i(2,1), of item] by auto
qed

text \<open>
  A tcp proxy that is deleted before its waiting goroutine has reached the
  \<open>select\<close> is deleted in name only: the route is gone, so that its key can be added
  again, and the listener goes on accepting connections. Deleted after that moment,
  it closes.
\<close>

theorem tcp_del_race:
  assumes "mg_plugins m = mg_plugins (registered nw)" and "pm_Protocol item = ''tcp''"
    and "AddProxy item m w = (Inr t, m', w')"
    and "\<forall>p\<in>set (wd_tcp w). tp_signal p \<noteq> pm_RecycleSignal item"
  shows "\<exists>p. wd_tcp w' = wd_tcp w @ [p] \<and> tp_open p \<and> tp_loop p
    \<and> snd (DelProxy item m' w') = w' \<and> identify item \<notin> dom (mg_routes (fst (DelProxy item m' w')))
    \<and> wd_tcp (snd (DelProxy item m' (w'\<lparr>wd_tcp := wd_tcp w @ [tcp_watch p]\<rparr>)))
        = wd_tcp w @ [tcp_receive (tcp_watch p)]
    \<and> \<not> tp_open (tcp_watch (tcp_receive (tcp_watch p)))"
proof -
  obtain laddr where w': "w' = w\<lparr>wd_tcp := wd_tcp w @ [tcp_start laddr (pm_To item) (pm_RecycleSignal item)]\<rparr>"
    using AddProxy_ok [OF assms(3)] assms(1,2)
    by (auto simp: TCPProxy_def TCPProxy_RunProxy_def split: option.splits)
  let ?p = "tcp_start laddr (pm_To item) (pm_RecycleSignal item)"
  have m': "mg_plugins m' ''tcp'' = Some (TCPProxy nw)"
    using AddProxy_ok [OF assms(3)] assms(1) by simp
  have *: "\<not> tcp_ready (pm_RecycleSignal item) q" if "q \<in> set (wd_tcp w)" for q
    using assms(4) that by (auto simp: tcp_ready_def)
  have "\<not> tcp_ready (pm_RecycleSignal item) ?p" "tcp_ready (pm_RecycleSignal item) (tcp_watch ?p)"
    by (simp_all add: tcp_ready_def tcp_start_def tcp_watch_def)
  then have "offer (tcp_ready (pm_RecycleSignal item)) tcp_receive (wd_tcp w @ [?p]) = wd_tcp w @ [?p]"
    "offer (tcp_ready (pm_RecycleSignal item)) tcp_receive (wd_tcp w @ [tcp_watch ?p])
      = wd_tcp w @ [tcp_receive (tcp_watch ?p)]"
    using * by (auto intro!: offer_none offer_first)
  then have "snd (DelProxy item m' w') = w'"
      "wd_tcp (snd (DelProxy item m' (w'\<lparr>wd_tcp := wd_tcp w @ [tcp_watch ?p]\<rparr>)))
        = wd_tcp w @ [tcp_receive (tcp_watch ?p)]"
    using m' assms(2) w' by (simp_all add: DelProxy_def Let_def TCPProxy_def TCPProxy_StopProxy_def)
  then show ?thesis
    using w' by (intro exI [of _ ?p]) (simp add: tcp_start_def tcp_watch_def tcp_receive_def)
qed

text \<open>
  The http plugin adds a domain in a goroutine and removes it at once: when the
  proxy is deleted before that goroutine has run, the gateway gets the DELETE first
  and keeps the domain of a client that has gone.
\<close>

theorem resty_stale_upstream:
  assumes "SplitHostPort (pm_To item) = Inr (vip, port)" and "wd_pending w = []"
  shows "\<exists>post del w1. RestyProxy_RunProxy s item w = (Inr \<lparr>pt_Protocol = pm_Protocol item,
        pt_FromPort = [], pt_ToPort = port\<rparr>, w1)
    \<and> wd_sent (deliver 0 (RestyProxy_StopProxy s item w1)) = wd_sent w @ [del, post]
    \<and> wd_sent (RestyProxy_StopProxy s item (deliver 0 w1)) = wd_sent w @ [post, del]
    \<and> post = POST (wd_resty w s) (marshal_AddUpstreamBody \<lparr>ub_Scheme = pm_Protocol item,
        ub_Host = pm_Domain item, ub_IP = vip, ub_Port = port\<rparr>)
    \<and> del = DELETE (wd_resty w s @ ''?host='' @ pm_Domain item @ ''&scheme='' @ pm_Protocol item)"
  using assms
  by (simp add: RestyProxy_RunProxy_def RestyProxy_StopProxy_def deliver_def port_of_def
      sendPostReq_def sendDeleteReq_def)

definition sample_net :: network where
  "sample_net = \<lparr>nw_listen = \<lambda>a w. Some a, nw_resolve = \<lambda>a. True, nw_listenUDP = \<lambda>a w. Some a\<rparr>"

definition sample_item :: "string \<Rightarrow> PluginMeta" where
  "sample_item p = \<lparr>pm_Protocol = p, pm_From = ''0.0.0.0:80'', pm_To = ''10.0.0.2:8080'',
     pm_Domain = ''a.b'', pm_Ctx = [], pm_RecycleSignal = 0\<rparr>"

lemma sample_item_sel [simp]:
  "pm_Protocol (sample_item p) = p" "pm_RecycleSignal (sample_item p) = 0" "pm_Domain (sample_item p) = ''a.b''"
  "pm_To (sample_item p) = ''10.0.0.2'' @ CHR '':'' # ''8080''"
  by (simp_all add: sample_item_def)

lemma sample_tcp_added:
  "\<exists>t m' w'. AddProxy (sample_item ''tcp'') (registered sample_net) initial_world = (Inr t, m', w')"
  by (simp add: AddProxy_def Let_def TCPProxy_def TCPProxy_RunProxy_def sample_net_def)

theorem setup_order_witness:
  "Setup [(''tcp'', []), (''dummy'', [])] (registered sample_net) initial_world
     = Setup [(''dummy'', []), (''tcp'', [])] (registered sample_net) initial_world"
  using setup_order [of "[(''dummy'', []), (''tcp'', [])]" "[(''tcp'', []), (''dummy'', [])]" sample_net initial_world]
  by (simp add: cfg_ok_def add_mset_commute)

theorem add_proxy_correct_witness:
  "\<exists>t m' w'. AddProxy (sample_item ''tcp'') (registered sample_net) initial_world = (Inr t, m', w')
    \<and> mg_routes (fst (DelProxy (sample_item ''tcp'') m' w')) = Map.empty"
proof -
  obtain t m' w' where a: "AddProxy (sample_item ''tcp'') (registered sample_net) initial_world = (Inr t, m', w')"
    using sample_tcp_added by blast
  from add_proxy_correct [OF refl world_inv_initial this] show ?thesis using a by (auto simp del: registered_plugins(1))
qed

theorem tcp_del_race_witness:
  "\<exists>t m' w' p. AddProxy (sample_item ''tcp'') (registered sample_net) initial_world = (Inr t, m', w')
    \<and> wd_tcp (snd (DelProxy (sample_item ''tcp'') m' w')) = [p] \<and> tp_open p"
proof -
  obtain t m' w' where a: "AddProxy (sample_item ''tcp'') (registered sample_net) initial_world = (Inr t, m', w')"
    using sample_tcp_added by blast
  have "wd_tcp initial_world = []" by (simp add: initial_world_def)
  with tcp_del_race [OF refl _ a] a show ?thesis by fastforce
qed

theorem resty_stale_upstream_witness:
  "\<exists>post del w1. wd_sent (deliver 0 (RestyProxy_StopProxy ''http'' (sample_item ''http'') w1)) = [del, post]"
proof -
  have "SplitHostPort (pm_To (sample_item ''http'')) = Inr (''10.0.0.2'', ''8080'')"
    unfolding sample_item_sel by (rule SplitHostPort_plain) (simp_all add: plain_host_def)
  from resty_stale_upstream [OF this, of initial_world "''http''"] show ?thesis
    by (auto simp: initial_world_def)
qed

end
