(* ===== verification/Session.thy ===== *)
theory Session
  imports Prelude
begin

text \<open>
  The session manager (\<open>opennotrd/core/session.go\<close>): the table from virtual
  addresses to the multiplexed connections of the clients. Every operation of the
  concurrent map is atomic.
\<close>

record Session =
  ss_conn :: nat
  ss_rxbytes :: u64
  ss_txbytes :: u64

record SessionManager =
  sm_sessions :: "string \<rightharpoonup> Session"

definition sessionMgr :: SessionManager where
  "sessionMgr = \<lparr>sm_sessions = Map.empty\<rparr>"

definition newSession :: "nat \<Rightarrow> string \<Rightarrow> Session" where
  "newSession conn vip = \<lparr>ss_conn = conn, ss_rxbytes = 0, ss_txbytes = 0\<rparr>"

definition AddSession :: "string \<Rightarrow> Session \<Rightarrow> SessionManager \<Rightarrow> SessionManager" where
  "AddSession vip sess mgr = mgr\<lparr>sm_sessions := (sm_sessions mgr)(vip \<mapsto> sess)\<rparr>"

definition GetSession :: "string \<Rightarrow> SessionManager \<Rightarrow> Session option" where
  "GetSession vip mgr =
     (case sm_sessions mgr vip of
        None \<Rightarrow> None
      | Some val \<Rightarrow> Some val)"

definition DeleteSession :: "string \<Rightarrow> SessionManager \<Rightarrow> SessionManager" where
  "DeleteSession vip mgr = mgr\<lparr>sm_sessions := (sm_sessions mgr)(vip := None)\<rparr>"

section \<open>The interface of a table\<close>

text \<open>
  What the server, which adds and deletes sessions, and the forwarders, which look
  them up, rely on.
\<close>

locale session_table =
  fixes lookup :: "'k \<Rightarrow> 't \<Rightarrow> 'v option"
    and insert_at :: "'k \<Rightarrow> 'v \<Rightarrow> 't \<Rightarrow> 't"
    and delete_at :: "'k \<Rightarrow> 't \<Rightarrow> 't"
    and empty_table :: 't
  assumes lookup_empty: "lookup k empty_table = None"
    and lookup_insert: "lookup k (insert_at k' v t) = (if k = k' then Some v else lookup k t)"
    and lookup_delete: "lookup k (delete_at k' t) = (if k = k' then None else lookup k t)"

context session_table begin

text \<open>The sessions that owners have added and not deleted are exactly those of the table.\<close>

lemma insert_fresh_delete:
  "lookup k t = None \<Longrightarrow> lookup k' (delete_at k (insert_at k v t)) = lookup k' t"
  by (simp add: lookup_insert lookup_delete)

lemma owned_insert:
  assumes "\<And>k. lookup k t = own k" and "own k = None"
  shows "lookup k' (insert_at k v t) = (own(k \<mapsto> v)) k'"
  using assms by (simp add: lookup_insert)

lemma owned_delete:
  assumes "\<And>k. lookup k t = own k"
  shows "lookup k' (delete_at k t) = (own(k := None)) k'"
  using assms by (simp add: lookup_delete)

end

interpretation sess: session_table GetSession AddSession DeleteSession sessionMgr
  by unfold_locales
    (simp_all add: GetSession_def AddSession_def DeleteSession_def sessionMgr_def split: option.splits)

end
