(* ===== verification/Resolver.thy ===== *)
theory Resolver
  imports Json
begin

text \<open>
  The resolver (\<open>opennotrd/core/resolver.go\<close>) and the texts that the server makes
  for it (\<open>randomDomain\<close> and \<open>publicIP\<close> of \<open>opennotrd/core/server.go\<close>). The etcd
  store is the list of the writes that it has got; whether a write succeeds is the
  store's answer.
\<close>

section \<open>Random domains\<close>

definition ALPHABET :: string where
  "ALPHABET = ''123456789abcdefghijklmnopqrstuvwxyz''"

text \<open>An \<open>int64\<close>, which the loop only divides: it never leaves its range.\<close>

function randomDomain :: "int \<Rightarrow> string" where
  "randomDomain num =
     (if num > 0 then ALPHABET ! nat (num mod 35) # randomDomain (num div 35) else [])"
  by pat_completeness auto
termination by (relation "measure nat") auto

declare randomDomain.simps [simp del]

section \<open>The public address\<close>

text \<open>
  The part of the answer's body before its last newline. \<open>None\<close> is a panic: of the
  failed request or the failed read (an argument \<open>None\<close>), or of \<open>str[:-1]\<close> when there
  is no newline.
\<close>

definition publicIP :: "string option \<Rightarrow> string option" where
  "publicIP resp =
     (case resp of
        None \<Rightarrow> None
      | Some str \<Rightarrow>
          (case rcut (CHR 0x0A) str of
             None \<Rightarrow> None
           | Some (before, after) \<Rightarrow> Some before))"

section \<open>Applying a domain\<close>

definition marshal_record :: "string \<Rightarrow> byte list" where
  "marshal_record host = bytes_of (json_print (JObj [(''host'', JStr host)]))"

definition skydns_key :: "string \<Rightarrow> string" where
  "skydns_key domain =
     fold (\<lambda>s key. key @ ''/'' @ s) (rev (split_on CHR ''.'' domain)) ''/skydns''"

definition ApplyDomain ::
  "(string \<Rightarrow> byte list \<Rightarrow> bool) \<Rightarrow> string \<Rightarrow> string \<Rightarrow> (string \<times> byte list) list
    \<Rightarrow> bool \<times> (string \<times> byte list) list" where
  "ApplyDomain put domain ip store =
     (let sp = split_on CHR ''.'' domain in
      if length sp = 0 then (False, store)
      else
        let key = skydns_key domain; b = marshal_record ip
        in if put key b then (True, store @ [(key, b)]) else (False, store))"

section \<open>Random domains are different and short\<close>

lemma ALPHABET_length [simp]: "length ALPHABET = 35"
  by (simp add: ALPHABET_def)

lemma ALPHABET_distinct: "distinct ALPHABET"
  by (simp add: ALPHABET_def)

lemma randomDomain_pos: "0 < num \<Longrightarrow>
    randomDomain num = ALPHABET ! nat (num mod 35) # randomDomain (num div 35)"
  by (subst randomDomain.simps) simp

lemma randomDomain_0 [simp]: "num \<le> 0 \<Longrightarrow> randomDomain num = []"
  by (subst randomDomain.simps) simp

lemma randomDomain_chars: "set (randomDomain num) \<subseteq> set ALPHABET"
proof (induction num rule: randomDomain.induct)
  case (1 num)
  show ?case
  proof (cases "0 < num")
    case True
    have "nat (num mod 35) < length ALPHABET" by simp
    then have "ALPHABET ! nat (num mod 35) \<in> set ALPHABET" by (rule nth_mem)
    then show ?thesis using 1 True by (simp add: randomDomain_pos)
  qed simp
qed

lemma randomDomain_inj:
  "0 < m \<Longrightarrow> 0 < n \<Longrightarrow> randomDomain m = randomDomain n \<Longrightarrow> m = n"
proof (induction m arbitrary: n rule: randomDomain.induct)
  case (1 m)
  then have eq: "ALPHABET ! nat (m mod 35) = ALPHABET ! nat (n mod 35)"
      "randomDomain (m div 35) = randomDomain (n div 35)"
    by (simp_all add: randomDomain_pos)
  have "nat (m mod 35) = nat (n mod 35)"
    using eq(1) ALPHABET_distinct by (simp add: nth_eq_iff_index_eq)
  then have "m mod 35 = n mod 35" by simp
  moreover have "m div 35 = n div 35"
  proof (cases "0 < m div 35")
    case True
    then have "0 < n div 35" using eq(2) by (metis list.distinct(1) not_le randomDomain_0 randomDomain_pos)
    then show ?thesis using 1(1) [OF 1(2) True _ eq(2)] by simp
  next
    case False
    then have "\<not> 0 < n div 35" using eq(2) by (metis list.distinct(1) not_le randomDomain_0 randomDomain_pos)
    then show ?thesis using False 1(2,3) by simp
  qed
  ultimately show "m = n" by (metis mult_div_mod_eq)
qed

lemma randomDomain_length: "num < 35 ^ k \<Longrightarrow> length (randomDomain num) \<le> k"
proof (induction k arbitrary: num)
  case (Suc k)
  show ?case
  proof (cases "0 < num")
    case True
    have "num div 35 < 35 ^ k" using Suc.prems by simp
    then show ?thesis using Suc.IH [of "num div 35"] True by (simp add: randomDomain_pos)
  qed simp
qed simp

text \<open>
  C28. \<open>randomDomain\<close> returns on every number. On two different positive times it
  gives two different names, of at most 13 characters for any \<open>int64\<close> and all of them
  from its alphabet (so without a dot); a time that is not positive gives the empty
  name.
\<close>

theorem random_domains:
  assumes "m < 2 ^ 63"
  shows "(0 < m \<longrightarrow> 0 < n \<longrightarrow> m \<noteq> n \<longrightarrow> randomDomain m \<noteq> randomDomain n)
    \<and> length (randomDomain m) \<le> 13 \<and> set (randomDomain m) \<subseteq> set ALPHABET
    \<and> CHR ''.'' \<notin> set (randomDomain m) \<and> (randomDomain m = [] \<longleftrightarrow> m \<le> 0)"
proof -
  have "m < 35 ^ 13" using assms by simp
  then have "length (randomDomain m) \<le> 13" by (rule randomDomain_length)
  moreover have "CHR ''.'' \<notin> set ALPHABET" by (simp add: ALPHABET_def)
  moreover have "randomDomain m = [] \<longleftrightarrow> m \<le> 0" by (cases "0 < m") (simp_all add: randomDomain_pos)
  ultimately show ?thesis using randomDomain_inj randomDomain_chars [of m] by blast
qed

theorem random_domains_witness:
  "randomDomain 1600000000000000000 \<noteq> randomDomain 1600000000000000001"
  using random_domains [of 1600000000000000000 1600000000000000001] by simp

section \<open>Different domains have different keys\<close>

lemma fold_key: "fold (\<lambda>s key. key @ ''/'' @ s) xs k = k @ concat (map (\<lambda>s. ''/'' @ s) xs)"
  by (induction xs arbitrary: k) simp_all

lemma key_join: "xs \<noteq> [] \<Longrightarrow> concat (map (\<lambda>s. ''/'' @ s) xs) = CHR ''/'' # join ''/'' xs"
  by (induction xs rule: induct_list012) simp_all

lemma skydns_key_join: "skydns_key domain = ''/skydns/'' @ join ''/'' (rev (split_on CHR ''.'' domain))"
  by (simp add: skydns_key_def fold_key key_join del: append_Cons)

text \<open>The domain that a key stands for.\<close>

definition domain_of_key :: "string \<Rightarrow> string" where
  "domain_of_key key = join ''.'' (rev (split_on CHR ''/'' (drop 8 key)))"

lemma set_split_on: "p \<in> set (split_on c s) \<Longrightarrow> set p \<subseteq> set s"
proof (induction s arbitrary: p)
  case (Cons x xs)
  then show ?case by (cases "split_on c xs") (fastforce split: if_splits)+
qed simp

text \<open>
  The key under which \<open>ApplyDomain\<close> writes a domain without a slash determines
  the domain: its labels, the last one first, below \<open>/skydns\<close>. The record written
  there reads back as the address, and a refused write leaves the store alone.
\<close>

theorem skydns_key_roundtrip:
  assumes "CHR ''/'' \<notin> set domain"
  shows "domain_of_key (skydns_key domain) = domain
    \<and> (\<exists>store'. ApplyDomain put domain ip store = (put (skydns_key domain) (marshal_record ip), store')
        \<and> store' = (if put (skydns_key domain) (marshal_record ip)
                    then store @ [(skydns_key domain, marshal_record ip)] else store))
    \<and> json_parse (string_of (marshal_record ip)) = Some (JObj [(''host'', JStr ip)])"
proof -
  have "\<forall>p\<in>set (rev (split_on CHR ''.'' domain)). CHR ''/'' \<notin> set p"
    using assms set_split_on by fastforce
  then have "split_on CHR ''/'' (drop 8 (skydns_key domain)) = rev (split_on CHR ''.'' domain)"
    using split_on_join [of "rev (split_on CHR ''.'' domain)" "CHR ''/''"] by (simp add: skydns_key_join)
  then have "domain_of_key (skydns_key domain) = domain"
    by (simp add: domain_of_key_def)
  moreover have "json_parse (string_of (marshal_record ip)) = Some (JObj [(''host'', JStr ip)])"
    using json_parse_print [of "JObj [(''host'', JStr ip)]"] by (simp add: marshal_record_def del: json_print.simps)
  ultimately show ?thesis by (simp add: ApplyDomain_def Let_def)
qed

theorem skydns_key_roundtrip_witness:
  "domain_of_key (skydns_key ''a.notr.tech'') = ''a.notr.tech''"
  using skydns_key_roundtrip [of "''a.notr.tech''" "\<lambda>k v. True" "''1.2.3.4''" "[]"] by simp

end
