(* ===== verification/Dhcp.thy ===== *)
theory Dhcp
  imports Prelude "HOL-Library.Signed_Division"
begin

unbundle bit_operations_syntax

text \<open>
  The pool of virtual addresses (\<open>opennotrd/core/dhcp.go\<close>): the address range of
  a CIDR string in 32-bit signed arithmetic, its texts, and the two maps of free
  and used addresses. A map used as a set is the list of its keys in the order in
  which a \<open>range\<close> over it visits them; where the code takes whichever key comes
  first, the model takes an index that says which one that is. The CIDR parser
  covers IPv4 (\<open>net.ParseCIDR\<close> on the other texts leads to an error here; the
  IPv4-mapped IPv6 form \<open>::ffff:a.b.c.d/n\<close> is not modelled).
\<close>

type_synonym i32 = "32 word"

datatype dhcp_error = ParseCIDRError | NoAvailableIP

section \<open>Parsing a CIDR text\<close>

definition dtoi :: "string \<Rightarrow> (nat \<times> nat) option" where
  "dtoi s =
     (let ds = takeWhile is_digit s; n = undec ds
      in if ds = [] \<or> n \<ge> 0xFFFFFF then None else Some (n, length ds))"

text \<open>\<open>k\<close> numbers remain; \<open>first\<close> holds before the first one, which has no dot.\<close>

fun parse_quads :: "nat \<Rightarrow> bool \<Rightarrow> string \<Rightarrow> byte list option" where
  "parse_quads 0 first s = (if s = [] then Some [] else None)"
| "parse_quads (Suc k) first s =
     (if s = [] \<or> \<not> first \<and> hd s \<noteq> CHR ''.'' then None
      else (let t = (if first then s else tl s) in
        case dtoi t of
          None \<Rightarrow> None
        | Some (n, c) \<Rightarrow>
            if n > 255 then None
            else map_option (\<lambda>bs. word_of_nat n # bs) (parse_quads k False (drop c t))))"

definition parseIPv4 :: "string \<Rightarrow> byte list option" where
  "parseIPv4 s = parse_quads 4 True s"

definition ParseCIDR :: "string \<Rightarrow> (byte list \<times> nat) option" where
  "ParseCIDR s =
     (case cut CHR ''/'' s of
        None \<Rightarrow> None
      | Some (addr, msk) \<Rightarrow>
          (case (parseIPv4 addr, dtoi msk) of
             (Some ip, Some (n, c)) \<Rightarrow>
               if c \<noteq> length msk \<or> n > 32 then None else Some (ip, n)
           | _ \<Rightarrow> None))"

section \<open>The range and its texts\<close>

definition be32 :: "byte list \<Rightarrow> i32" where
  "be32 ip = push_bit 24 (ucast (ip ! 0)) + push_bit 16 (ucast (ip ! 1))
     + push_bit 8 (ucast (ip ! 2)) + ucast (ip ! 3)"

definition range_end :: "i32 \<Rightarrow> nat \<Rightarrow> i32" where
  "range_end b one = b OR (push_bit (32 - one) 1 - 1)"

definition getIPRange :: "string \<Rightarrow> dhcp_error + (i32 \<times> i32)" where
  "getIPRange cidr =
     (case ParseCIDR cidr of
        None \<Rightarrow> Inl ParseCIDRError
      | Some (ipv4, one) \<Rightarrow>
          (let begin' = be32 ipv4; end' = range_end begin' one
           in Inr (begin', end')))"

definition toIP :: "i32 \<Rightarrow> string" where
  "toIP iip =
     dec (unat (ucast (signed_drop_bit 24 iip) :: byte)) @ ''.'' @
     dec (unat (ucast (signed_drop_bit 16 iip) :: byte)) @ ''.'' @
     dec (unat (ucast (signed_drop_bit 8 iip) :: byte)) @ ''.'' @
     dec (unat (ucast iip :: byte))"

section \<open>The pool\<close>

record DHCP =
  dh_cidr :: string
  dh_localIP :: string
  dh_free :: "string list"
  dh_inuse :: "string list"

text \<open>The loop \<open>for i := begin + 1; i < end; i++\<close>, with its signed comparison.\<close>

lemma sint_Suc:
  assumes "i <s (e :: i32)"
  shows "sint (i + 1) = sint i + 1"
proof -
  have "sint i < sint e" using assms by (simp add: word_sless_alt)
  moreover have "sint e < 2 ^ 31" "- (2 ^ 31) \<le> sint i"
    using sint_lt [of e] sint_ge [of i] by simp_all
  ultimately show ?thesis
    by (simp add: sint_word_add signed_take_bit_int_eq_self)
qed

function fill_free :: "i32 \<Rightarrow> i32 \<Rightarrow> string list \<Rightarrow> string list" where
  "fill_free i end' m =
     (if i <s end' then fill_free (i + 1) end' (List.insert (toIP i) m) else m)"
  by pat_completeness auto
termination
  by (relation "measure (\<lambda>(i, e, m). nat (sint e - sint i))")
    (auto simp: sint_Suc word_sless_alt)

declare fill_free.simps [simp del]

definition NewDHCP :: "string \<Rightarrow> dhcp_error + DHCP" where
  "NewDHCP cidr =
     (case getIPRange cidr of
        Inl err \<Rightarrow> Inl err
      | Inr (begin', end') \<Rightarrow>
          (let free = fill_free (begin' + 1) end' [] in
           Inr \<lparr>dh_cidr = cidr, dh_localIP = toIP begin', dh_free = free, dh_inuse = []\<rparr>))"

definition GetCIDR :: "DHCP \<Rightarrow> string" where
  "GetCIDR g = dh_cidr g"

text \<open>
  \<open>SelectIP\<close> hands out the first key that the iteration visits: here the one at
  index \<open>k\<close> modulo the size, for an arbitrary \<open>k\<close>.
\<close>

definition SelectIP :: "nat \<Rightarrow> DHCP \<Rightarrow> (dhcp_error + string) \<times> DHCP" where
  "SelectIP k g =
     (case dh_free g of
        [] \<Rightarrow> (Inl NoAvailableIP, g)
      | _ \<Rightarrow>
          (let ip = dh_free g ! (k mod length (dh_free g)) in
           (Inr ip, g\<lparr>dh_free := remove1 ip (dh_free g), dh_inuse := List.insert ip (dh_inuse g)\<rparr>)))"

definition ReleaseIP :: "string \<Rightarrow> DHCP \<Rightarrow> DHCP" where
  "ReleaseIP ip g =
     g\<lparr>dh_free := List.insert ip (dh_free g), dh_inuse := removeAll ip (dh_inuse g)\<rparr>"

section \<open>Different addresses have different texts\<close>

lemma toIP_join: "toIP a = join ''.''
    [dec (unat (ucast (signed_drop_bit 24 a) :: byte)), dec (unat (ucast (signed_drop_bit 16 a) :: byte)),
     dec (unat (ucast (signed_drop_bit 8 a) :: byte)), dec (unat (ucast a :: byte))]"
  by (simp add: toIP_def)

lemma toIP_inj: "toIP a = toIP b \<longleftrightarrow> a = b"
proof
  assume "toIP a = toIP b"
  then have "split_on CHR ''.'' (toIP a) = split_on CHR ''.'' (toIP b)" by simp
  then have "(ucast (signed_drop_bit 24 a) :: byte) = ucast (signed_drop_bit 24 b)"
      "(ucast (signed_drop_bit 16 a) :: byte) = ucast (signed_drop_bit 16 b)"
      "(ucast (signed_drop_bit 8 a) :: byte) = ucast (signed_drop_bit 8 b)"
      "(ucast a :: byte) = ucast b"
    by (simp_all add: toIP_join split_on_join word_unat_eq_iff del: join.simps)
  then have eq: "bit (ucast (signed_drop_bit 24 a) :: byte) n = bit (ucast (signed_drop_bit 24 b) :: byte) n"
      "bit (ucast (signed_drop_bit 16 a) :: byte) n = bit (ucast (signed_drop_bit 16 b) :: byte) n"
      "bit (ucast (signed_drop_bit 8 a) :: byte) n = bit (ucast (signed_drop_bit 8 b) :: byte) n"
      "bit (ucast a :: byte) n = bit (ucast b :: byte) n" for n
    by simp_all
  show "a = b"
  proof (rule bit_word_eqI)
    fix n :: nat assume "n < LENGTH(32)"
    then have "n < 32" by simp
    then have "n < 8 \<or> (\<exists>m<8. n = 8 + m) \<or> (\<exists>m<8. n = 16 + m) \<or> (\<exists>m<8. n = 24 + m)"
      by presburger
    then consider "n < 8" | m where "n = 8 + m" "m < 8" | m where "n = 16 + m" "m < 8"
      | m where "n = 24 + m" "m < 8"
      by blast
    then show "bit a n = bit b n"
    proof cases
      case 1 then show ?thesis using eq(4) [of n] by (simp add: bit_simps)
    next
      case 2 then show ?thesis using eq(3) [of m] by (simp add: bit_simps)
    next
      case 3 then show ?thesis using eq(2) [of m] by (simp add: bit_simps)
    next
      case 4 then show ?thesis using eq(1) [of m] by (simp add: bit_simps)
    qed
  qed
qed simp

section \<open>Reading a text back\<close>

text \<open>The text of four numbers and a prefix length parses to them.\<close>

lemma dtoi_dec:
  assumes "n < 0xFFFFFF" and "rest = [] \<or> \<not> is_digit (hd rest)"
  shows "dtoi (dec n @ rest) = Some (n, length (dec n))"
proof -
  have "takeWhile is_digit (dec n @ rest) = dec n"
    using assms(2) dec_digits [of _ n] by (cases rest) (auto simp: takeWhile_append2 takeWhile_tail)
  then show ?thesis using assms(1) by (simp add: dtoi_def Let_def)
qed

lemma parse_quads_dec:
  assumes "n \<le> 255" and "rest = [] \<or> \<not> is_digit (hd rest)"
  shows "parse_quads (Suc k) True (dec n @ rest) = map_option (Cons (word_of_nat n)) (parse_quads k False rest)"
    and "parse_quads (Suc k) False (CHR ''.'' # dec n @ rest)
      = map_option (Cons (word_of_nat n)) (parse_quads k False rest)"
  using dtoi_dec [of n rest] assms by (simp_all add: Let_def)

lemma ParseCIDR_text:
  assumes "n \<le> 32"
  shows "ParseCIDR (dec (unat (a :: byte)) @ ''.'' @ dec (unat (b :: byte)) @ ''.'' @ dec (unat (c :: byte)) @ ''.''
    @ dec (unat (d :: byte)) @ ''/'' @ dec n) = Some ([a, b, c, d], n)"
proof -
  have small: "unat x \<le> 255" for x :: byte
    using unsigned_less [of x, where 'a = nat] by simp
  have "parseIPv4 (dec (unat a) @ ''.'' @ dec (unat b) @ ''.'' @ dec (unat c) @ ''.'' @ dec (unat d))
      = parse_quads (Suc (Suc (Suc (Suc 0)))) True
          (dec (unat a) @ CHR ''.'' # dec (unat b) @ CHR ''.'' # dec (unat c) @ CHR ''.'' # dec (unat d) @ [])"
    by (simp add: parseIPv4_def eval_nat_numeral)
  also have "\<dots> = Some [a, b, c, d]"
    by (simp add: parse_quads_dec small del: append_Nil2 parse_quads.simps(2))
  finally have ip: "parseIPv4 (dec (unat a) @ ''.'' @ dec (unat b) @ ''.'' @ dec (unat c) @ ''.'' @ dec (unat d))
      = Some [a, b, c, d]" .
  have "cut CHR ''/'' (dec (unat a) @ ''.'' @ dec (unat b) @ ''.'' @ dec (unat c) @ ''.''
      @ dec (unat d) @ ''/'' @ dec n)
    = Some (dec (unat a) @ ''.'' @ dec (unat b) @ ''.'' @ dec (unat c) @ ''.'' @ dec (unat d), dec n)"
    using cut_append [of "CHR ''/''" "dec (unat a) @ ''.'' @ dec (unat b) @ ''.'' @ dec (unat c) @ ''.'' @ dec (unat d)"]
    by simp
  with assms ip dtoi_dec [of n "[]"] show ?thesis by (simp add: ParseCIDR_def)
qed

section \<open>What the range holds\<close>

lemma fill_free_set:
  "set (fill_free i e m) = toIP ` {a. sint i \<le> sint a \<and> sint a < sint e} \<union> set m"
proof (induction i e m rule: fill_free.induct)
  case (1 i e m)
  show ?case
  proof (cases "i <s e")
    case True
    then have "{a. sint i \<le> sint a \<and> sint a < sint e}
        = insert i {a. sint (i + 1) \<le> sint a \<and> sint a < sint e}"
      by (auto simp: sint_Suc word_sless_alt) (metis order_antisym_conv signed_word_eqI not_less zless_iff_Suc_zadd add1_zle_eq)
    with True 1 show ?thesis by (subst fill_free.simps) auto
  next
    case False
    then show ?thesis by (subst fill_free.simps) (auto simp: word_sless_alt)
  qed
qed

lemma fill_free_distinct: "distinct m \<Longrightarrow> distinct (fill_free i e m)"
proof (induction i e m rule: fill_free.induct)
  case (1 i e m)
  then show ?case by (subst fill_free.simps) (auto simp: distinct_insert)
qed

lemma range_end_prefix:
  assumes "1 \<le> one" and "one \<le> 32"
  shows "signed_drop_bit (32 - one) (range_end b one) = signed_drop_bit (32 - one) b"
proof -
  have "push_bit (32 - one) 1 - 1 = (mask (32 - one) :: i32)"
    by (simp add: mask_eq_exp_minus_1 push_bit_eq_mult)
  then show ?thesis
    using assms unfolding range_end_def
    by (intro bit_word_eqI) (auto simp: bit_signed_drop_bit_iff bit_or_iff bit_mask_iff)
qed

lemma between_prefix:
  assumes "1 \<le> one" and "one \<le> 32" and "sint b \<le> sint a" and "sint a \<le> sint (range_end b one)"
  shows "signed_drop_bit (32 - one) a = signed_drop_bit (32 - one) b"
proof -
  let ?k = "32 - one"
  have eq: "sint (range_end b one) div 2 ^ ?k = sint b div 2 ^ ?k"
    using arg_cong [OF range_end_prefix [OF assms(1,2), of b], of sint]
    by (simp add: sint_signed_drop_bit_eq drop_bit_eq_div)
  have "sint b div 2 ^ ?k \<le> sint a div 2 ^ ?k" "sint a div 2 ^ ?k \<le> sint (range_end b one) div 2 ^ ?k"
    using assms(3,4) by (simp_all add: zdiv_mono1)
  with eq have "sint (signed_drop_bit ?k a) = sint (signed_drop_bit ?k b)"
    by (simp add: sint_signed_drop_bit_eq drop_bit_eq_div)
  then show ?thesis by (simp add: signed_word_eqI)
qed

lemma card_sint_between: "card {a :: i32. sint b < sint a \<and> sint a < sint e} = nat (sint e - sint b - 1)"
  for b e :: i32
proof -
  let ?S = "{a :: i32. sint b < sint a \<and> sint a < sint e}"
  have "sint ` ?S = {sint b<..<sint e}"
  proof (intro equalityI subsetI)
    fix x assume x: "x \<in> {sint b<..<sint e}"
    have "- (2 ^ 31) \<le> x" "x < 2 ^ 31" using x sint_lt [of e] sint_ge [of b] by auto
    then have "sint (word_of_int x :: i32) = x"
      by (simp add: signed_of_int signed_take_bit_int_eq_self)
    with x show "x \<in> sint ` ?S" by (intro image_eqI [where x = "word_of_int x"]) auto
  qed auto
  moreover have "inj_on sint ?S" by (rule inj_onI) (simp add: signed_word_eqI)
  ultimately have "card ?S = card {sint b<..<sint e}" using card_image [of sint ?S] by simp
  then show ?thesis by (simp add: diff_diff_eq)
qed

lemma NewDHCP_parsed:
  assumes "ParseCIDR cidr = Some (ip, one)"
  shows "NewDHCP cidr = Inr \<lparr>dh_cidr = cidr, dh_localIP = toIP (be32 ip),
    dh_free = fill_free (be32 ip + 1) (range_end (be32 ip) one) [], dh_inuse = []\<rparr>"
  using assms by (simp add: NewDHCP_def getIPRange_def Let_def)

lemma sint_i32_max: "sint (b :: i32) \<le> 2147483647"
  using sint_lt [of b] by simp

lemma sint_plus_1:
  assumes "b \<noteq> (0x7FFFFFFF :: i32)"
  shows "sint (b + 1) = sint b + 1"
proof -
  have "sint b \<noteq> sint (0x7FFFFFFF :: i32)" using assms signed_word_eqI by blast
  then have "b <s 0x7FFFFFFF"
    using sint_i32_max [of b] by (simp add: word_sless_alt)
  then show ?thesis by (rule sint_Suc)
qed

section \<open>The interface of the pool\<close>

text \<open>
  What a server relies on: an allocation takes one of the available addresses,
  or fails when there is none; a release gives a used address back.
\<close>

locale ip_pool =
  fixes alloc :: "nat \<Rightarrow> 's \<Rightarrow> ('e + 'ip) \<times> 's"
    and release :: "'ip \<Rightarrow> 's \<Rightarrow> 's"
    and avail :: "'s \<Rightarrow> 'ip set"
    and used :: "'s \<Rightarrow> 'ip set"
    and pinv :: "'s \<Rightarrow> bool"
  assumes disjoint: "pinv s \<Longrightarrow> avail s \<inter> used s = {}"
    and finite_avail: "pinv s \<Longrightarrow> finite (avail s)"
    and alloc_some: "pinv s \<Longrightarrow> avail s \<noteq> {} \<Longrightarrow>
      \<exists>ip s'. alloc k s = (Inr ip, s') \<and> ip \<in> avail s \<and> pinv s'
        \<and> avail s' = avail s - {ip} \<and> used s' = insert ip (used s)"
    and alloc_none: "pinv s \<Longrightarrow> avail s = {} \<Longrightarrow> \<exists>e. alloc k s = (Inl e, s)"
    and release_used: "pinv s \<Longrightarrow> ip \<in> used s \<Longrightarrow>
      pinv (release ip s) \<and> avail (release ip s) = insert ip (avail s) \<and> used (release ip s) = used s - {ip}"

fun alloc_run :: "(nat \<Rightarrow> 's \<Rightarrow> ('e + 'ip) \<times> 's) \<Rightarrow> nat list \<Rightarrow> 's \<Rightarrow> ('e + 'ip) list \<times> 's" where
  "alloc_run alloc [] s = ([], s)"
| "alloc_run alloc (k # ks) s =
     (case alloc k s of (r, s1) \<Rightarrow> (case alloc_run alloc ks s1 of (rs, s2) \<Rightarrow> (r # rs, s2)))"

context ip_pool begin

lemma alloc_fresh:
  assumes "pinv s" and "alloc k s = (Inr ip, s')"
  shows "ip \<in> avail s \<and> ip \<notin> used s \<and> pinv s' \<and> avail s' = avail s - {ip} \<and> used s' = insert ip (used s)"
proof -
  have "avail s \<noteq> {}" using assms alloc_none [of s k] by auto
  then show ?thesis using assms alloc_some [of s k] disjoint [of s] by auto
qed

lemma alloc_release:
  assumes "pinv s" and "alloc k s = (Inr ip, s')"
  shows "pinv (release ip s') \<and> avail (release ip s') = avail s \<and> used (release ip s') = used s"
  using alloc_fresh [OF assms] release_used [of s' ip] by auto

text \<open>
  Without releases, as many allocations succeed as addresses are available,
  all with different addresses, and the next one fails.
\<close>

lemma alloc_run_distinct:
  assumes "pinv s" and "length ks \<le> card (avail s)"
  shows "\<exists>ips s'. alloc_run alloc ks s = (map Inr ips, s') \<and> distinct ips \<and> length ips = length ks
    \<and> set ips \<subseteq> avail s \<and> pinv s' \<and> avail s' = avail s - set ips \<and> used s' = used s \<union> set ips"
  using assms
proof (induction ks arbitrary: s)
  case (Cons k ks)
  then have "avail s \<noteq> {}" by auto
  then obtain ip s1 where a: "alloc k s = (Inr ip, s1)" "ip \<in> avail s" "pinv s1"
      "avail s1 = avail s - {ip}" "used s1 = insert ip (used s)"
    using Cons.prems(1) alloc_some [of s k] by blast
  moreover have "length ks \<le> card (avail s1)"
    using Cons.prems a finite_avail [of s] by simp
  ultimately obtain ips s' where "alloc_run alloc ks s1 = (map Inr ips, s')" "distinct ips"
      "length ips = length ks" "set ips \<subseteq> avail s1" "pinv s'" "avail s' = avail s1 - set ips"
      "used s' = used s1 \<union> set ips"
    using Cons.IH [of s1] by blast
  with a show ?case by (intro exI [of _ "ip # ips"] exI [of _ s']) auto
qed simp

lemma alloc_run_exhausts:
  assumes "pinv s" and "length ks = card (avail s)"
  shows "\<exists>ips s' e. alloc_run alloc ks s = (map Inr ips, s') \<and> set ips = avail s
    \<and> alloc k s' = (Inl e, s')"
proof -
  obtain ips s' where r: "alloc_run alloc ks s = (map Inr ips, s')" "distinct ips" "length ips = length ks"
      "set ips \<subseteq> avail s" "pinv s'" "avail s' = avail s - set ips"
    using alloc_run_distinct [of s ks] assms by auto
  have "set ips = avail s"
    using r assms finite_avail [of s] by (metis card_subset_eq distinct_card)
  with r alloc_none [of s' k] show ?thesis by auto
qed

end

section \<open>The pool of the code\<close>

definition dhcp_inv :: "string set \<Rightarrow> DHCP \<Rightarrow> bool" where
  "dhcp_inv pool g \<longleftrightarrow> distinct (dh_free g) \<and> distinct (dh_inuse g)
     \<and> set (dh_free g) \<inter> set (dh_inuse g) = {} \<and> set (dh_free g) \<union> set (dh_inuse g) = pool"

lemma SelectIP_effect:
  assumes "dhcp_inv pool g" and "dh_free g \<noteq> []"
  shows "\<exists>ip g'. SelectIP k g = (Inr ip, g') \<and> ip \<in> set (dh_free g) \<and> dhcp_inv pool g'
    \<and> set (dh_free g') = set (dh_free g) - {ip} \<and> set (dh_inuse g') = insert ip (set (dh_inuse g))"
proof -
  define ip where "ip = dh_free g ! (k mod length (dh_free g))"
  have mem: "ip \<in> set (dh_free g)" using assms(2) by (simp add: ip_def)
  have "SelectIP k g = (Inr ip, g\<lparr>dh_free := remove1 ip (dh_free g), dh_inuse := List.insert ip (dh_inuse g)\<rparr>)"
    using assms(2) by (cases "dh_free g") (simp_all add: SelectIP_def ip_def Let_def)
  with mem assms(1) show ?thesis
    by (auto simp: dhcp_inv_def)
qed

interpretation dhcp_pool: ip_pool SelectIP ReleaseIP "\<lambda>g. set (dh_free g)" "\<lambda>g. set (dh_inuse g)"
    "\<lambda>g. \<exists>pool. dhcp_inv pool g"
proof
  fix k g assume "\<exists>pool. dhcp_inv pool g" "set (dh_free g) \<noteq> {}"
  then show "\<exists>ip g'. SelectIP k g = (Inr ip, g') \<and> ip \<in> set (dh_free g) \<and> (\<exists>pool. dhcp_inv pool g')
      \<and> set (dh_free g') = set (dh_free g) - {ip} \<and> set (dh_inuse g') = insert ip (set (dh_inuse g))"
    using SelectIP_effect [of _ g k] by fastforce
qed (auto simp: dhcp_inv_def SelectIP_def ReleaseIP_def distinct_removeAll)

section \<open>Properties\<close>


text \<open>
  On the address 127.255.255.255 the loop counter wraps from the greatest
  to the least 32-bit integer, and the free map is filled with every address but that
  one, whatever the prefix length.
\<close>

theorem range_wraps:
  assumes "ParseCIDR cidr = Some (ip, one)" and "1 \<le> one" and "one \<le> 32"
    and "be32 ip = 0x7FFFFFFF"
  shows "\<exists>g. NewDHCP cidr = Inr g \<and> set (dh_free g) = toIP ` (UNIV - {0x7FFFFFFF})"
proof -
  let ?b = "0x7FFFFFFF :: i32"
  have "range_end (mask 31) one = mask 31"
    unfolding range_end_def using assms(2,3)
    by (intro bit_word_eqI)
      (auto simp: bit_or_iff bit_mask_iff push_bit_eq_mult simp flip: mask_eq_exp_minus_1)
  moreover have "?b = mask 31" by (simp add: mask_eq_exp_minus_1)
  ultimately have "range_end ?b one = ?b" by simp
  moreover have "sint (?b + 1) = - 2147483648" "sint ?b = 2147483647" by simp_all
  moreover have "{a :: i32. - 2147483648 \<le> sint a \<and> sint a < 2147483647} = UNIV - {?b}"
  proof -
    have "- 2147483648 \<le> sint a" for a :: i32 using sint_ge [of a] by simp
    moreover have "sint a < 2147483647 \<longleftrightarrow> a \<noteq> ?b" for a :: i32
      using sint_i32_max [of a] signed_word_eqI [of a ?b, where 'a = int] by fastforce
    ultimately show ?thesis by auto
  qed
  ultimately show ?thesis
    using NewDHCP_parsed [OF assms(1)] assms(4) by (simp add: fill_free_set)
qed

text \<open>
  C27. \<open>SelectIP\<close> keeps the invariant of the pool, which no order of the map's
  iteration can break: it hands out an address of the pool that nobody holds and
  records it as used, or, with no free address, fails and changes nothing.
  \<open>ReleaseIP\<close> of that address restores both sets.
\<close>

theorem select_release:
  assumes "dhcp_inv pool g"
  shows "(dh_free g = [] \<longrightarrow> SelectIP k g = (Inl NoAvailableIP, g))
    \<and> (dh_free g \<noteq> [] \<longrightarrow> (\<exists>ip g'. SelectIP k g = (Inr ip, g') \<and> ip \<in> pool
        \<and> ip \<notin> set (dh_inuse g) \<and> set (dh_inuse g') = insert ip (set (dh_inuse g))
        \<and> dhcp_inv pool g' \<and> dhcp_inv pool (ReleaseIP ip g')
        \<and> set (dh_free (ReleaseIP ip g')) = set (dh_free g)
        \<and> set (dh_inuse (ReleaseIP ip g')) = set (dh_inuse g)))"
proof (intro conjI impI)
  assume "dh_free g \<noteq> []"
  then obtain ip g' where s: "SelectIP k g = (Inr ip, g')" "ip \<in> set (dh_free g)" "dhcp_inv pool g'"
      "set (dh_inuse g') = insert ip (set (dh_inuse g))"
    using SelectIP_effect [OF assms] by blast
  moreover have "set (dh_free (ReleaseIP ip g')) = set (dh_free g)
      \<and> set (dh_inuse (ReleaseIP ip g')) = set (dh_inuse g)"
    using dhcp_pool.alloc_release [OF _ s(1)] assms by blast
  moreover have "dhcp_inv pool (ReleaseIP ip g')"
    using s assms by (auto simp: dhcp_inv_def ReleaseIP_def distinct_removeAll)
  ultimately show "\<exists>ip g'. SelectIP k g = (Inr ip, g') \<and> ip \<in> pool
        \<and> ip \<notin> set (dh_inuse g) \<and> set (dh_inuse g') = insert ip (set (dh_inuse g))
        \<and> dhcp_inv pool g' \<and> dhcp_inv pool (ReleaseIP ip g')
        \<and> set (dh_free (ReleaseIP ip g')) = set (dh_free g)
        \<and> set (dh_inuse (ReleaseIP ip g')) = set (dh_inuse g)"
    using assms by (intro exI [of _ ip] exI [of _ g']) (auto simp: dhcp_inv_def)
qed (simp add: SelectIP_def)

text \<open>
  \<open>ReleaseIP\<close> does not ask whether the address was handed out: an address
  from outside the pool becomes a free address, and the invariant then holds for a
  bigger pool only.
\<close>

lemma release_unowned:
  assumes "dhcp_inv pool g" and "ip \<notin> pool"
  shows "ip \<in> set (dh_free (ReleaseIP ip g)) \<and> dhcp_inv (insert ip pool) (ReleaseIP ip g)
    \<and> \<not> dhcp_inv pool (ReleaseIP ip g)"
  using assms by (auto simp: dhcp_inv_def ReleaseIP_def distinct_removeAll)

text \<open>
  Without releases, a pool of \<open>n\<close> free addresses serves \<open>n\<close> selections, whatever
  the order of the iterations, all with different addresses, and refuses every later
  one.
\<close>

theorem pool_exhausts:
  assumes "dhcp_inv pool g" and "length ks = length (dh_free g)"
  shows "\<exists>ips g'. alloc_run SelectIP ks g = (map Inr ips, g') \<and> set ips = set (dh_free g)
    \<and> distinct ips \<and> SelectIP k g' = (Inl NoAvailableIP, g')"
proof -
  have card: "length ks = card (set (dh_free g))"
    using assms by (simp add: dhcp_inv_def distinct_card)
  obtain ips g' e where r: "alloc_run SelectIP ks g = (map Inr ips, g')" "set ips = set (dh_free g)"
      "SelectIP k g' = (Inl e, g')"
    using dhcp_pool.alloc_run_exhausts [of g ks k] assms(1) card by blast
  moreover have "distinct ips"
    using dhcp_pool.alloc_run_distinct [of g ks] assms(1) card r(1) by fastforce
  moreover have "e = NoAvailableIP"
    using r(3) by (auto simp: SelectIP_def Let_def split: list.splits)
  ultimately show ?thesis by blast
qed

definition sample_dhcp :: DHCP where
  "sample_dhcp = \<lparr>dh_cidr = ''10.0.0.1/29'', dh_localIP = ''10.0.0.1'',
     dh_free = [''10.0.0.2'', ''10.0.0.3''], dh_inuse = [''10.0.0.4'']\<rparr>"

definition sample_pool :: "string set" where
  "sample_pool = {''10.0.0.2'', ''10.0.0.3'', ''10.0.0.4''}"

lemma sample_dhcp_inv: "dhcp_inv sample_pool sample_dhcp"
  by (auto simp: dhcp_inv_def sample_dhcp_def sample_pool_def)

lemma sample_cidr: "ParseCIDR ''10.0.0.1/29'' = Some ([10, 0, 0, 1], 29)"
  using ParseCIDR_text [of 29 10 0 0 1] by (simp add: dec.simps digit_table)

lemma loopback_cidr: "ParseCIDR ''127.255.255.255/24'' = Some ([127, 255, 255, 255], 24)"
  using ParseCIDR_text [of 24 127 255 255 255] by (simp add: dec.simps digit_table)


theorem range_wraps_witness:
  "\<exists>g. NewDHCP ''127.255.255.255/24'' = Inr g \<and> set (dh_free g) = toIP ` (UNIV - {0x7FFFFFFF})"
  by (rule range_wraps [OF loopback_cidr]) (simp_all add: be32_def push_bit_eq_mult)

theorem select_release_witness:
  "\<exists>ip g'. SelectIP 5 sample_dhcp = (Inr ip, g') \<and> ip \<in> sample_pool"
  using select_release [OF sample_dhcp_inv, of 5] by (auto simp: sample_dhcp_def)

theorem pool_exhausts_witness:
  "\<exists>ips g'. alloc_run SelectIP [3, 8] sample_dhcp = (map Inr ips, g')
    \<and> SelectIP 0 g' = (Inl NoAvailableIP, g')"
  using pool_exhausts [OF sample_dhcp_inv, of "[3, 8]" 0] by (auto simp: sample_dhcp_def)

end
