(* ===== verification/Server.thy ===== *)
theory Server
  imports Plugins Session Resolver Dhcp
begin

text \<open>
  The server (\<open>opennotrd/core/server.go\<close>): the handling of one client connection
  from its authorization to its end, cut at the points where it touches the state
  that it shares with the other connections (the address pool, the store of domains,
  the routes, the sessions), so that the steps of any number of connections
  interleave. The clock, the channels of multiplexing and the failures of the network
  come in as arguments.
\<close>

section \<open>State\<close>

record ServerConfig =
  sc_ListenAddr :: string
  sc_AuthKey :: string
  sc_Domain :: string

text \<open>Where a connection's goroutine stands.\<close>

datatype phase = Resolving | Adding | Replying | Serving | Unwinding

text \<open>
  A connection: its virtual address and domain, the forwards still to be added
  (protocol, public port, local port, raw configuration, in the order of the two
  loops), the stack of deferred \<open>DelProxy\<close> calls, and the tuples for the reply.
\<close>

type_synonym forward = "string \<times> int \<times> string \<times> string"

record conn =
  cn_phase :: phase
  cn_vip :: string
  cn_domain :: string
  cn_todo :: "forward list"
  cn_added :: "PluginMeta list"
  cn_infos :: "ProxyTuple list"

text \<open>
  The server and what it shares: \<open>sv_chans\<close> numbers the channels that have been made,
  \<open>sv_conns\<close> holds the connections whose goroutine has a virtual address and has not
  returned, \<open>sv_replies\<close> the replies sent, \<open>sv_admitted\<close> counts selected addresses.
\<close>

record server =
  sv_addr :: string
  sv_authKey :: string
  sv_domain :: string
  sv_publicIP :: string
  sv_dhcp :: DHCP
  sv_pluginMgr :: "world PluginManager"
  sv_world :: world
  sv_resolver :: bool
  sv_store :: "(string \<times> byte list) list"
  sv_sessMgr :: SessionManager
  sv_conns :: "nat \<rightharpoonup> conn"
  sv_chans :: nat
  sv_admitted :: nat
  sv_replies :: "(nat \<times> S2CAuth) list"
  sv_crashed :: bool

text \<open>
  The plugin manager is the one of the package, and \<open>w\<close> what its plugins act on by now;
  \<open>answer\<close> is what the service for public addresses answers.
\<close>

definition NewServer :: "ServerConfig \<Rightarrow> DHCP \<Rightarrow> bool \<Rightarrow> network \<Rightarrow> world \<Rightarrow> string option \<Rightarrow> server option" where
  "NewServer cfg dhcp resolver nw w answer =
     (case publicIP answer of
        None \<Rightarrow> None
      | Some ip \<Rightarrow> Some
          \<lparr>sv_addr = sc_ListenAddr cfg, sv_authKey = sc_AuthKey cfg, sv_domain = sc_Domain cfg,
           sv_publicIP = ip, sv_dhcp = dhcp, sv_pluginMgr = registered nw, sv_world = w,
           sv_resolver = resolver, sv_store = [], sv_sessMgr = sessionMgr, sv_conns = Map.empty,
           sv_chans = 0, sv_admitted = 0, sv_replies = [], sv_crashed = False\<rparr>)"

text \<open>What the setup of the plugins leaves, from which the server starts.\<close>

definition plugins_up :: "network \<Rightarrow> (string \<times> string) list \<Rightarrow> world" where
  "plugins_up nw plugins = snd (Setup plugins (registered nw) initial_world)"

lemma plugins_up_Nil [simp]: "plugins_up nw [] = initial_world"
  by (simp add: plugins_up_def)

section \<open>The steps of \<open>onConn\<close>\<close>

definition forwards_of :: "C2SAuth \<Rightarrow> forward list" where
  "forwards_of auth = concat (map (\<lambda>f. map (\<lambda>(publicPort, localPort).
     (fw_Protocol f, publicPort, localPort, fw_RawConfig f)) (fw_Ports f)) (c2s_Forward auth))"

text \<open>
  Authorization, the domain and the virtual address; \<open>c\<close> numbers the connection,
  \<open>k\<close> is the choice that the iteration over the free addresses makes.
\<close>

definition on_auth :: "nat \<Rightarrow> reader \<Rightarrow> int \<Rightarrow> nat \<Rightarrow> server \<Rightarrow> server" where
  "on_auth c r now k s =
     (case fst (ReadJSON unmarshal_C2SAuth r) of
        Inl err \<Rightarrow> s
      | Inr auth \<Rightarrow>
          if c2s_Key auth \<noteq> sv_authKey s then s
          else
            let domain = (if length (c2s_Domain auth) \<le> 0
                          then randomDomain now @ ''.'' @ sv_domain s else c2s_Domain auth)
            in (case SelectIP k (sv_dhcp s) of
                  (Inl err, _) \<Rightarrow> s
                | (Inr vip, dhcp) \<Rightarrow>
                    s\<lparr>sv_dhcp := dhcp, sv_admitted := sv_admitted s + 1,
                      sv_conns := (sv_conns s)(c \<mapsto>
                        \<lparr>cn_phase = Resolving, cn_vip = vip, cn_domain = domain,
                         cn_todo = forwards_of auth, cn_added = [], cn_infos = []\<rparr>)\<rparr>))"

text \<open>The public address is asked for again; an answer without a newline ends the program.\<close>

definition on_resolve :: "nat \<Rightarrow> string option \<Rightarrow> (string \<Rightarrow> byte list \<Rightarrow> bool) \<Rightarrow> server \<Rightarrow> server" where
  "on_resolve c answer put s =
     (case sv_conns s c of
        None \<Rightarrow> s
      | Some cn \<Rightarrow>
          if cn_phase cn \<noteq> Resolving then s
          else if \<not> sv_resolver s then s\<lparr>sv_conns := (sv_conns s)(c \<mapsto> cn\<lparr>cn_phase := Adding\<rparr>)\<rparr>
          else (case publicIP answer of
                  None \<Rightarrow> s\<lparr>sv_crashed := True\<rparr>
                | Some ip \<Rightarrow>
                    (case ApplyDomain put (cn_domain cn) ip (sv_store s) of
                       (ok, store) \<Rightarrow>
                         s\<lparr>sv_store := store, sv_conns := (sv_conns s)(c \<mapsto>
                           cn\<lparr>cn_phase := (if ok then Adding else Unwinding)\<rparr>)\<rparr>)))"

definition item_of :: "conn \<Rightarrow> nat \<Rightarrow> forward \<Rightarrow> PluginMeta" where
  "item_of cn ch f =
     (case f of (protocol, publicPort, localPort, rawConfig) \<Rightarrow>
        \<lparr>pm_Protocol = protocol, pm_From = ''0.0.0.0:'' @ dec_int publicPort,
         pm_To = cn_vip cn @ '':'' @ localPort, pm_Domain = cn_domain cn, pm_Ctx = rawConfig,
         pm_RecycleSignal = ch\<rparr>)"

text \<open>One turn of the loops over forwards and ports, or their end.\<close>

definition on_forward :: "nat \<Rightarrow> server \<Rightarrow> server" where
  "on_forward c s =
     (case sv_conns s c of
        None \<Rightarrow> s
      | Some cn \<Rightarrow>
          if cn_phase cn \<noteq> Adding then s
          else (case cn_todo cn of
                  [] \<Rightarrow> s\<lparr>sv_conns := (sv_conns s)(c \<mapsto> cn\<lparr>cn_phase := Replying\<rparr>)\<rparr>
                | f # rest \<Rightarrow>
                    (let item = item_of cn (sv_chans s) f in
                     case AddProxy item (sv_pluginMgr s) (sv_world s) of
                       (Inl err, mgr, w) \<Rightarrow>
                         s\<lparr>sv_pluginMgr := mgr, sv_world := w, sv_chans := sv_chans s + 1,
                           sv_conns := (sv_conns s)(c \<mapsto> cn\<lparr>cn_phase := Unwinding\<rparr>)\<rparr>
                     | (Inr p, mgr, w) \<Rightarrow>
                         s\<lparr>sv_pluginMgr := mgr, sv_world := w, sv_chans := sv_chans s + 1,
                           sv_conns := (sv_conns s)(c \<mapsto>
                             cn\<lparr>cn_todo := rest, cn_added := item # cn_added cn,
                                cn_infos := cn_infos cn @
                                  [\<lparr>pt_Protocol = pm_Protocol item, pt_FromPort = pt_FromPort p,
                                    pt_ToPort = pt_ToPort p\<rparr>]\<rparr>)\<rparr>)))"

definition on_reply :: "nat \<Rightarrow> bool \<Rightarrow> bool \<Rightarrow> server \<Rightarrow> server" where
  "on_reply c written muxed s =
     (case sv_conns s c of
        None \<Rightarrow> s
      | Some cn \<Rightarrow>
          if cn_phase cn \<noteq> Replying then s
          else if \<not> written then s\<lparr>sv_conns := (sv_conns s)(c \<mapsto> cn\<lparr>cn_phase := Unwinding\<rparr>)\<rparr>
          else
            (let reply = \<lparr>s2c_Domain = cn_domain cn, s2c_Vip = cn_vip cn, s2c_ProxyInfos = cn_infos cn\<rparr>;
                 s1 = s\<lparr>sv_replies := sv_replies s @ [(c, reply)]\<rparr>
             in if \<not> muxed then s1\<lparr>sv_conns := (sv_conns s)(c \<mapsto> cn\<lparr>cn_phase := Unwinding\<rparr>)\<rparr>
                else s1\<lparr>sv_sessMgr := AddSession (cn_vip cn) (newSession c (cn_vip cn)) (sv_sessMgr s),
                        sv_conns := (sv_conns s)(c \<mapsto> cn\<lparr>cn_phase := Serving\<rparr>)\<rparr>))"

text \<open>The ticker finds the multiplexed connection closed; the first deferred call runs.\<close>

definition on_closed :: "nat \<Rightarrow> server \<Rightarrow> server" where
  "on_closed c s =
     (case sv_conns s c of
        None \<Rightarrow> s
      | Some cn \<Rightarrow>
          if cn_phase cn \<noteq> Serving then s
          else s\<lparr>sv_sessMgr := DeleteSession (cn_vip cn) (sv_sessMgr s),
                 sv_conns := (sv_conns s)(c \<mapsto> cn\<lparr>cn_phase := Unwinding\<rparr>)\<rparr>)"

text \<open>The deferred \<open>DelProxy\<close> calls, the last one first; then the goroutine has returned.\<close>

definition on_unwind :: "nat \<Rightarrow> server \<Rightarrow> server" where
  "on_unwind c s =
     (case sv_conns s c of
        None \<Rightarrow> s
      | Some cn \<Rightarrow>
          if cn_phase cn \<noteq> Unwinding then s
          else (case cn_added cn of
                  [] \<Rightarrow> s\<lparr>sv_conns := (sv_conns s)(c := None)\<rparr>
                | item # rest \<Rightarrow>
                    (case DelProxy item (sv_pluginMgr s) (sv_world s) of
                       (mgr, w) \<Rightarrow>
                         s\<lparr>sv_pluginMgr := mgr, sv_world := w,
                           sv_conns := (sv_conns s)(c \<mapsto> cn\<lparr>cn_added := rest\<rparr>)\<rparr>)))"

text \<open>\<open>ListenAndServe\<close>: the connections whose goroutines are started, until \<open>Accept\<close> fails.\<close>

definition ListenAndServe :: "bool \<Rightarrow> reader option list \<Rightarrow> reader list" where
  "ListenAndServe listened accepts = (if \<not> listened then [] else accept_loop accepts)"

text \<open>
  Connections and the goroutines of the plugins, in any order. Connections get fresh
  numbers; after a crash nothing runs.
\<close>

inductive server_step :: "server \<Rightarrow> server \<Rightarrow> bool" where
  sv_auth: "\<not> sv_crashed s \<Longrightarrow> sv_conns s c = None \<Longrightarrow> server_step s (on_auth c r now k s)"
| sv_resolve: "\<not> sv_crashed s \<Longrightarrow> server_step s (on_resolve c answer put s)"
| sv_forward: "\<not> sv_crashed s \<Longrightarrow> server_step s (on_forward c s)"
| sv_reply: "\<not> sv_crashed s \<Longrightarrow> server_step s (on_reply c written muxed s)"
| sv_closed: "\<not> sv_crashed s \<Longrightarrow> server_step s (on_closed c s)"
| sv_unwind: "\<not> sv_crashed s \<Longrightarrow> server_step s (on_unwind c s)"
| sv_plugins: "\<not> sv_crashed s \<Longrightarrow> world_inv w \<Longrightarrow> server_step s (s\<lparr>sv_world := w\<rparr>)"

inductive_cases server_stepE: "server_step s t"

inductive server_steps :: "server \<Rightarrow> server \<Rightarrow> bool" where
  server_refl: "server_steps s s"
| server_more: "server_steps s t \<Longrightarrow> server_step t u \<Longrightarrow> server_steps s u"

lemmas server_defs =
  on_auth_def on_resolve_def on_forward_def on_reply_def on_closed_def on_unwind_def

section \<open>Addresses\<close>

text \<open>Each connection's address is in use and is no other connection's.\<close>

definition inv_ip :: "string set \<Rightarrow> server \<Rightarrow> bool" where
  "inv_ip pool s \<longleftrightarrow>
     dhcp_inv pool (sv_dhcp s) \<and> sv_admitted s = length (dh_inuse (sv_dhcp s)) \<and>
     (\<forall>c cn. sv_conns s c = Some cn \<longrightarrow> cn_vip cn \<in> set (dh_inuse (sv_dhcp s))) \<and>
     (\<forall>c c' cn cn'. sv_conns s c = Some cn \<longrightarrow> sv_conns s c' = Some cn' \<longrightarrow> cn_vip cn = cn_vip cn' \<longrightarrow> c = c')"

text \<open>Every step but the first one leaves the pool alone and gives no connection another address.\<close>

definition same_ips :: "server \<Rightarrow> server \<Rightarrow> bool" where
  "same_ips s t \<longleftrightarrow> sv_dhcp t = sv_dhcp s \<and> sv_admitted t = sv_admitted s \<and>
     (\<forall>c cn'. sv_conns t c = Some cn' \<longrightarrow> (\<exists>cn. sv_conns s c = Some cn \<and> cn_vip cn' = cn_vip cn))"

lemma inv_ip_same: "inv_ip pool s \<Longrightarrow> same_ips s t \<Longrightarrow> inv_ip pool t"
  unfolding inv_ip_def same_ips_def by metis

lemma same_ips_update:
  assumes "sv_conns s c = Some cn" and "cn_vip cn' = cn_vip cn"
    and "sv_dhcp t = sv_dhcp s" and "sv_admitted t = sv_admitted s"
    and "sv_conns t = (sv_conns s)(c \<mapsto> cn')"
  shows "same_ips s t"
  using assms by (auto simp: same_ips_def)

lemma same_ips_refl [simp]: "same_ips s s"
  by (simp add: same_ips_def)

lemma same_ips_resolve: "same_ips s (on_resolve c answer put s)"
  by (auto simp: on_resolve_def same_ips_def split: option.splits prod.splits if_splits)

lemma same_ips_forward: "same_ips s (on_forward c s)"
  by (auto simp: on_forward_def same_ips_def Let_def
      split: option.splits prod.splits if_splits list.splits sum.splits)

lemma same_ips_reply: "same_ips s (on_reply c written muxed s)"
  by (auto simp: on_reply_def same_ips_def Let_def split: option.splits if_splits)

lemma same_ips_closed: "same_ips s (on_closed c s)"
  by (auto simp: on_closed_def same_ips_def split: option.splits if_splits)

lemma same_ips_unwind: "same_ips s (on_unwind c s)"
  by (auto simp: on_unwind_def same_ips_def split: option.splits prod.splits if_splits list.splits)

lemma on_auth_cases:
  obtains (refused) "on_auth c r now k s = s"
  | (admitted) auth vip dhcp where "fst (ReadJSON unmarshal_C2SAuth r) = Inr auth"
      "c2s_Key auth = sv_authKey s" "SelectIP k (sv_dhcp s) = (Inr vip, dhcp)"
      "on_auth c r now k s = s\<lparr>sv_dhcp := dhcp, sv_admitted := sv_admitted s + 1,
         sv_conns := (sv_conns s)(c \<mapsto> \<lparr>cn_phase = Resolving, cn_vip = vip,
           cn_domain = (if c2s_Domain auth = [] then randomDomain now @ ''.'' @ sv_domain s else c2s_Domain auth),
           cn_todo = forwards_of auth, cn_added = [], cn_infos = []\<rparr>)\<rparr>"
proof (cases "fst (ReadJSON unmarshal_C2SAuth r)")
  case (Inl e)
  then show ?thesis using refused by (simp add: on_auth_def)
next
  case (Inr auth)
  obtain sel dhcp where sel: "SelectIP k (sv_dhcp s) = (sel, dhcp)" by fastforce
  show ?thesis
  proof (cases "c2s_Key auth = sv_authKey s")
    case True
    then show ?thesis
      using refused admitted [OF Inr True] Inr sel by (cases sel) (simp_all add: on_auth_def Let_def)
  qed (use refused Inr in \<open>simp add: on_auth_def\<close>)
qed

lemma inv_ip_auth:
  assumes "inv_ip pool s" and "sv_conns s c = None"
  shows "inv_ip pool (on_auth c r now k s)"
proof (cases rule: on_auth_cases [where c = c and r = r and now = now and k = k and s = s])
  case (admitted auth vip dhcp)
  have "dhcp_inv pool (sv_dhcp s)" using assms(1) by (simp add: inv_ip_def)
  moreover have "dh_free (sv_dhcp s) \<noteq> []" using admitted(3) by (auto simp: SelectIP_def)
  ultimately have f: "vip \<notin> set (dh_inuse (sv_dhcp s))" "dhcp_inv pool dhcp"
      "set (dh_inuse dhcp) = insert vip (set (dh_inuse (sv_dhcp s)))"
    using SelectIP_effect [of pool "sv_dhcp s" k] admitted(3) by (auto simp: dhcp_inv_def)
  have "length (dh_inuse dhcp) = Suc (length (dh_inuse (sv_dhcp s)))"
    using admitted(3) f(1) by (auto simp: SelectIP_def Let_def split: list.splits)
  moreover have "cn_vip cn \<noteq> vip" if "sv_conns s c' = Some cn" for c' cn
    using assms(1) f(1) that unfolding inv_ip_def by metis
  ultimately show ?thesis
    using assms f unfolding admitted(4) by (auto simp: inv_ip_def)
qed (use assms in simp)

lemma inv_ip_step: "server_step s t \<Longrightarrow> inv_ip pool s \<Longrightarrow> inv_ip pool t"
  by (erule server_stepE)
    (auto intro: inv_ip_auth inv_ip_same same_ips_resolve same_ips_forward same_ips_reply
      same_ips_closed same_ips_unwind simp: same_ips_def)

section \<open>Sessions\<close>

definition serves :: "(nat \<rightharpoonup> conn) \<Rightarrow> string \<Rightarrow> Session \<Rightarrow> bool" where
  "serves conns v x \<longleftrightarrow>
     (\<exists>c cn. conns c = Some cn \<and> cn_phase cn = Serving \<and> cn_vip cn = v \<and> x = newSession c v)"

definition inv_sess :: "server \<Rightarrow> bool" where
  "inv_sess s \<longleftrightarrow> (\<forall>v x. GetSession v (sv_sessMgr s) = Some x \<longleftrightarrow> serves (sv_conns s) v x)"

text \<open>The one connection of an address starts or stops to serve.\<close>

lemma serves_update:
  assumes "conns c = Some cn" and "\<And>c' cn'. conns c' = Some cn' \<Longrightarrow> c' \<noteq> c \<Longrightarrow> cn_vip cn' \<noteq> cn_vip cn"
  shows "serves (conns(c \<mapsto> cn\<lparr>cn_phase := ph\<rparr>)) v x \<longleftrightarrow>
    (if v = cn_vip cn then ph = Serving \<and> x = newSession c v else serves conns v x)"
proof (cases "v = cn_vip cn")
  case True
  have "(conns(c \<mapsto> cn\<lparr>cn_phase := ph\<rparr>)) c' = Some cn' \<and> cn_phase cn' = Serving \<and> cn_vip cn' = v \<and> x = newSession c' v
      \<longleftrightarrow> c' = c \<and> cn' = cn\<lparr>cn_phase := ph\<rparr> \<and> ph = Serving \<and> x = newSession c v" for c' cn'
  proof (cases "c' = c")
    case False
    then have "conns c' = Some cn' \<longrightarrow> cn_vip cn' \<noteq> v" using assms(2) [of c' cn'] True by blast
    with False show ?thesis by auto
  qed (use True in auto)
  with True show ?thesis unfolding serves_def by simp
next
  case False
  have "(conns(c \<mapsto> cn\<lparr>cn_phase := ph\<rparr>)) c' = Some cn' \<and> cn_vip cn' = v \<longleftrightarrow> conns c' = Some cn' \<and> cn_vip cn' = v"
    for c' cn'
    using assms(1) False by (cases "c' = c") auto
  then have "(conns(c \<mapsto> cn\<lparr>cn_phase := ph\<rparr>)) c' = Some cn' \<and> cn_phase cn' = Serving \<and> cn_vip cn' = v \<and> P
      \<longleftrightarrow> conns c' = Some cn' \<and> cn_phase cn' = Serving \<and> cn_vip cn' = v \<and> P" for c' cn' P
    by blast
  with False show ?thesis unfolding serves_def by (simp only: if_False)
qed

text \<open>A step that touches no serving connection and no session.\<close>

lemma inv_sess_keep:
  assumes "inv_sess s" and "sv_sessMgr t = sv_sessMgr s"
    and "\<And>c cn. (sv_conns t c = Some cn \<and> cn_phase cn = Serving) \<Longrightarrow>
      (\<exists>cn'. sv_conns s c = Some cn' \<and> cn_phase cn' = Serving \<and> cn_vip cn' = cn_vip cn)"
    and "\<And>c cn'. (sv_conns s c = Some cn' \<and> cn_phase cn' = Serving) \<Longrightarrow>
      (\<exists>cn. sv_conns t c = Some cn \<and> cn_phase cn = Serving \<and> cn_vip cn = cn_vip cn')"
  shows "inv_sess t"
  using assms unfolding inv_sess_def serves_def by metis

lemma inv_sess_reply:
  assumes "inv_sess s" and "inv_ip pool s"
  shows "inv_sess (on_reply c written muxed s)"
proof (cases "\<exists>cn. sv_conns s c = Some cn \<and> cn_phase cn = Replying \<and> written \<and> muxed")
  case True
  then obtain cn where cn: "sv_conns s c = Some cn" "cn_phase cn = Replying" written muxed by blast
  have other: "cn_vip cn' \<noteq> cn_vip cn" if "sv_conns s c' = Some cn'" "c' \<noteq> c" for c' cn'
    using assms(2) cn(1) that unfolding inv_ip_def by metis
  have eq: "on_reply c written muxed s = s\<lparr>sv_replies := sv_replies s @
        [(c, \<lparr>s2c_Domain = cn_domain cn, s2c_Vip = cn_vip cn, s2c_ProxyInfos = cn_infos cn\<rparr>)],
      sv_sessMgr := AddSession (cn_vip cn) (newSession c (cn_vip cn)) (sv_sessMgr s),
      sv_conns := (sv_conns s)(c \<mapsto> cn\<lparr>cn_phase := Serving\<rparr>)\<rparr>"
    using cn by (simp add: on_reply_def Let_def)
  show ?thesis
    unfolding inv_sess_def eq
    using assms(1) serves_update [of "sv_conns s" c cn Serving] cn(1) other by (auto simp: inv_sess_def sess.lookup_insert)
next
  case False
  then show ?thesis
    by (intro inv_sess_keep [OF assms(1)])
      (auto simp: on_reply_def Let_def split: option.splits if_splits)
qed

lemma inv_sess_closed:
  assumes "inv_sess s" and "inv_ip pool s"
  shows "inv_sess (on_closed c s)"
proof (cases "\<exists>cn. sv_conns s c = Some cn \<and> cn_phase cn = Serving")
  case True
  then obtain cn where cn: "sv_conns s c = Some cn" "cn_phase cn = Serving" by blast
  have other: "cn_vip cn' \<noteq> cn_vip cn" if "sv_conns s c' = Some cn'" "c' \<noteq> c" for c' cn'
    using assms(2) cn(1) that unfolding inv_ip_def by metis
  have eq: "on_closed c s = s\<lparr>sv_sessMgr := DeleteSession (cn_vip cn) (sv_sessMgr s),
      sv_conns := (sv_conns s)(c \<mapsto> cn\<lparr>cn_phase := Unwinding\<rparr>)\<rparr>"
    using cn by (simp add: on_closed_def)
  show ?thesis
    unfolding inv_sess_def eq
    using assms(1) serves_update [of "sv_conns s" c cn Unwinding] cn(1) other by (auto simp: inv_sess_def sess.lookup_delete)
next
  case False
  then show ?thesis using assms(1) by (auto simp: on_closed_def split: option.splits)
qed

lemma inv_sess_others:
  assumes "inv_sess s"
  shows "inv_sess (on_resolve c answer put s)" "inv_sess (on_forward c s)" "inv_sess (on_unwind c s)"
    "inv_sess (s\<lparr>sv_world := w\<rparr>)" "sv_conns s c = None \<Longrightarrow> inv_sess (on_auth c r now k s)"
proof -
  show "inv_sess (on_resolve c answer put s)"
    by (intro inv_sess_keep [OF assms])
      (auto simp: on_resolve_def split: option.splits prod.splits if_splits)
  show "inv_sess (on_forward c s)"
    by (intro inv_sess_keep [OF assms])
      (auto simp: on_forward_def Let_def split: option.splits prod.splits if_splits list.splits sum.splits)
  show "inv_sess (on_unwind c s)"
    by (intro inv_sess_keep [OF assms])
      (auto simp: on_unwind_def split: option.splits prod.splits if_splits list.splits)
  show "inv_sess (s\<lparr>sv_world := w\<rparr>)" by (intro inv_sess_keep [OF assms]) auto
  show "inv_sess (on_auth c r now k s)" if "sv_conns s c = None"
    by (intro inv_sess_keep [OF assms]; cases rule: on_auth_cases [where c = c and r = r and now = now and k = k and s = s])
      (use that in \<open>auto split: if_splits\<close>)
qed

section \<open>Routes\<close>

text \<open>
  Each route of the manager is on the stack of deferred calls of one connection, and
  each item on a stack has its route.
\<close>

definition added :: "server \<Rightarrow> nat \<Rightarrow> PluginMeta list" where
  "added s c = (case sv_conns s c of None \<Rightarrow> [] | Some cn \<Rightarrow> cn_added cn)"

definition owned :: "(nat \<Rightarrow> PluginMeta list) \<Rightarrow> (string \<rightharpoonup> PluginMeta) \<Rightarrow> bool" where
  "owned A R \<longleftrightarrow>
     (\<forall>c. distinct (map identify (A c))) \<and>
     (\<forall>c i. i \<in> set (A c) \<longrightarrow> R (identify i) = Some i) \<and>
     (\<forall>k i. R k = Some i \<longrightarrow> identify i = k \<and> (\<exists>c. i \<in> set (A c))) \<and>
     (\<forall>c c' i j. i \<in> set (A c) \<longrightarrow> j \<in> set (A c') \<longrightarrow> identify i = identify j \<longrightarrow> c = c')"

lemma owned_distinct: "owned A R \<Longrightarrow> distinct (map identify (A c))"
  by (simp add: owned_def)

lemma owned_route: "owned A R \<Longrightarrow> i \<in> set (A c) \<Longrightarrow> R (identify i) = Some i"
  unfolding owned_def by blast

lemma owned_owner: "owned A R \<Longrightarrow> R k = Some i \<Longrightarrow> identify i = k \<and> (\<exists>c. i \<in> set (A c))"
  unfolding owned_def by blast

lemma owned_unique:
  "owned A R \<Longrightarrow> i \<in> set (A c) \<Longrightarrow> j \<in> set (A c') \<Longrightarrow> identify i = identify j \<Longrightarrow> c = c'"
  unfolding owned_def by blast

lemma owned_add:
  assumes "owned A R" and "R (identify i) = None"
  shows "owned (A(c := i # A c)) (R(identify i \<mapsto> i))"
proof -
  have "identify j \<noteq> identify i" if "j \<in> set (A c')" for j c'
    using assms(2) owned_route [OF assms(1) that] by force
  then have m: "j = i \<and> c' = c \<or> j \<noteq> i \<and> j \<in> set (A c') \<and> identify j \<noteq> identify i"
    if "j \<in> set ((A(c := i # A c)) c')" for j c'
    using that by (cases "c' = c") auto
  show ?thesis
    unfolding owned_def
  proof (intro conjI allI impI)
    show "distinct (map identify ((A(c := i # A c)) c'))" for c'
    proof -
      have "distinct (map identify (A c))" "distinct (map identify (A c'))"
        using assms(1) owned_distinct by blast+
      moreover have "identify i \<notin> identify ` set (A c)"
        using \<open>\<And>j c'. j \<in> set (A c') \<Longrightarrow> identify j \<noteq> identify i\<close> by (metis imageE)
      ultimately show ?thesis by simp
    qed
    show "(R(identify i \<mapsto> i)) (identify j) = Some j" if "j \<in> set ((A(c := i # A c)) c')" for c' j
      using m [OF that] owned_route [OF assms(1), of j c'] by auto
    show "c1 = c2" if "j \<in> set ((A(c := i # A c)) c1)" "j' \<in> set ((A(c := i # A c)) c2)"
        "identify j = identify j'" for c1 c2 j j'
      using m [OF that(1)] m [OF that(2)] that(3) owned_unique [OF assms(1), of j c1 j' c2] by auto
    fix k j assume kj: "(R(identify i \<mapsto> i)) k = Some j"
    show "identify j = k"
      using kj owned_owner [OF assms(1), of k j] by (auto split: if_splits)
    show "\<exists>c'. j \<in> set ((A(c := i # A c)) c')"
    proof (cases "k = identify i")
      case True
      then show ?thesis using kj by (intro exI [of _ c]) simp
    next
      case False
      then obtain c' where "j \<in> set (A c')" using kj owned_owner [OF assms(1), of k j] by auto
      then show ?thesis by (intro exI [of _ c']) auto
    qed
  qed
qed

lemma owned_del:
  assumes "owned A R" and "A c = i # rest"
  shows "owned (A(c := rest)) (R(identify i := None))"
proof -
  have d: "identify j \<noteq> identify i" if "j \<in> set rest" for j
  proof -
    have "distinct (map identify (i # rest))" using owned_distinct [OF assms(1), of c] assms(2) by simp
    with that show ?thesis by (metis distinct.simps(2) imageI list.set_map list.simps(9))
  qed
  have o: "identify j \<noteq> identify i" if "j \<in> set (A c')" "c' \<noteq> c" for j c'
    using owned_unique [OF assms(1) that(1), of i c] assms(2) that(2) by auto
  have r: "i \<in> set (A c)" "set (A c) = insert i (set rest)" "distinct (map identify rest)"
    using owned_distinct [OF assms(1), of c] assms(2) by simp_all
  have k: "identify j = k \<and> (\<exists>c'. j \<in> set ((A(c := rest)) c'))"
    if "(R(identify i := None)) k = Some j" for k j
  proof -
    have "R k = Some j" "k \<noteq> identify i" using that by (auto split: if_splits)
    then obtain c' where c': "identify j = k" "j \<in> set (A c')" "j \<noteq> i"
      using owned_owner [OF assms(1), of k j] by auto
    then have "j \<in> set ((A(c := rest)) c')" using r(2) by auto
    with c' show ?thesis by blast
  qed
  have m: "j \<in> set (A c') \<and> identify j \<noteq> identify i" if "j \<in> set ((A(c := rest)) c')" for j c'
    using that d o r(2) by (cases "c' = c") auto
  show ?thesis
    unfolding owned_def
  proof (intro conjI allI impI)
    show "distinct (map identify ((A(c := rest)) c'))" for c'
      using owned_distinct [OF assms(1), of c'] r(3) by simp
    show "(R(identify i := None)) (identify j) = Some j" if "j \<in> set ((A(c := rest)) c')" for c' j
      using m [OF that] owned_route [OF assms(1), of j c'] by simp
    show "c1 = c2" if "j \<in> set ((A(c := rest)) c1)" "j' \<in> set ((A(c := rest)) c2)" "identify j = identify j'"
      for c1 c2 j j'
      using m [OF that(1)] m [OF that(2)] that(3) owned_unique [OF assms(1)] by blast
  qed (use k in blast)+
qed

definition inv_routes :: "network \<Rightarrow> server \<Rightarrow> bool" where
  "inv_routes nw s \<longleftrightarrow>
     mg_plugins (sv_pluginMgr s) = mg_plugins (registered nw) \<and> world_inv (sv_world s) \<and>
     owned (added s) (mg_routes (sv_pluginMgr s))"

lemma inv_routes_keep:
  "inv_routes nw s \<Longrightarrow> sv_pluginMgr t = sv_pluginMgr s \<Longrightarrow> sv_world t = sv_world s \<Longrightarrow> added t = added s \<Longrightarrow> inv_routes nw t"
  by (simp add: inv_routes_def)

lemma added_update:
  "sv_conns t = (sv_conns s)(c \<mapsto> cn') \<Longrightarrow> added t = (added s)(c := cn_added cn')"
  by (auto simp: added_def)

lemma added_same: "sv_conns s c = Some cn \<Longrightarrow> (added s)(c := cn_added cn) = added s"
  by (auto simp: added_def)

text \<open>The two kinds of steps that touch routes.\<close>

lemma on_forward_cases:
  obtains (idle) "on_forward c s = s"
  | (finished) cn where "sv_conns s c = Some cn" "cn_phase cn = Adding" "cn_todo cn = []"
      "on_forward c s = s\<lparr>sv_conns := (sv_conns s)(c \<mapsto> cn\<lparr>cn_phase := Replying\<rparr>)\<rparr>"
  | (failed) cn f rest err mgr w where "sv_conns s c = Some cn" "cn_phase cn = Adding" "cn_todo cn = f # rest"
      "AddProxy (item_of cn (sv_chans s) f) (sv_pluginMgr s) (sv_world s) = (Inl err, mgr, w)"
      "on_forward c s = s\<lparr>sv_pluginMgr := mgr, sv_world := w, sv_chans := sv_chans s + 1,
         sv_conns := (sv_conns s)(c \<mapsto> cn\<lparr>cn_phase := Unwinding\<rparr>)\<rparr>"
  | (ok) cn f rest p mgr w where "sv_conns s c = Some cn" "cn_phase cn = Adding" "cn_todo cn = f # rest"
      "AddProxy (item_of cn (sv_chans s) f) (sv_pluginMgr s) (sv_world s) = (Inr p, mgr, w)"
      "on_forward c s = s\<lparr>sv_pluginMgr := mgr, sv_world := w, sv_chans := sv_chans s + 1,
         sv_conns := (sv_conns s)(c \<mapsto> cn\<lparr>cn_todo := rest,
           cn_added := item_of cn (sv_chans s) f # cn_added cn,
           cn_infos := cn_infos cn @ [\<lparr>pt_Protocol = pm_Protocol (item_of cn (sv_chans s) f),
             pt_FromPort = pt_FromPort p, pt_ToPort = pt_ToPort p\<rparr>]\<rparr>)\<rparr>"
proof (cases "\<exists>cn f rest. sv_conns s c = Some cn \<and> cn_phase cn = Adding \<and> cn_todo cn = f # rest")
  case True
  then obtain cn f rest where cn: "sv_conns s c = Some cn" "cn_phase cn = Adding" "cn_todo cn = f # rest"
    by blast
  obtain r mgr w where a: "AddProxy (item_of cn (sv_chans s) f) (sv_pluginMgr s) (sv_world s) = (r, mgr, w)"
    by (cases "AddProxy (item_of cn (sv_chans s) f) (sv_pluginMgr s) (sv_world s)")
  show ?thesis
  proof (cases r)
    case (Inl err)
    show ?thesis
      by (rule failed [OF cn a [unfolded Inl]]) (simp add: on_forward_def cn a Inl Let_def)
  next
    case (Inr p)
    show ?thesis
      by (rule ok [OF cn a [unfolded Inr]]) (simp add: on_forward_def cn a Inr Let_def)
  qed
next
  case False
  show ?thesis
  proof (cases "\<exists>cn. sv_conns s c = Some cn \<and> cn_phase cn = Adding")
    case True
    with False obtain cn where cn: "sv_conns s c = Some cn" "cn_phase cn = Adding" "cn_todo cn = []"
      by (metis neq_Nil_conv)
    show ?thesis by (rule finished [OF cn]) (simp add: on_forward_def cn)
  next
    case False
    show ?thesis by (rule idle) (use False in \<open>auto simp: on_forward_def split: option.splits\<close>)
  qed
qed

lemma inv_routes_forward:
  assumes "inv_routes nw s"
  shows "inv_routes nw (on_forward c s)"
proof -
  have inv: "mg_plugins (sv_pluginMgr s) = mg_plugins (registered nw)" "world_inv (sv_world s)"
      "owned (added s) (mg_routes (sv_pluginMgr s))"
    using assms by (simp_all add: inv_routes_def del: registered_plugins)
  show ?thesis
  proof (cases rule: on_forward_cases [where c = c and s = s])
    case (finished cn)
    then show ?thesis
      by (intro inv_routes_keep [OF assms]) (simp_all add: added_update [of _ s c] added_same)
  next
    case (failed cn f rest err mgr w)
    have "mgr = sv_pluginMgr s \<and> w = sv_world s"
      using reg.AddProxy_fail_world [OF inv(1) failed(4)] by blast
    with failed show ?thesis
      by (intro inv_routes_keep [OF assms]) (simp_all add: added_update [of _ s c] added_same)
  next
    case (ok cn f rest p mgr w)
    let ?i = "item_of cn (sv_chans s) f"
    have a: "mg_routes (sv_pluginMgr s) (identify ?i) = None"
        "mg_routes mgr = (mg_routes (sv_pluginMgr s))(identify ?i \<mapsto> ?i)"
      using AddProxy_ok [OF ok(4)] by auto
    have "added s c = cn_added cn" using ok(1) by (simp add: added_def)
    moreover have "added (on_forward c s) = (added s)(c := ?i # cn_added cn)"
      unfolding ok(5) by (rule trans [OF added_update [of _ s c]]) auto
    ultimately have "owned (added (on_forward c s)) (mg_routes mgr)"
      using owned_add [OF inv(3) a(1), of c] a(2) by simp
    moreover have "world_inv w" "mg_plugins mgr = mg_plugins (registered nw)"
      using reg.AddProxy_inv [OF inv(1,2) ok(4)] by blast+
    ultimately show ?thesis unfolding inv_routes_def by (simp add: ok(5) del: registered_plugins)
  qed (use assms in simp)
qed

lemma on_unwind_cases:
  obtains (idle) "on_unwind c s = s"
  | (gone) cn where "sv_conns s c = Some cn" "cn_phase cn = Unwinding" "cn_added cn = []"
      "on_unwind c s = s\<lparr>sv_conns := (sv_conns s)(c := None)\<rparr>"
  | (del) cn item rest mgr w where "sv_conns s c = Some cn" "cn_phase cn = Unwinding"
      "cn_added cn = item # rest" "DelProxy item (sv_pluginMgr s) (sv_world s) = (mgr, w)"
      "on_unwind c s = s\<lparr>sv_pluginMgr := mgr, sv_world := w,
         sv_conns := (sv_conns s)(c \<mapsto> cn\<lparr>cn_added := rest\<rparr>)\<rparr>"
proof (cases "\<exists>cn. sv_conns s c = Some cn \<and> cn_phase cn = Unwinding")
  case True
  then obtain cn where cn: "sv_conns s c = Some cn" "cn_phase cn = Unwinding" by blast
  show ?thesis
  proof (cases "cn_added cn")
    case Nil
    show ?thesis by (rule gone [OF cn Nil]) (simp add: on_unwind_def cn Nil)
  next
    case (Cons item rest)
    obtain mgr w where d: "DelProxy item (sv_pluginMgr s) (sv_world s) = (mgr, w)" by fastforce
    show ?thesis by (rule del [OF cn Cons d]) (simp add: on_unwind_def cn Cons d)
  qed
next
  case False
  show ?thesis by (rule idle) (use False in \<open>auto simp: on_unwind_def split: option.splits\<close>)
qed

lemma inv_routes_unwind:
  assumes "inv_routes nw s"
  shows "inv_routes nw (on_unwind c s)"
proof -
  have inv: "mg_plugins (sv_pluginMgr s) = mg_plugins (registered nw)" "world_inv (sv_world s)"
      "owned (added s) (mg_routes (sv_pluginMgr s))"
    using assms by (simp_all add: inv_routes_def del: registered_plugins)
  show ?thesis
  proof (cases rule: on_unwind_cases [where c = c and s = s])
    case (gone cn)
    then have "added (on_unwind c s) = added s" by (auto simp: added_def fun_eq_iff)
    with gone show ?thesis by (intro inv_routes_keep [OF assms]) simp_all
  next
    case (del cn item rest mgr w)
    have "added s c = item # rest" using del by (simp add: added_def)
    moreover have "added (on_unwind c s) = (added s)(c := rest)"
      unfolding del(5) by (rule trans [OF added_update [of _ s c]]) auto
    moreover have "mg_routes mgr = (mg_routes (sv_pluginMgr s))(identify item := None)"
      using DelProxy_routes(1) [of item "sv_pluginMgr s" "sv_world s"] del(4) by simp
    ultimately have "owned (added (on_unwind c s)) (mg_routes mgr)"
      using owned_del [OF inv(3), of c item rest] by simp
    moreover have "world_inv w" "mg_plugins mgr = mg_plugins (registered nw)"
      using reg.DelProxy_inv [OF inv(1,2), of item] del(4) by simp_all
    ultimately show ?thesis unfolding inv_routes_def by (simp add: del(5) del: registered_plugins)
  qed (use assms in simp)
qed

lemma inv_routes_others:
  assumes "inv_routes nw s"
  shows "inv_routes nw (on_resolve c answer put s)" "inv_routes nw (on_reply c written muxed s)"
    "inv_routes nw (on_closed c s)" "world_inv w \<Longrightarrow> inv_routes nw (s\<lparr>sv_world := w\<rparr>)"
    "sv_conns s c = None \<Longrightarrow> inv_routes nw (on_auth c r now k s)"
proof -
  show "inv_routes nw (on_resolve c answer put s)"
    by (intro inv_routes_keep [OF assms])
      (auto simp: on_resolve_def added_def fun_eq_iff split: option.splits prod.splits)
  show "inv_routes nw (on_reply c written muxed s)"
    by (intro inv_routes_keep [OF assms])
      (auto simp: on_reply_def Let_def added_def fun_eq_iff split: option.splits)
  show "inv_routes nw (on_closed c s)"
    by (intro inv_routes_keep [OF assms]) (auto simp: on_closed_def added_def fun_eq_iff split: option.splits)
  show "inv_routes nw (s\<lparr>sv_world := w\<rparr>)" if "world_inv w"
  proof -
    have "added (s\<lparr>sv_world := w\<rparr>) = added s" by (simp add: added_def fun_eq_iff)
    with that assms show ?thesis by (simp add: inv_routes_def del: registered_plugins)
  qed
  show "inv_routes nw (on_auth c r now k s)" if "sv_conns s c = None"
    by (intro inv_routes_keep [OF assms]; cases rule: on_auth_cases [where c = c and r = r and now = now and k = k and s = s])
      (use that in \<open>auto simp: added_def fun_eq_iff\<close>)
qed

section \<open>Items\<close>

text \<open>A connection's routes lead to its own address and carry its own domain.\<close>

definition own_item :: "conn \<Rightarrow> PluginMeta \<Rightarrow> bool" where
  "own_item cn i \<longleftrightarrow> (\<exists>port. pm_To i = cn_vip cn @ '':'' @ port) \<and> pm_Domain i = cn_domain cn"

definition inv_items :: "server \<Rightarrow> bool" where
  "inv_items s \<longleftrightarrow> (\<forall>c cn. sv_conns s c = Some cn \<longrightarrow> (\<forall>i\<in>set (cn_added cn). own_item cn i))"

lemma inv_items_keep:
  assumes "inv_items s"
    and "\<And>c cn. sv_conns t c = Some cn \<Longrightarrow> cn_added cn = []
      \<or> (\<exists>cn'. sv_conns s c = Some cn' \<and> set (cn_added cn) \<subseteq> set (cn_added cn')
          \<and> cn_vip cn = cn_vip cn' \<and> cn_domain cn = cn_domain cn')"
  shows "inv_items t"
  using assms unfolding inv_items_def own_item_def
  by (metis empty_iff empty_set subset_iff)

lemma inv_items_phase:
  "inv_items s \<Longrightarrow> sv_conns s c = Some cn \<Longrightarrow> sv_conns t = (sv_conns s)(c \<mapsto> cn\<lparr>cn_phase := ph\<rparr>) \<Longrightarrow> inv_items t"
  by (rule inv_items_keep) (auto split: if_splits)

lemma own_item_of: "own_item cn (item_of cn ch f)"
  by (cases f) (simp add: own_item_def item_of_def)

lemma inv_items_forward:
  assumes "inv_items s"
  shows "inv_items (on_forward c s)"
proof (cases rule: on_forward_cases [where c = c and s = s])
  case (ok cn f rest p mgr w)
  have "own_item cn i" if "i \<in> set (item_of cn (sv_chans s) f # cn_added cn)" for i
  proof (cases "i = item_of cn (sv_chans s) f")
    case True
    show ?thesis unfolding True by (rule own_item_of)
  qed (use that assms ok(1) in \<open>auto simp: inv_items_def\<close>)
  then show ?thesis using assms by (auto simp: ok(5) inv_items_def own_item_def)
next
  case (failed cn f rest err mgr w)
  then show ?thesis by (intro inv_items_keep [OF assms]) (auto split: if_splits)
next
  case (finished cn)
  then show ?thesis by (intro inv_items_keep [OF assms]) (auto split: if_splits)
qed (use assms in simp)

lemma inv_items_step: "server_step s t \<Longrightarrow> inv_items s \<Longrightarrow> inv_items t"
proof (erule server_stepE)
  fix c r now k assume "inv_items s" "t = on_auth c r now k s"
  then show "inv_items t"
    by (cases rule: on_auth_cases [where c = c and r = r and now = now and k = k and s = s])
      (auto intro!: inv_items_keep [of s] split: if_splits)
next
  fix c assume "inv_items s" "t = on_unwind c s"
  then show "inv_items t"
    by (cases rule: on_unwind_cases [where c = c and s = s]) (auto intro!: inv_items_keep [of s] split: if_splits)
next
  fix c answer put assume "inv_items s" "t = on_resolve c answer put s"
  then show "inv_items t"
    by (auto simp: on_resolve_def intro: inv_items_phase inv_items_keep split: option.splits prod.splits)
next
  fix c written muxed assume "inv_items s" "t = on_reply c written muxed s"
  then show "inv_items t"
    by (auto simp: on_reply_def Let_def intro: inv_items_phase split: option.splits)
next
  fix c assume "inv_items s" "t = on_closed c s"
  then show "inv_items t"
    by (auto simp: on_closed_def intro: inv_items_phase split: option.splits)
qed (auto intro: inv_items_forward inv_items_keep)

section \<open>All reachable states\<close>

definition server_inv :: "network \<Rightarrow> string set \<Rightarrow> server \<Rightarrow> bool" where
  "server_inv nw pool s \<longleftrightarrow> inv_ip pool s \<and> inv_sess s \<and> inv_routes nw s \<and> inv_items s"

lemma server_inv_step: "server_step s t \<Longrightarrow> server_inv nw pool s \<Longrightarrow> server_inv nw pool t"
  unfolding server_inv_def
proof (intro conjI; elim conjE)
  assume st: "server_step s t" and i: "inv_ip pool s"
  show "inv_ip pool t" using inv_ip_step [OF st i] .
  show "inv_sess t" if "inv_sess s"
    using st by (rule server_stepE) (auto intro: inv_sess_others [OF that] inv_sess_reply [OF that i] inv_sess_closed [OF that i])
  show "inv_routes nw t" if "inv_routes nw s"
    using st by (rule server_stepE)
      (auto intro: inv_routes_others [OF that] inv_routes_forward [OF that] inv_routes_unwind [OF that])
  show "inv_items t" if "inv_items s" using inv_items_step [OF st that] .
qed

lemma server_inv_steps: "server_steps s t \<Longrightarrow> server_inv nw pool s \<Longrightarrow> server_inv nw pool t"
  by (induction rule: server_steps.induct) (auto intro: server_inv_step)

lemma server_inv_initial:
  assumes "NewServer cfg dhcp res nw (plugins_up nw plugins) answer = Some s" and "dhcp_inv pool dhcp" and "dh_inuse dhcp = []"
  shows "server_inv nw pool s"
proof -
  obtain ip where "publicIP answer = Some ip" using assms(1) by (auto simp: NewServer_def split: option.splits)
  then have s: "sv_conns s = Map.empty" "sv_dhcp s = dhcp" "sv_admitted s = 0" "sv_sessMgr s = sessionMgr"
      "sv_pluginMgr s = registered nw" "sv_world s = plugins_up nw plugins"
    using assms(1) by (auto simp: NewServer_def)
  have "added s = (\<lambda>c. [])" using s by (simp add: added_def fun_eq_iff)
  moreover have "world_inv (plugins_up nw plugins)"
    unfolding plugins_up_def by (rule reg.Setup_inv) simp_all
  ultimately have "inv_routes nw s" using s by (simp add: inv_routes_def owned_def)
  then show ?thesis
    using s assms by (auto simp: server_inv_def inv_ip_def inv_sess_def serves_def inv_items_def sess.lookup_empty)
qed

lemmas server_reachable = server_inv_steps [OF _ server_inv_initial]

lemma sessions_of_inv:
  assumes "server_inv nw pool s"
  shows "(\<forall>c c' cn cn'. sv_conns s c = Some cn \<and> sv_conns s c' = Some cn' \<and> cn_vip cn = cn_vip cn' \<longrightarrow> c = c')
    \<and> (\<forall>c cn. sv_conns s c = Some cn \<longrightarrow> cn_vip cn \<in> pool)
    \<and> (\<forall>v x. GetSession v (sv_sessMgr s) = Some x \<longleftrightarrow>
        (\<exists>c cn. sv_conns s c = Some cn \<and> cn_phase cn = Serving \<and> cn_vip cn = v \<and> x = newSession c v))"
proof -
  have inv: "inv_ip pool s" "inv_sess s" using assms by (simp_all add: server_inv_def)
  have "set (dh_inuse (sv_dhcp s)) \<subseteq> pool" using inv(1) by (auto simp: inv_ip_def dhcp_inv_def)
  with inv show ?thesis unfolding inv_ip_def inv_sess_def serves_def by blast
qed

text \<open>
  C6. In every state that a new server can reach, whatever the plugins' setup left, with any number of connections
  whose steps interleave in any order: two connections never have the same virtual
  address, every address comes from the pool, and looking up an address finds exactly
  the multiplexed connection of the one client that has this address and is being
  served.
\<close>

theorem server_sessions:
  assumes "NewServer cfg dhcp res nw (plugins_up nw plugins) answer = Some s0" and "dhcp_inv pool dhcp" and "dh_inuse dhcp = []"
    and "server_steps s0 s"
  shows "(\<forall>c c' cn cn'. sv_conns s c = Some cn \<and> sv_conns s c' = Some cn' \<and> cn_vip cn = cn_vip cn' \<longrightarrow> c = c')
    \<and> (\<forall>c cn. sv_conns s c = Some cn \<longrightarrow> cn_vip cn \<in> pool)
    \<and> (\<forall>v x. GetSession v (sv_sessMgr s) = Some x \<longleftrightarrow>
        (\<exists>c cn. sv_conns s c = Some cn \<and> cn_phase cn = Serving \<and> cn_vip cn = v \<and> x = newSession c v))"
  using sessions_of_inv [OF server_reachable [OF assms(4,1-3)]] .

text \<open>
  C7. In every reachable state each route belongs to one connection that is still
  there: it leads to this connection's address and carries its domain, and the
  connection will delete it. So, when all connections have gone, no route and no
  session is left.
\<close>

theorem server_routes:
  assumes "NewServer cfg dhcp res nw (plugins_up nw plugins) answer = Some s0" and "dhcp_inv pool dhcp" and "dh_inuse dhcp = []"
    and "server_steps s0 s"
  shows "(\<forall>k i. mg_routes (sv_pluginMgr s) k = Some i \<longrightarrow> identify i = k
      \<and> (\<exists>c cn. sv_conns s c = Some cn \<and> i \<in> set (cn_added cn) \<and> own_item cn i
          \<and> (\<forall>c' cn'. sv_conns s c' = Some cn' \<and> i \<in> set (cn_added cn') \<longrightarrow> c' = c)))
    \<and> (sv_conns s = Map.empty \<longrightarrow>
        mg_routes (sv_pluginMgr s) = Map.empty \<and> (\<forall>v. GetSession v (sv_sessMgr s) = None))"
proof -
  have inv: "inv_sess s" "owned (added s) (mg_routes (sv_pluginMgr s))" "inv_items s"
    using server_reachable [OF assms(4,1-3)] by (simp_all add: server_inv_def inv_routes_def)
  have route: "identify i = k \<and> (\<exists>c cn. sv_conns s c = Some cn \<and> i \<in> set (cn_added cn) \<and> own_item cn i
          \<and> (\<forall>c' cn'. sv_conns s c' = Some cn' \<and> i \<in> set (cn_added cn') \<longrightarrow> c' = c))"
    if rt: "mg_routes (sv_pluginMgr s) k = Some i" for k i
  proof -
    obtain c where c: "identify i = k" "i \<in> set (added s c)" using owned_owner [OF inv(2) rt] by blast
    then obtain cn where cn: "sv_conns s c = Some cn" "i \<in> set (cn_added cn)"
      by (cases "sv_conns s c") (simp_all add: added_def)
    have "c' = c" if "sv_conns s c' = Some cn'" "i \<in> set (cn_added cn')" for c' cn'
      using owned_unique [OF inv(2), of i c' i c] that c(2) by (simp add: added_def)
    then show ?thesis using c(1) cn inv(3) unfolding inv_items_def by blast
  qed
  moreover have "mg_routes (sv_pluginMgr s) = Map.empty \<and> (\<forall>v. GetSession v (sv_sessMgr s) = None)"
    if "sv_conns s = Map.empty"
  proof -
    have "mg_routes (sv_pluginMgr s) k = None" for k
      using route [of k] that by (cases "mg_routes (sv_pluginMgr s) k") auto
    moreover have "GetSession v (sv_sessMgr s) = None" for v
    proof -
      have "\<not> serves (sv_conns s) v x" for x using that by (simp add: serves_def)
      then show ?thesis using inv(1) unfolding inv_sess_def by (metis not_None_eq)
    qed
    ultimately show ?thesis by blast
  qed
  ultimately show ?thesis by blast
qed

text \<open>
  C9. No step gives an address back. The number of addresses in use is the number of
  clients ever admitted, whatever has become of them, and once as many clients have
  been admitted as the pool has addresses, the server admits nobody: not even when no
  connection is left.
\<close>

theorem vip_leak:
  assumes "NewServer cfg dhcp res nw (plugins_up nw plugins) answer = Some s0" and "dhcp_inv pool dhcp" and "dh_inuse dhcp = []"
    and "server_steps s0 s"
  shows "length (dh_inuse (sv_dhcp s)) = sv_admitted s
    \<and> length (dh_free (sv_dhcp s)) = card pool - sv_admitted s \<and> sv_admitted s \<le> card pool
    \<and> (sv_admitted s = card pool \<longrightarrow> on_auth c r now k s = s)"
proof -
  have inv: "dhcp_inv pool (sv_dhcp s)" "sv_admitted s = length (dh_inuse (sv_dhcp s))"
    using server_reachable [OF assms(4,1-3)] by (simp_all add: server_inv_def inv_ip_def)
  have "card pool = length (dh_free (sv_dhcp s)) + length (dh_inuse (sv_dhcp s))"
    using inv(1) by (auto simp: dhcp_inv_def card_Un_disjoint distinct_card)
  moreover have "on_auth c r now k s = s" if "dh_free (sv_dhcp s) = []"
    using that by (auto simp: on_auth_def SelectIP_def Let_def split: sum.splits)
  ultimately show ?thesis using inv(2) by auto
qed

section \<open>One connection on its own\<close>

text \<open>What the two loops do to the routes, when no other connection runs in between.\<close>

lemma forward_loop:
  assumes "sv_conns s c = Some cn" and "cn_phase cn = Adding"
  shows "\<exists>cn' new. sv_conns ((on_forward c ^^ n) s) c = Some cn' \<and> cn_added cn' = new @ cn_added cn
    \<and> cn_vip cn' = cn_vip cn \<and> cn_domain cn' = cn_domain cn
    \<and> (\<forall>i\<in>set new. mg_routes (sv_pluginMgr s) (identify i) = None)
    \<and> (\<forall>k. k \<notin> identify ` set new \<longrightarrow>
        mg_routes (sv_pluginMgr ((on_forward c ^^ n) s)) k = mg_routes (sv_pluginMgr s) k)
    \<and> sv_sessMgr ((on_forward c ^^ n) s) = sv_sessMgr s
    \<and> (\<exists>done. cn_todo cn = done @ cn_todo cn' \<and> length new = length done
        \<and> (cn_phase cn' = Replying \<longrightarrow> cn_todo cn' = []))"
proof (induction n)
  case 0
  then show ?case using assms by (intro exI [of _ cn] exI [of _ "[]"]) simp
next
  case (Suc n)
  let ?s = "(on_forward c ^^ n) s"
  from Suc obtain cn' new don where ih: "sv_conns ?s c = Some cn'" "cn_added cn' = new @ cn_added cn"
      "cn_vip cn' = cn_vip cn" "cn_domain cn' = cn_domain cn"
      "\<forall>i\<in>set new. mg_routes (sv_pluginMgr s) (identify i) = None"
      "\<forall>k. k \<notin> identify ` set new \<longrightarrow> mg_routes (sv_pluginMgr ?s) k = mg_routes (sv_pluginMgr s) k"
      "sv_sessMgr ?s = sv_sessMgr s" "cn_todo cn = don @ cn_todo cn'" "length new = length don"
      "cn_phase cn' = Replying \<longrightarrow> cn_todo cn' = []"
    by blast
  show ?case
  proof (cases rule: on_forward_cases [where c = c and s = "?s"])
    case idle
    then show ?thesis using ih by auto
  next
    case (finished cn1)
    then have "cn1 = cn'" using ih(1) by simp
    with finished ih show ?thesis by (intro exI [of _ "cn'\<lparr>cn_phase := Replying\<rparr>"] exI [of _ new]) auto
  next
    case (failed cn1 f rest err mgr w)
    have "mgr = sv_pluginMgr ?s" using AddProxy_fail [OF failed(4)] .
    moreover have "cn1 = cn'" using ih(1) failed(1) by simp
    ultimately show ?thesis using failed(5) ih
      by (intro exI [of _ "cn'\<lparr>cn_phase := Unwinding\<rparr>"] exI [of _ new]) auto
  next
    case (ok cn1 f rest p mgr w)
    let ?i = "item_of cn' (sv_chans ?s) f"
    have cn1: "cn1 = cn'" using ih(1) ok(1) by simp
    have a: "mg_routes (sv_pluginMgr ?s) (identify ?i) = None"
        "mg_routes mgr = (mg_routes (sv_pluginMgr ?s))(identify ?i \<mapsto> ?i)"
      using AddProxy_ok [OF ok(4)] cn1 by auto
    have "mg_routes (sv_pluginMgr s) (identify ?i) = None"
    proof (cases "identify ?i \<in> identify ` set new")
      case True
      then obtain j where "j \<in> set new" "identify j = identify ?i" by force
      then show ?thesis using ih(5) by metis
    qed (use ih(6) a(1) in metis)
    then show ?thesis
      using ok(2,3,5) cn1 ih a(2)
      by (intro exI [of _ "the (sv_conns (on_forward c ?s) c)"] exI [of _ "?i # new"] conjI)
        (auto intro: exI [of _ "don @ [f]"])
  qed
qed

lemma unwind_loop:
  assumes "sv_conns s c = Some cn" and "cn_phase cn = Unwinding"
  shows "sv_conns ((on_unwind c ^^ Suc (length (cn_added cn))) s) c = None
    \<and> mg_routes (sv_pluginMgr ((on_unwind c ^^ Suc (length (cn_added cn))) s))
        = (mg_routes (sv_pluginMgr s)) |` (- identify ` set (cn_added cn))
    \<and> sv_sessMgr ((on_unwind c ^^ Suc (length (cn_added cn))) s) = sv_sessMgr s"
  using assms
proof (induction "cn_added cn" arbitrary: cn s)
  case Nil
  then show ?case by (simp add: on_unwind_def)
next
  case (Cons i rest)
  let ?t = "on_unwind c s"
  obtain mgr w where d: "DelProxy i (sv_pluginMgr s) (sv_world s) = (mgr, w)" by fastforce
  have t: "?t = s\<lparr>sv_pluginMgr := mgr, sv_world := w, sv_conns := (sv_conns s)(c \<mapsto> cn\<lparr>cn_added := rest\<rparr>)\<rparr>"
    using Cons d by (simp add: on_unwind_def flip: Cons(2))
  have r: "mg_routes mgr = (mg_routes (sv_pluginMgr s))(identify i := None)"
    using DelProxy_routes(1) [of i "sv_pluginMgr s" "sv_world s"] d by simp
  have "(on_unwind c ^^ Suc (length (cn_added cn))) s = (on_unwind c ^^ Suc (length rest)) ?t"
    unfolding Cons(2) [symmetric] by (simp add: funpow_swap1)
  moreover have "(mg_routes mgr) |` (- identify ` set rest)
      = mg_routes (sv_pluginMgr s) |` (- identify ` set (cn_added cn))"
    unfolding r Cons(2) [symmetric] by (auto simp: restrict_map_def fun_eq_iff)
  ultimately show ?case
    using Cons.hyps(1) [of "cn\<lparr>cn_added := rest\<rparr>" ?t] Cons.prems(2) t by simp
qed


section \<open>A run\<close>

text \<open>A client that exports one tcp port connects, and is served.\<close>

definition sample_config :: ServerConfig where
  "sample_config = \<lparr>sc_ListenAddr = '':9092'', sc_AuthKey = ''k'', sc_Domain = ''notr.tech''\<rparr>"

definition small_dhcp :: DHCP where
  "small_dhcp = \<lparr>dh_cidr = ''10.0.0.1/30'', dh_localIP = ''10.0.0.1'', dh_free = [''10.0.0.2''], dh_inuse = []\<rparr>"

definition sample_server :: server where
  "sample_server = the (NewServer sample_config small_dhcp False sample_net (plugins_up sample_net []) (Some [CHR ''9'', CHR 0x0A]))"

lemma sample_NewServer: "NewServer sample_config small_dhcp False sample_net (plugins_up sample_net []) (Some [CHR ''9'', CHR 0x0A]) = Some sample_server"
  by (simp add: sample_server_def NewServer_def publicIP_def rcut_def)

lemma sample_server_sel [simp]:
  "sv_authKey sample_server = ''k''" "sv_dhcp sample_server = small_dhcp" "sv_resolver sample_server = False"
  "sv_crashed sample_server = False" "sv_conns sample_server = Map.empty" "sv_chans sample_server = 0"
  "sv_pluginMgr sample_server = registered sample_net" "sv_world sample_server = initial_world"
  "sv_sessMgr sample_server = sessionMgr" "sv_domain sample_server = ''notr.tech''" "sv_admitted sample_server = 0"
  by (simp_all add: sample_server_def NewServer_def publicIP_def rcut_def sample_config_def)

lemma small_dhcp_inv: "dhcp_inv {''10.0.0.2''} small_dhcp" "dh_inuse small_dhcp = []"
  by (simp_all add: small_dhcp_def dhcp_inv_def)

definition sample_reader :: reader where
  "sample_reader = ([WriteJSON marshal_C2SAuth CmdAuth sample_auth], EOF)"

lemma sample_ReadJSON: "fst (ReadJSON unmarshal_C2SAuth sample_reader) = Inr (canon_C2SAuth sample_auth)"
proof -
  have "pending sample_reader = WriteJSON marshal_C2SAuth CmdAuth sample_auth @ []"
    by (simp add: sample_reader_def pending_def)
  from auth_codec.ReadJSON_WriteJSON [OF sample_auth_ok this] show ?thesis by auto
qed

definition sample_admitted :: server where
  "sample_admitted = on_auth 0 sample_reader 5 0 sample_server"

definition sample_conn :: "phase \<Rightarrow> conn" where
  "sample_conn ph = \<lparr>cn_phase = ph, cn_vip = ''10.0.0.2'', cn_domain = ''6.notr.tech'',
     cn_todo = [(''tcp'', 22, ''2222'', [])], cn_added = [], cn_infos = []\<rparr>"

lemma randomDomain_5: "randomDomain 5 = ''6''"
  by (simp add: randomDomain_pos ALPHABET_def)

lemma sample_admitted_state:
  "sample_admitted = sample_server\<lparr>sv_dhcp := small_dhcp\<lparr>dh_free := [], dh_inuse := [''10.0.0.2'']\<rparr>,
     sv_admitted := 1, sv_conns := [0 \<mapsto> sample_conn Resolving]\<rparr>"
  by (simp add: sample_admitted_def on_auth_def sample_ReadJSON SelectIP_def small_dhcp_def Let_def
      sample_auth_def canon_C2SAuth_def forwards_of_def sort_ports_def sample_conn_def randomDomain_5)

lemma sample_admitted_reachable: "server_steps sample_server sample_admitted"
  unfolding sample_admitted_def by (intro server_more [OF server_refl sv_auth]) simp_all

definition sample_adding :: server where
  "sample_adding = on_resolve 0 None (\<lambda>k b. True) sample_admitted"

lemma sample_adding_state:
  "sample_adding = sample_admitted\<lparr>sv_conns := [0 \<mapsto> sample_conn Adding]\<rparr>"
  by (simp add: sample_adding_def on_resolve_def sample_admitted_state sample_conn_def)

definition sample_serving :: server where
  "sample_serving = on_reply 0 True True (on_forward 0 (on_forward 0 sample_adding))"

lemma sample_forwarded:
  "\<exists>cn. sv_conns (on_forward 0 (on_forward 0 sample_adding)) 0 = Some cn \<and> cn_phase cn = Replying \<and> cn_vip cn = ''10.0.0.2''
    \<and> \<not> sv_crashed (on_forward 0 (on_forward 0 sample_adding)) \<and> length (cn_added cn) = 1"
  by (simp add: on_forward_def sample_adding_state sample_admitted_state sample_conn_def Let_def
      item_of_def AddProxy_def TCPProxy_def TCPProxy_RunProxy_def sample_net_def)

lemma sample_serving_conn:
  "\<exists>cn. sv_conns sample_serving 0 = Some cn \<and> cn_phase cn = Serving \<and> cn_vip cn = ''10.0.0.2''
    \<and> length (cn_added cn) = 1"
  using sample_forwarded by (auto simp: sample_serving_def on_reply_def Let_def)

lemma sample_serving_reachable: "server_steps sample_server sample_serving"
proof -
  have nc: "\<not> sv_crashed sample_admitted" "\<not> sv_crashed sample_adding"
    by (simp_all add: sample_adding_state sample_admitted_state)
  then have "\<not> sv_crashed (on_forward 0 sample_adding)"
    by (auto simp: on_forward_def Let_def split: option.splits prod.splits list.splits sum.splits)
  with nc sample_forwarded show ?thesis
    unfolding sample_serving_def sample_adding_def
    by (intro server_more [OF _ sv_reply] server_more [OF _ sv_forward] server_more [OF _ sv_resolve]
        sample_admitted_reachable) (auto simp: sample_adding_def)
qed

theorem server_sessions_witness:
  "GetSession ''10.0.0.2'' (sv_sessMgr sample_serving) = Some (newSession 0 ''10.0.0.2'')"
  using server_sessions [OF sample_NewServer small_dhcp_inv sample_serving_reachable] sample_serving_conn by blast

theorem server_routes_witness:
  "\<exists>k i cn. mg_routes (sv_pluginMgr sample_serving) k = Some i \<and> sv_conns sample_serving 0 = Some cn
    \<and> i \<in> set (cn_added cn) \<and> own_item cn i"
proof -
  obtain cn i where cn: "sv_conns sample_serving 0 = Some cn" "i \<in> set (cn_added cn)"
    using sample_serving_conn by (metis length_greater_0_conv zero_less_one nth_mem)
  have "mg_routes (sv_pluginMgr sample_serving) (identify i) = Some i"
    using server_reachable [OF sample_serving_reachable sample_NewServer small_dhcp_inv] cn owned_route [of "added sample_serving" _ i 0]
    by (auto simp: server_inv_def inv_routes_def added_def)
  with server_routes [OF sample_NewServer small_dhcp_inv sample_serving_reachable] cn show ?thesis by metis
qed

theorem vip_leak_witness:
  "sv_admitted sample_admitted = 1 \<and> on_auth 1 sample_reader 9 3 sample_admitted = sample_admitted"
  using vip_leak [OF sample_NewServer small_dhcp_inv sample_admitted_reachable, of 1 sample_reader 9 3]
  by (simp add: sample_admitted_state)


end
