(* ===== verification/Client.thy ===== *)
theory Client
  imports Streams Hostport
begin

text \<open>
  The client (\<open>opennotr/client.go\<close>): connecting to the server, the handling of one
  stream, which the server opens for one proxied connection, and the two ways to
  proxy it to a local address. What dialling and the streams of the multiplexed
  connection do comes in as arguments.
\<close>

section \<open>Connecting\<close>

record Client =
  cl_srv :: string
  cl_key :: string
  cl_domain :: string
  cl_forwards :: "ForwardItem list"
  cl_tcpbuf :: nat
  cl_udpbuf :: nat

record ClientConfig =
  cc_ServerAddr :: string
  cc_Key :: string
  cc_Domain :: string
  cc_Forwards :: "ForwardItem list"

definition NewClient :: "ClientConfig \<Rightarrow> Client" where
  "NewClient cfg = \<lparr>cl_srv = cc_ServerAddr cfg, cl_key = cc_Key cfg, cl_domain = cc_Domain cfg,
     cl_forwards = cc_Forwards cfg, cl_tcpbuf = 4096, cl_udpbuf = 64 * 1024\<rparr>"

text \<open>
  One turn of the loop of \<open>Run\<close>, up to the loop that accepts streams: what the
  network does with it, and the outcome: whether the connection is left open, and
  what is printed for each tuple of the reply.
\<close>

record attempt =
  at_dialled :: bool
  at_written :: bool
  at_reply :: reader
  at_muxed :: bool

datatype run_outcome =
    DialFailed
  | AuthFailed
  | ReplyFailed
  | MuxFailed
  | Connected S2CAuth "string list"

definition proxy_line :: "S2CAuth \<Rightarrow> ProxyTuple \<Rightarrow> string" where
  "proxy_line auth item =
     (let fromaddr = (if length (pt_FromPort item) = 0 then s2c_Domain auth
                      else s2c_Domain auth @ '':'' @ pt_FromPort item)
      in pt_Protocol item @ ''://'' @ fromaddr @ '' => 127.0.0.1:'' @ pt_ToPort item)"

definition c2sauth :: "Client \<Rightarrow> C2SAuth" where
  "c2sauth c = \<lparr>c2s_Key = cl_key c, c2s_Domain = cl_domain c, c2s_Forward = cl_forwards c\<rparr>"

definition Run_once :: "Client \<Rightarrow> attempt \<Rightarrow> byte list \<times> run_outcome" where
  "Run_once c a =
     (if \<not> at_dialled a then ([], DialFailed)
      else let sent = WriteJSON marshal_C2SAuth CmdAuth (c2sauth c) in
        if \<not> at_written a then ([], AuthFailed)
        else case fst (ReadJSON unmarshal_S2CAuth (at_reply a)) of
               Inl err \<Rightarrow> (sent, ReplyFailed)
             | Inr auth \<Rightarrow>
                 if \<not> at_muxed a then (sent, MuxFailed)
                 else (sent, Connected auth (map (proxy_line auth) (s2c_ProxyInfos auth))))"

section \<open>Streams\<close>

text \<open>
  Where the handling of a stream arrives: closed; left open although nothing will
  read it again; or handed to one of the proxies with what the stream still holds.
\<close>

datatype stream_outcome =
    Closed
  | Abandoned
  | TcpProxied ProxyProtocol reader
  | UdpProxied ProxyProtocol reader

text \<open>
  The length is read with a plain \<open>Read\<close> into a zeroed buffer, whose count the code
  does not look at.
\<close>

definition lenbuf_value :: "byte list \<Rightarrow> nat" where
  "lenbuf_value bs = frame_length (take 2 (bs @ [0, 0]))"

definition handleStream :: "reader \<Rightarrow> stream_outcome" where
  "handleStream stream =
     (case rd_read 2 stream of
        (Inl err, _) \<Rightarrow> Closed
      | (Inr bs, stream1) \<Rightarrow>
          (case read_full (lenbuf_value bs) stream1 of
             (Inl err, _) \<Rightarrow> Closed
           | (Inr buf, stream2) \<Rightarrow>
               (case unmarshal_ProxyProtocol buf of
                  Inl err \<Rightarrow> Abandoned
                | Inr pp \<Rightarrow>
                    if pp_Protocol pp = ''tcp'' then TcpProxied pp stream2
                    else if pp_Protocol pp = ''udp'' then UdpProxied pp stream2
                    else Abandoned)))"

text \<open>
  \<open>tcpProxy\<close>: \<open>None\<close> when the dial failed and the stream is closed; otherwise the
  address dialled, the writes on the local connection and the writes on the stream.
\<close>

definition local_addr :: "ProxyProtocol \<Rightarrow> string" where
  "local_addr p = pp_DstIP p @ '':'' @ pp_DstPort p"

definition tcpProxy ::
  "Client \<Rightarrow> (string \<Rightarrow> bool) \<Rightarrow> reader \<times> nat \<Rightarrow> reader \<times> nat \<Rightarrow> ProxyProtocol
    \<Rightarrow> (string \<times> byte list list \<times> byte list list) option" where
  "tcpProxy c dial stream_in remote_in p =
     (let addr = local_addr p in
      if \<not> dial addr then None
      else Some (addr, copy_buffer (cl_tcpbuf c) (snd stream_in) (fst stream_in),
                 copy_buffer (cl_tcpbuf c) (snd remote_in) (fst remote_in)))"

text \<open>
  \<open>udpProxy\<close>: the address has to resolve (or the stream is closed) and to be dialled
  (or the stream is left open); then the datagrams written to the local address, and
  the frames written on the stream for the datagrams that it answers, as many as the
  stream takes.
\<close>

datatype udp_outcome =
    UdpClosed
  | UdpAbandoned
  | UdpRunning string "byte list list" "byte list list"

text \<open>The client has its own copy of the server's \<open>encode\<close>.\<close>

definition client_encode :: "byte list \<Rightarrow> byte list" where
  "client_encode raw = (let buf = put_u16 (len_u16 raw) in buf @ raw)"

lemma client_encode [simp]: "client_encode = encode"
  by (simp add: fun_eq_iff client_encode_def encode_def)

definition udpProxy ::
  "(string \<Rightarrow> bool) \<Rightarrow> (string \<Rightarrow> bool) \<Rightarrow> reader \<Rightarrow> byte list list \<Rightarrow> nat \<Rightarrow> ProxyProtocol \<Rightarrow> udp_outcome" where
  "udpProxy resolve dial stream answers k p =
     (let addr = local_addr p in
      if \<not> resolve addr then UdpClosed
      else if \<not> dial addr then UdpAbandoned
      else UdpRunning addr (read_frames stream) (map client_encode (take k answers)))"

text \<open>
  A whole turn of \<open>Run\<close>: when the connection is there, streams are accepted until the first
  error, each handled by its own goroutine. After every turn, whatever it came to, \<open>Run\<close>
  waits and begins the next; a turn leaves nothing behind for it.
\<close>

definition Run_turn :: "Client \<Rightarrow> attempt \<times> reader option list \<Rightarrow> byte list \<times> run_outcome \<times> stream_outcome list" where
  "Run_turn c turn =
     (case Run_once c (fst turn) of
        (sent, Connected auth lines) \<Rightarrow> (sent, Connected auth lines, map handleStream (accept_loop (snd turn)))
      | (sent, other) \<Rightarrow> (sent, other, []))"

definition Client_Run ::
  "Client \<Rightarrow> (attempt \<times> reader option list) list \<Rightarrow> (byte list \<times> run_outcome \<times> stream_outcome list) list" where
  "Client_Run c turns = map (Run_turn c) turns"

text \<open>
  The program (\<open>opennotr/main.go\<close>, \<open>opennotr/config.go\<close>): without a configuration it ends, and
  with one it never does. The file system and the YAML library are arguments.
\<close>

record client_host =
  ch_ReadFile :: "string \<Rightarrow> byte list option"
  ch_yaml :: "byte list \<Rightarrow> ClientConfig option"

definition client_ParseConfig :: "client_host \<Rightarrow> string \<Rightarrow> ClientConfig option" where
  "client_ParseConfig h path =
     (case ch_ReadFile h path of
        None \<Rightarrow> None
      | Some cnt \<Rightarrow> ch_yaml h cnt)"

definition client_main ::
  "client_host \<Rightarrow> string \<Rightarrow> (attempt \<times> reader option list) list
    \<Rightarrow> (byte list \<times> run_outcome \<times> stream_outcome list) list option" where
  "client_main h confpath turns =
     (case client_ParseConfig h confpath of
        None \<Rightarrow> None
      | Some cfg \<Rightarrow> Some (Client_Run (NewClient cfg) turns))"

section \<open>What a stream's first frame leads to\<close>

lemma lenbuf_value_two [simp]: "length bs = 2 \<Longrightarrow> lenbuf_value bs = frame_length bs"
  by (simp add: lenbuf_value_def)

lemma handleStream_frame:
  assumes "ok_ProxyProtocol pp" and "length (marshal_ProxyProtocol pp) \<le> 65535"
    and "pending (ch # cs, e) = encode (marshal_ProxyProtocol pp) @ rest" and "2 \<le> length ch"
  shows "\<exists>stream'. pending stream' = rest \<and> snd stream' = e \<and> handleStream (ch # cs, e) =
    (if pp_Protocol pp = ''tcp'' then TcpProxied pp stream'
     else if pp_Protocol pp = ''udp'' then UdpProxied pp stream' else Abandoned)"
proof -
  let ?b = "marshal_ProxyProtocol pp"
  obtain s1 where s1: "rd_read 2 (ch # cs, e) = (Inr (take 2 ch), s1)" "pending s1 = drop 2 ch @ concat cs" "snd s1 = e"
    using rd_read_first [OF assms(4), of cs e] by blast
  have enc: "ch @ concat cs = encode ?b @ rest" using assms(3) by (simp add: pending_def)
  have "take 2 ch = take 2 (ch @ concat cs)" using assms(4) by simp
  then have hd: "take 2 ch = take 2 (encode ?b)" by (simp add: enc)
  have "drop 2 (ch @ concat cs) = drop 2 ch @ concat cs" using assms(4) by simp
  then have p1: "pending s1 = ?b @ rest" using s1(2) by (simp add: enc)
  have len: "lenbuf_value (take 2 ch) = length ?b"
    using frame_length_encode [OF assms(2)] hd assms(4) by simp
  obtain s2 where s2: "read_full (length ?b) s1 = (Inr ?b, s2)" "pending s2 = rest" "snd s2 = e"
    using read_full_enough [of "length ?b" s1] p1 s1(3) by auto
  have "unmarshal_ProxyProtocol ?b = Inr pp" using proxy_codec.dcd_enc [OF assms(1)] by simp
  with s1(1) s2 len show ?thesis by (intro exI [of _ s2]) (simp add: handleStream_def)
qed

end
