(* ===== verification/Handshake.thy ===== *)
theory Handshake
  imports Server Client
begin

text \<open>
  A client that connects to the server: its message, the connection's goroutine on the
  server in any interleaving with the others, and the reply that it reads. What the client
  prints about its forwards is compared with the routes and the session that the server
  has made.
\<close>

section \<open>What a connection has done for its forwards\<close>

text \<open>A forward that has been added, its route and the tuple of the reply.\<close>

fun forward_done :: "conn \<Rightarrow> forward \<Rightarrow> PluginMeta \<times> ProxyTuple \<Rightarrow> bool" where
  "forward_done cn (protocol, publicPort, localPort, raw) (i, t) \<longleftrightarrow>
     pm_Protocol i = protocol \<and> pm_From i = ''0.0.0.0:'' @ dec_int publicPort
     \<and> pm_To i = cn_vip cn @ '':'' @ localPort \<and> pt_Protocol t = protocol
     \<and> (protocol \<noteq> ''dummy'' \<longrightarrow> pt_ToPort t = port_of (pm_To i))"

definition follows :: "forward list \<Rightarrow> conn \<Rightarrow> bool" where
  "follows fs cn \<longleftrightarrow> length (cn_added cn) = length (cn_infos cn)
     \<and> (\<exists>dn. fs = dn @ cn_todo cn \<and> list_all2 (forward_done cn) dn (zip (rev (cn_added cn)) (cn_infos cn)))
     \<and> (cn_phase cn = Replying \<or> cn_phase cn = Serving \<longrightarrow> cn_todo cn = [])"

text \<open>The connection is there, with its address and domain, and keeps to its forwards until it unwinds.\<close>

definition tracks :: "forward list \<Rightarrow> string \<Rightarrow> string \<Rightarrow> conn \<Rightarrow> bool" where
  "tracks fs dmn vip cn \<longleftrightarrow> cn_domain cn = dmn \<and> cn_vip cn = vip \<and> (cn_phase cn \<noteq> Unwinding \<longrightarrow> follows fs cn)"

lemma run_to_port:
  assumes "mg_plugins (registered nw) p = Some plug" and "plug_RunProxy plug item w = (Inr t, w')" and "p \<noteq> ''dummy''"
  shows "pt_ToPort t = port_of (pm_To item)"
  using assms(1)
proof (cases rule: registered_cases)
  case dummy
  with assms(3) show ?thesis by simp
qed (use assms(2) in \<open>auto simp: plugin_defs Let_def split: sum.splits option.splits if_splits\<close>)

lemma forward_done_item:
  assumes "mg_plugins (sv_pluginMgr s) = mg_plugins (registered nw)"
    and "AddProxy (item_of cn ch f) (sv_pluginMgr s) w = (Inr p, mgr, w')"
  shows "forward_done cn f (item_of cn ch f, \<lparr>pt_Protocol = pm_Protocol (item_of cn ch f), pt_FromPort = pt_FromPort p, pt_ToPort = pt_ToPort p\<rparr>)"
proof -
  obtain plug where p: "mg_plugins (registered nw) (pm_Protocol (item_of cn ch f)) = Some plug"
      "plug_RunProxy plug (item_of cn ch f) w = (Inr p, w')"
    using AddProxy_ok [OF assms(2)] assms(1) by (auto simp del: registered_plugins)
  show ?thesis using run_to_port [OF p] by (cases f) (simp add: item_of_def)
qed

lemma forward_done_same: "cn_vip cn' = cn_vip cn \<Longrightarrow> forward_done cn' = forward_done cn"
  by (auto simp: fun_eq_iff)

lemma tracks_phase:
  assumes "tracks fs dmn vip cn" and "cn_phase cn \<noteq> Unwinding" and "ph = Replying \<or> ph = Serving \<longrightarrow> cn_todo cn = []"
  shows "tracks fs dmn vip (cn\<lparr>cn_phase := ph\<rparr>)"
  using assms by (auto simp: tracks_def follows_def forward_done_same [of "cn\<lparr>cn_phase := ph\<rparr>" cn])

lemma tracks_unwinding: "tracks fs dmn vip cn \<Longrightarrow> tracks fs dmn vip (cn\<lparr>cn_phase := Unwinding\<rparr>)"
  by (simp add: tracks_def)

lemma tracks_serving: "tracks fs dmn vip cn \<Longrightarrow> cn_phase cn = Replying \<Longrightarrow> tracks fs dmn vip (cn\<lparr>cn_phase := Serving\<rparr>)"
  by (rule tracks_phase) (auto simp: tracks_def follows_def)

lemma tracks_adding: "tracks fs dmn vip cn \<Longrightarrow> cn_phase cn = Resolving \<Longrightarrow> tracks fs dmn vip (cn\<lparr>cn_phase := Adding\<rparr>)"
  by (rule tracks_phase) auto

lemma tracks_added:
  assumes "tracks fs dmn vip cn" and "cn_phase cn = Adding" and "cn_todo cn = f # rest" and "forward_done cn f (i, t)"
  shows "tracks fs dmn vip (cn\<lparr>cn_todo := rest, cn_added := i # cn_added cn, cn_infos := cn_infos cn @ [t]\<rparr>)"
proof -
  let ?cn = "cn\<lparr>cn_todo := rest, cn_added := i # cn_added cn, cn_infos := cn_infos cn @ [t]\<rparr>"
  obtain dn where dn: "length (cn_added cn) = length (cn_infos cn)" "fs = dn @ f # rest"
      "list_all2 (forward_done cn) dn (zip (rev (cn_added cn)) (cn_infos cn))"
    using assms(1-3) by (auto simp: tracks_def follows_def)
  have "zip (rev (cn_added ?cn)) (cn_infos ?cn) = zip (rev (cn_added cn)) (cn_infos cn) @ [(i, t)]"
    using dn(1) by simp
  then have "list_all2 (forward_done ?cn) (dn @ [f]) (zip (rev (cn_added ?cn)) (cn_infos ?cn))"
    using dn(3) assms(4) forward_done_same [of ?cn cn] by (simp add: list_all2_appendI)
  moreover have "fs = (dn @ [f]) @ cn_todo ?cn" using dn(2) by simp
  ultimately show ?thesis using assms(1,2) dn(1) unfolding tracks_def follows_def by auto
qed

section \<open>In every interleaving\<close>

text \<open>Steps of the server while the connection is there.\<close>

inductive alive :: "nat \<Rightarrow> server \<Rightarrow> server \<Rightarrow> bool" for c where
  alive_refl: "sv_conns s c \<noteq> None \<Longrightarrow> alive c s s"
| alive_step: "alive c s t \<Longrightarrow> server_step t u \<Longrightarrow> sv_conns u c \<noteq> None \<Longrightarrow> alive c s u"

lemma alive_steps: "alive c s t \<Longrightarrow> server_steps r s \<Longrightarrow> server_steps r t"
  by (induction rule: alive.induct) (auto intro: server_more)

definition tracked :: "forward list \<Rightarrow> string \<Rightarrow> string \<Rightarrow> nat \<Rightarrow> server \<Rightarrow> bool" where
  "tracked fs dmn vip c s \<longleftrightarrow> (\<exists>cn. sv_conns s c = Some cn \<and> tracks fs dmn vip cn)"

lemma tracked_update:
  assumes "tracked fs dmn vip c s" and "sv_conns s c' = Some cn" and "sv_conns t = (sv_conns s)(c' \<mapsto> cn')"
    and "tracks fs dmn vip cn \<Longrightarrow> tracks fs dmn vip cn'"
  shows "tracked fs dmn vip c t"
  using assms by (auto simp: tracked_def)

lemma tracked_forward:
  assumes "mg_plugins (sv_pluginMgr s) = mg_plugins (registered nw)" and "tracked fs dmn vip c s"
  shows "tracked fs dmn vip c (on_forward c' s)"
proof (cases rule: on_forward_cases [where c = c' and s = s])
  case (finished cn)
  then show ?thesis
    by (intro tracked_update [OF assms(2) finished(1), where cn' = "cn\<lparr>cn_phase := Replying\<rparr>"]) (auto intro: tracks_phase)
next
  case (failed cn f rest err mgr w)
  then show ?thesis
    by (intro tracked_update [OF assms(2) failed(1), where cn' = "cn\<lparr>cn_phase := Unwinding\<rparr>"]) (auto intro: tracks_unwinding)
next
  case (ok cn f rest p mgr w)
  note t = tracks_added [OF _ ok(2,3) forward_done_item [OF assms(1) ok(4)]]
  show ?thesis
    by (rule tracked_update [OF assms(2) ok(1) _ t]) (simp_all add: ok(5))
qed (use assms in simp)

lemma tracked_step:
  assumes "server_step s t" and "mg_plugins (sv_pluginMgr s) = mg_plugins (registered nw)" and "tracked fs dmn vip c s"
    and "sv_conns t c \<noteq> None"
  shows "tracked fs dmn vip c t"
  using assms(1)
proof (rule server_stepE)
  fix c' r now k assume "t = on_auth c' r now k s" "sv_conns s c' = None"
  then show ?thesis using assms(3)
    by (cases rule: on_auth_cases [where c = c' and r = r and now = now and k = k and s = s]) (auto simp: tracked_def)
next
  fix c' answer put assume t: "t = on_resolve c' answer put s"
  show ?thesis
  proof (cases "\<exists>cn. sv_conns s c' = Some cn \<and> cn_phase cn = Resolving")
    case True
    then obtain cn where "sv_conns s c' = Some cn" "cn_phase cn = Resolving" by blast
    with t assms(3) show ?thesis
      by (auto simp: on_resolve_def tracked_def tracks_adding tracks_unwinding split: option.splits prod.splits)
  qed (use t assms(3) in \<open>auto simp: on_resolve_def split: option.splits\<close>)
next
  fix c' written muxed assume t: "t = on_reply c' written muxed s"
  show ?thesis
  proof (cases "\<exists>cn. sv_conns s c' = Some cn \<and> cn_phase cn = Replying")
    case True
    then obtain cn where "sv_conns s c' = Some cn" "cn_phase cn = Replying" by blast
    with t assms(3) show ?thesis
      by (auto simp: on_reply_def Let_def tracked_def tracks_serving tracks_unwinding)
  qed (use t assms(3) in \<open>auto simp: on_reply_def split: option.splits\<close>)
next
  fix c' assume t: "t = on_closed c' s"
  with assms(3) show ?thesis by (auto simp: on_closed_def tracked_def tracks_unwinding split: option.splits)
next
  fix c' assume t: "t = on_unwind c' s"
  show ?thesis unfolding t
    by (cases rule: on_unwind_cases [where c = c' and s = s])
      (use assms(3,4) t in \<open>auto simp: tracked_def tracks_def split: if_splits\<close>)
next
  fix w assume "t = s\<lparr>sv_world := w\<rparr>"
  with assms(3) show ?thesis by (simp add: tracked_def)
qed (use tracked_forward [OF assms(2,3)] in simp)

lemma alive_start: "alive c s t \<Longrightarrow> sv_conns s c \<noteq> None"
  by (induction rule: alive.induct) auto

lemma tracked_alive:
  assumes "NewServer cfg dhcp res nw (plugins_up nw plugins) answer = Some s0" and "dhcp_inv pool dhcp" and "dh_inuse dhcp = []"
    and "alive c s t" and "server_steps s0 s" and "tracked fs dmn vip c s"
  shows "tracked fs dmn vip c t"
  using assms(4-6)
proof (induction rule: alive.induct)
  case (alive_step s t u)
  have "server_steps s0 t" using alive_step.hyps(1) alive_step.prems(1) by (rule alive_steps)
  from server_reachable [OF this assms(1-3)] have "mg_plugins (sv_pluginMgr t) = mg_plugins (registered nw)"
    by (simp add: server_inv_def inv_routes_def del: registered_plugins)
  from tracked_step [OF alive_step.hyps(2) this alive_step.IH [OF alive_step.prems] alive_step.hyps(3)] show ?case .
qed

text \<open>The message that the server reads is the client's, with the ports in an order of their own.\<close>

lemma server_reads_client:
  assumes "ok_C2SAuth (c2sauth cl)" and "length (marshal_C2SAuth (c2sauth cl)) \<le> 65535"
    and "at_dialled a" and "at_written a" and "pending r = fst (Run_once cl a)"
  shows "fst (ReadJSON unmarshal_C2SAuth r) = Inr (canon_C2SAuth (c2sauth cl))"
proof -
  have "fst (Run_once cl a) = WriteJSON marshal_C2SAuth CmdAuth (c2sauth cl)"
    using assms(3,4) by (auto simp: Run_once_def Let_def split: sum.splits)
  then have "pending r = WriteJSON marshal_C2SAuth CmdAuth (c2sauth cl) @ []" using assms(5) by simp
  from auth_codec.ReadJSON_WriteJSON [OF assms(1,2) this] show ?thesis by auto
qed

lemma forwards_of_canon:
  "f \<in> set (c2s_Forward a) \<Longrightarrow> (pub, loc) \<in> set (fw_Ports f) \<Longrightarrow>
    (fw_Protocol f, pub, loc, fw_RawConfig f) \<in> set (forwards_of (canon_C2SAuth a))"
  by (force simp: forwards_of_def canon_C2SAuth_def sort_ports_def)

lemma length_forwards_of_canon:
  "length (forwards_of (canon_C2SAuth a)) = sum_list (map (\<lambda>f. length (fw_Ports f)) (c2s_Forward a))"
  by (simp add: forwards_of_def canon_C2SAuth_def sort_ports_def length_concat comp_def)

lemma port_of_plain: "plain_host h \<Longrightarrow> plain_host p \<Longrightarrow> port_of (h @ '':'' @ p) = p"
  by (simp add: port_of_def)

lemma conn_follows:
  assumes "NewServer cfg dhcp res nw (plugins_up nw plugins) answer = Some s0" and "dhcp_inv pool dhcp" and "dh_inuse dhcp = []"
    and "server_steps s0 s" and "\<not> sv_crashed s" and "sv_conns s c = None"
    and "ok_C2SAuth (c2sauth cl)" and "length (marshal_C2SAuth (c2sauth cl)) \<le> 65535"
    and "at_dialled a" and "at_written a" and "pending r = fst (Run_once cl a)"
    and "alive c (on_auth c r now k s) t" and "sv_conns t c = Some cn" and "cn_phase cn \<noteq> Unwinding"
  shows "follows (forwards_of (canon_C2SAuth (c2sauth cl))) cn \<and> (cl_domain cl \<noteq> [] \<longrightarrow> cn_domain cn = cl_domain cl)
    \<and> server_inv nw pool t"
proof -
  let ?auth = "canon_C2SAuth (c2sauth cl)" and ?s1 = "on_auth c r now k s"
  let ?dmn = "if cl_domain cl = [] then randomDomain now @ ''.'' @ sv_domain s else cl_domain cl"
  have read: "fst (ReadJSON unmarshal_C2SAuth r) = Inr ?auth"
    by (rule server_reads_client [OF assms(7-11)])
  have steps: "server_steps s0 ?s1" "server_steps s0 t"
    using assms(4-6) alive_steps [OF assms(12)] by (auto intro: server_more sv_auth)
  obtain vip where s1: "tracked (forwards_of ?auth) ?dmn vip c ?s1"
  proof (cases rule: on_auth_cases [where c = c and r = r and now = now and k = k and s = s])
    case refused
    then show ?thesis using alive_start [OF assms(12)] assms(6) by simp
  next
    case (admitted auth vip dhcp')
    have "auth = ?auth" using read admitted(1) by simp
    moreover have "c2s_Domain ?auth = cl_domain cl" by (simp add: canon_C2SAuth_def c2sauth_def)
    ultimately have "tracked (forwards_of ?auth) ?dmn vip c ?s1"
      unfolding admitted(4) by (simp add: tracked_def tracks_def follows_def)
    then show ?thesis by (rule that)
  qed
  have "tracks (forwards_of ?auth) ?dmn vip cn"
    using tracked_alive [OF assms(1-3,12) steps(1) s1] assms(13) by (simp add: tracked_def)
  then show ?thesis
    using assms(14) server_reachable [OF steps(2) assms(1-3)] by (auto simp: tracks_def)
qed

section \<open>The client is served\<close>

text \<open>What is printed for a forward with the public port \<open>from_port\<close>.\<close>

definition printed :: "string \<Rightarrow> string \<Rightarrow> string \<Rightarrow> string \<Rightarrow> string" where
  "printed protocol domain from_port local =
     protocol @ ''://'' @ (if from_port = [] then domain else domain @ '':'' @ from_port) @ '' => 127.0.0.1:'' @ local"

lemma follows_route:
  assumes "follows fs cn" and "cn_phase cn = Replying \<or> cn_phase cn = Serving" and "(protocol, pub, loc, raw) \<in> set fs" and "protocol \<noteq> ''dummy''"
    and "plain_host (cn_vip cn)" and "plain_host loc" and "s2c_ProxyInfos reply = cn_infos cn"
  shows "\<exists>i \<in> set (cn_added cn). pm_Protocol i = protocol \<and> pm_From i = ''0.0.0.0:'' @ dec_int pub
    \<and> pm_To i = cn_vip cn @ '':'' @ loc
    \<and> (\<exists>from_port. printed protocol (s2c_Domain reply) from_port loc \<in> set (map (proxy_line reply) (s2c_ProxyInfos reply)))"
proof -
  have len: "length (cn_added cn) = length (cn_infos cn)"
    and l: "list_all2 (forward_done cn) fs (zip (rev (cn_added cn)) (cn_infos cn))"
    using assms(1,2) by (auto simp: follows_def)
  obtain j where j: "j < length fs" "fs ! j = (protocol, pub, loc, raw)" using assms(3) by (auto simp: in_set_conv_nth)
  let ?i = "rev (cn_added cn) ! j" and ?t = "cn_infos cn ! j"
  have lt: "j < length (cn_infos cn)" using list_all2_lengthD [OF l] j(1) len by simp
  then have d: "forward_done cn (protocol, pub, loc, raw) (?i, ?t)" using list_all2_nthD [OF l j(1)] j(2) len by simp
  have "?i \<in> set (rev (cn_added cn))" by (rule nth_mem) (use lt len in simp)
  then have "?i \<in> set (cn_added cn)" by simp
  moreover have "pt_ToPort ?t = loc" using d assms(4) port_of_plain [OF assms(5,6)] by simp
  then have "proxy_line reply ?t = printed protocol (s2c_Domain reply) (pt_FromPort ?t) loc"
    using d by (simp add: proxy_line_def printed_def)
  moreover have "?t \<in> set (s2c_ProxyInfos reply)" using lt assms(7) by simp
  ultimately show ?thesis using d by (intro bexI [of _ ?i]) (auto intro!: exI [of _ "pt_FromPort ?t"] image_eqI)
qed


section \<open>An example\<close>

definition sample_client :: Client where
  "sample_client = NewClient \<lparr>cc_ServerAddr = ''198.51.100.1:9092'', cc_Key = ''k'', cc_Domain = [],
     cc_Forwards = c2s_Forward sample_auth\<rparr>"

definition sample_replying :: server where
  "sample_replying = on_forward 0 (on_forward 0 sample_adding)"

definition sample_reply :: S2CAuth where
  "sample_reply = \<lparr>s2c_Domain = ''6.notr.tech'', s2c_Vip = ''10.0.0.2'',
     s2c_ProxyInfos = [\<lparr>pt_Protocol = ''tcp'', pt_FromPort = ''22'', pt_ToPort = ''2222''\<rparr>]\<rparr>"

definition sample_attempt :: attempt where
  "sample_attempt = \<lparr>at_dialled = True, at_written = True, at_reply = ([WriteJSON marshal_S2CAuth CmdAuth sample_reply], EOF), at_muxed = True\<rparr>"

lemma sample_client_auth: "c2sauth sample_client = sample_auth"
  by (simp add: c2sauth_def sample_client_def NewClient_def sample_auth_def)

lemma sample_ports:
  "port_of (''0.0.0.0:'' @ dec_int 22) = ''22''" "port_of ''10.0.0.2:2222'' = ''2222''"
  using port_of_plain [of "''0.0.0.0''" "dec 22"] port_of_plain [of "''10.0.0.2''" "''2222''"]
  by (simp_all add: plain_host_def dec_int_def dec.simps digit_table)

lemma sample_replying_conn:
  "\<exists>cn. sv_conns sample_replying 0 = Some cn \<and> cn_phase cn = Replying \<and> cn_vip cn = ''10.0.0.2'' \<and> cn_domain cn = ''6.notr.tech''
    \<and> cn_infos cn = s2c_ProxyInfos sample_reply"
  using sample_ports
  by (simp add: sample_replying_def sample_reply_def on_forward_def sample_adding_state sample_admitted_state sample_conn_def Let_def
      item_of_def AddProxy_def TCPProxy_def TCPProxy_RunProxy_def sample_net_def)

lemma sample_alive: "alive 0 (on_auth 0 sample_reader 5 0 sample_server) sample_replying"
proof -
  have nc: "\<not> sv_crashed sample_admitted" "\<not> sv_crashed sample_adding"
    "sv_conns sample_admitted 0 \<noteq> None" "sv_conns sample_adding 0 \<noteq> None"
    by (simp_all add: sample_adding_state sample_admitted_state)
  then have f: "\<not> sv_crashed (on_forward 0 sample_adding)" "sv_conns (on_forward 0 sample_adding) 0 \<noteq> None"
    by (auto simp: on_forward_def Let_def split: option.splits prod.splits list.splits sum.splits)
  have "alive 0 sample_admitted (on_forward 0 (on_forward 0 sample_adding))"
    using nc f sample_replying_conn unfolding sample_adding_def sample_replying_def
    by (intro alive_step [OF _ sv_forward] alive_step [OF _ sv_resolve] alive_refl) auto
  then show ?thesis by (simp add: sample_admitted_def sample_replying_def)
qed

lemma sample_reply_ok: "ok_S2CAuth sample_reply" "length (marshal_S2CAuth sample_reply) \<le> 65535"
proof -
  show "ok_S2CAuth sample_reply" by (simp add: ok_S2CAuth_def sample_reply_def ascii_def)
  show "length (marshal_S2CAuth sample_reply) \<le> 65535"
    using length_json_quote [of "''domain''"] length_json_quote [of "''6.notr.tech''"] length_json_quote [of "''vip''"]
      length_json_quote [of "''10.0.0.2''"] length_json_quote [of "''proxyInfos''"] length_json_quote [of "''Protocol''"]
      length_json_quote [of "''FromPort''"] length_json_quote [of "''ToPort''"] length_json_quote [of "''tcp''"]
      length_json_quote [of "''22''"] length_json_quote [of "''2222''"]
    by (simp add: sample_reply_def marshal_S2CAuth_def json_of_S2CAuth_def json_of_ProxyTuple_def)
qed


end
