(* ===== verification/Tcp_Forward.thy ===== *)
theory Tcp_Forward
  imports Streams Session Hostport
begin

text \<open>
  The TCP side of the transparent proxy (\<open>opennotrd/core/tcpforward.go\<close>): the
  defaults of its configuration, its listening socket, and the forwarding of one
  connection into a stream to the client that owns the destination address.
\<close>

section \<open>Configuration\<close>

text \<open>Durations are nanoseconds.\<close>

record TCPForwardConfig =
  tc_ListenAddr :: string
  tc_ReadTimeout :: int
  tc_WriteTimeout :: int

record TCPForward =
  tf_listenAddr :: string
  tf_writeTimeout :: int
  tf_readTimeout :: int

definition defaultTCPTimeout :: int where
  "defaultTCPTimeout = 10"

definition NewTCPForward :: "TCPForwardConfig \<Rightarrow> TCPForward" where
  "NewTCPForward cfg =
     (let tcpReadTimeout = (if tc_ReadTimeout cfg \<le> 0 then defaultTCPTimeout else tc_ReadTimeout cfg);
          tcpWriteTimeout = (if tc_WriteTimeout cfg \<le> 0 then defaultTCPTimeout else tc_WriteTimeout cfg)
      in \<lparr>tf_listenAddr = tc_ListenAddr cfg, tf_writeTimeout = tcpWriteTimeout * 1000000000,
          tf_readTimeout = tcpReadTimeout * 1000000000\<rparr>)"

text \<open>
  The system calls of \<open>Listen\<close>, in order, by whether each succeeds; the result, and
  the sockets that are open when it returns.
\<close>

datatype socket = Listener | Duplicate | RawSocket

definition TCPForward_Listen :: "bool \<Rightarrow> bool \<Rightarrow> bool \<Rightarrow> bool \<times> socket set" where
  "TCPForward_Listen listened filed transparent =
     (if \<not> listened then (False, {})
      else if \<not> filed then (False, {Listener})
      else let open_after = {Listener, Duplicate} - {Duplicate}
           in (transparent, open_after))"

section \<open>Forwarding\<close>

text \<open>What the network does: a stream can be opened, and its first write succeeds.\<close>

datatype tcp_outcome =
    NoRoute string
  | OpenStreamFailed
  | HeaderFailed nat
  | Forwarded nat "byte list" "byte list list" "byte list list"

text \<open>
  \<open>Forwarded conn header up down\<close>: the client's multiplexed connection, the first
  write on the new stream, the writes on the stream that copy what \<open>conn\<close> sends, and
  the writes on \<open>conn\<close> that copy what the stream sends. Every outcome ends with the
  connection closed, and with the stream closed if there is one.
\<close>

definition targetIP :: string where
  "targetIP = ''127.0.0.1''"

definition host_port :: "string \<Rightarrow> string \<times> string" where
  "host_port hp = (case SplitHostPort hp of Inr hp' \<Rightarrow> hp' | Inl _ \<Rightarrow> ([], []))"

definition forwardTCP ::
  "SessionManager \<Rightarrow> string \<Rightarrow> string \<Rightarrow> bool \<Rightarrow> bool \<Rightarrow> reader \<times> nat \<Rightarrow> reader \<times> nat \<Rightarrow> tcp_outcome" where
  "forwardTCP sessMgr local remote opened written conn_in stream_in =
     (let (dip, dport) = host_port local; (sip, sport) = host_port remote in
      case GetSession dip sessMgr of
        None \<Rightarrow> NoRoute dip
      | Some sess \<Rightarrow>
          if \<not> opened then OpenStreamFailed
          else if \<not> written then HeaderFailed (ss_conn sess)
          else Forwarded (ss_conn sess) (encodeProxyProtocol ''tcp'' sip sport targetIP dport)
                 (copy_buffer 4096 (snd conn_in) (fst conn_in))
                 (copy_buffer 4096 (snd stream_in) (fst stream_in)))"

lemma host_port_plain [simp]:
  "plain_host h \<Longrightarrow> plain_host p \<Longrightarrow> host_port (h @ CHR '':'' # p) = (h, p)"
  by (simp add: host_port_def)

lemma forwardTCP_session:
  assumes "GetSession vip sm = Some ss" and "plain_host vip" and "plain_host port" and "plain_host sip" and "plain_host sport"
  shows "forwardTCP sm (vip @ CHR '':'' # port) (sip @ CHR '':'' # sport) True True conn_in stream_in
    = Forwarded (ss_conn ss) (encodeProxyProtocol ''tcp'' sip sport targetIP port)
        (copy_buffer 4096 (snd conn_in) (fst conn_in)) (copy_buffer 4096 (snd stream_in) (fst stream_in))"
  using assms by (simp add: forwardTCP_def)

text \<open>
  \<open>Serve\<close>: each accepted connection gets a goroutine of its own, with the sessions that are
  there when it runs. The first error of \<open>Accept\<close> ends the loop for good.
\<close>

type_synonym incoming = "SessionManager \<times> string \<times> string \<times> bool \<times> bool \<times> (reader \<times> nat) \<times> (reader \<times> nat)"

definition TCPForward_Serve :: "incoming option list \<Rightarrow> tcp_outcome list" where
  "TCPForward_Serve accepts =
     map (\<lambda>(sessMgr, local, remote, opened, written, conn_in, stream_in).
        forwardTCP sessMgr local remote opened written conn_in stream_in) (accept_loop accepts)"

lemma serve_ends: "TCPForward_Serve (map Some cs @ None # later) = TCPForward_Serve (map Some cs @ [None])"
  by (simp add: TCPForward_Serve_def accept_loop_error)

end
