(* ===== verification/Udp_Forward.thy ===== *)
theory Udp_Forward
  imports Streams Session Hostport
begin

text \<open>
  The UDP side of the transparent proxy (\<open>opennotrd/core/udpforward.go\<close>): its
  configuration and sockets, the original destination of a datagram, the loop that
  sends datagrams into the streams of sessions, the goroutine of each session that
  sends the answers back through a raw socket, and the timer that removes sessions.
  Every access to the table of sessions is under its lock and is one step here.
\<close>

section \<open>Configuration\<close>

record UDPForwardConfig =
  uc_ListenAddr :: string
  uc_ReadTimeout :: int
  uc_WriteTimeout :: int
  uc_SessionTimeout :: int

definition defaultUDPTimeout :: int where
  "defaultUDPTimeout = 10"

definition defaultUDPSessionTimeout :: int where
  "defaultUDPSessionTimeout = 30"

text \<open>
  A session: its stream and the time of its last activity. \<open>uf_streams\<close> are the open
  streams, \<open>uf_conns\<close> names the client's multiplexed connection on which a stream was
  opened, \<open>uf_forwarders\<close> are the running goroutines, by the stream they read, with the
  key of the session that they were started for and the two addresses.
\<close>

record udpSession =
  us_stream :: nat
  us_lastActive :: int

record UDPForward =
  uf_listenAddr :: string
  uf_sessionTimeout :: int
  uf_readTimeout :: int
  uf_writeTimeout :: int
  uf_sessions :: "string \<rightharpoonup> udpSession"
  uf_streams :: "nat set"
  uf_conns :: "nat \<rightharpoonup> nat"
  uf_forwarders :: "nat \<rightharpoonup> string \<times> UDPAddr \<times> UDPAddr"
  uf_next :: nat

definition NewUDPForward :: "UDPForwardConfig \<Rightarrow> UDPForward" where
  "NewUDPForward cfg =
     (let readTimeout = (if uc_ReadTimeout cfg \<le> 0 then defaultUDPTimeout else uc_ReadTimeout cfg);
          writeTimeout = (if uc_WriteTimeout cfg \<le> 0 then defaultUDPTimeout else uc_WriteTimeout cfg);
          sessionTimeout = (if uc_SessionTimeout cfg \<le> 0 then defaultUDPSessionTimeout
                            else uc_SessionTimeout cfg)
      in \<lparr>uf_listenAddr = uc_ListenAddr cfg, uf_sessionTimeout = sessionTimeout,
          uf_readTimeout = readTimeout * 1000000000, uf_writeTimeout = writeTimeout * 1000000000,
          uf_sessions = Map.empty, uf_streams = {}, uf_conns = Map.empty, uf_forwarders = Map.empty, uf_next = 0\<rparr>)"

text \<open>
  The system calls of \<open>Listen\<close> in order (resolve, listen, duplicate, two options,
  raw socket, its option), by whether each succeeds: the result, and which sockets
  are open when it returns.
\<close>

datatype usocket = UListener | URaw

fun UDPForward_Listen :: "bool list \<Rightarrow> bool \<times> usocket set" where
  "UDPForward_Listen [resolved, listened, filed, transparent, origdst, raw, hdrincl] =
     (if \<not> resolved then (False, {})
      else if \<not> listened then (False, {})
      else if \<not> filed then (False, {UListener} - {UListener})
      else if \<not> transparent then (False, {UListener} - {UListener})
      else if \<not> origdst then (False, {UListener})
      else if \<not> raw then (False, {UListener})
      else if \<not> hdrincl then (False, {UListener, URaw})
      else (True, {UListener, URaw}))"
| "UDPForward_Listen _ = (False, {})"

section \<open>The original destination\<close>

text \<open>
  A control message: level, type, data. The address is read in place: two bytes of
  family, little endian, two of port, big endian, four of address, and eight that
  are not used; the parameter splits the control data into its messages.
\<close>

type_synonym control_message = "int \<times> int \<times> byte list"

definition SOL_IP :: int where "SOL_IP = 0"
definition IP_RECVORIGDSTADDR :: int where "IP_RECVORIGDSTADDR = 20"
definition AF_INET :: nat where "AF_INET = 2"

definition raw_addr :: "byte list \<Rightarrow> UDPAddr option" where
  "raw_addr d =
     (if length d < 16 then None
      else if unat (d ! 0) + 256 * unat (d ! 1) = AF_INET then
        Some \<lparr>ua_IP = take 4 (drop 4 d), ua_Port = int (256 * unat (d ! 2) + unat (d ! 3))\<rparr>
      else None)"

definition getOriginDst :: "(byte list \<Rightarrow> control_message list option) \<Rightarrow> byte list \<Rightarrow> UDPAddr option" where
  "getOriginDst parse hdr =
     (case parse hdr of
        None \<Rightarrow> None
      | Some msgs \<Rightarrow>
          fold (\<lambda>(level, typ, d) origindst.
            if level = SOL_IP \<and> typ = IP_RECVORIGDSTADDR then
              (case raw_addr d of Some a \<Rightarrow> Some a | None \<Rightarrow> origindst)
            else origindst) msgs None)"

section \<open>The loop\<close>

definition addr_text :: "UDPAddr \<Rightarrow> string" where
  "addr_text a = join ''.'' (map (\<lambda>b. dec (unat b)) (ua_IP a)) @ '':'' @ dec_int (ua_Port a)"

definition host_of :: "UDPAddr \<Rightarrow> string" where
  "host_of a = (case SplitHostPort (addr_text a) of Inr (h, _) \<Rightarrow> h | Inl _ \<Rightarrow> [])"

definition port_text :: "UDPAddr \<Rightarrow> string" where
  "port_text a = (case SplitHostPort (addr_text a) of Inr (_, p) \<Rightarrow> p | Inl _ \<Rightarrow> [])"

definition session_key :: "UDPAddr \<Rightarrow> UDPAddr \<Rightarrow> string" where
  "session_key raddr origindst =
     host_of raddr @ '':'' @ port_text raddr @ '':'' @ host_of origindst @ '':'' @ port_text origindst"

text \<open>What the network does in one turn: opening the stream and the two writes.\<close>

record turn =
  tn_opened :: bool
  tn_header :: bool
  tn_data :: bool

text \<open>
  One turn of \<open>Serve\<close> for a datagram \<open>payload\<close> of \<open>raddr\<close> to \<open>origindst\<close>: the writes on
  streams that reach the client, and the new state.
\<close>

definition serve_header :: "UDPAddr \<Rightarrow> UDPAddr \<Rightarrow> byte list" where
  "serve_header raddr origindst =
     encodeProxyProtocol ''udp'' (host_of raddr) (port_text raddr) ''127.0.0.1'' (port_text origindst)"

definition Serve_turn ::
  "SessionManager \<Rightarrow> int \<Rightarrow> turn \<Rightarrow> UDPAddr \<Rightarrow> UDPAddr option \<Rightarrow> byte list \<Rightarrow> UDPForward
    \<Rightarrow> (nat \<times> byte list) list \<times> UDPForward" where
  "Serve_turn sessMgr now tn raddr origin payload f =
     (case origin of
        None \<Rightarrow> ([], f)
      | Some origindst \<Rightarrow>
          (let key = session_key raddr origindst in
           case uf_sessions f key of
             Some udpsess \<Rightarrow>
               (if tn_data tn \<and> us_stream udpsess \<in> uf_streams f
                then [(us_stream udpsess, encode payload)] else [],
                f\<lparr>uf_sessions := (uf_sessions f)(key \<mapsto> udpsess\<lparr>us_lastActive := now\<rparr>)\<rparr>)
           | None \<Rightarrow>
               (case GetSession (host_of origindst) sessMgr of
                  None \<Rightarrow> ([], f)
                | Some sess \<Rightarrow>
                    if \<not> tn_opened tn then ([], f)
                    else
                      let stream = uf_next f;
                          f1 = f\<lparr>uf_sessions := (uf_sessions f)(key \<mapsto> \<lparr>us_stream = stream, us_lastActive = now\<rparr>),
                                 uf_streams := insert stream (uf_streams f),
                                 uf_conns := (uf_conns f)(stream \<mapsto> ss_conn sess), uf_next := uf_next f + 1\<rparr>
                      in if \<not> tn_header tn then ([], f1)
                         else ((stream, serve_header raddr origindst) #
                                 (if tn_data tn then [(stream, encode payload)] else []),
                               f1\<lparr>uf_forwarders := (uf_forwarders f)(stream \<mapsto> (key, origindst, raddr))\<rparr>))))"

section \<open>The goroutines of sessions\<close>

text \<open>
  One turn of \<open>forwardUDP\<close> that has read a whole frame: the packet goes out through
  the raw socket (a result \<open>None\<close> is the panic of a payload that does not fit, which
  ends the program), and the session under the goroutine's key, if there is one, is
  renewed.
\<close>

definition forwardUDP_turn ::
  "(byte list \<Rightarrow> byte list \<Rightarrow> int \<Rightarrow> bool) \<Rightarrow> int \<Rightarrow> nat \<Rightarrow> byte list \<Rightarrow> UDPForward
    \<Rightarrow> (send_error + unit) option \<times> UDPForward" where
  "forwardUDP_turn sendto now stream buf f =
     (case uf_forwarders f stream of
        None \<Rightarrow> (Some (Inr ()), f)
      | Some (key, fromaddr, toaddr) \<Rightarrow>
          (case sendUDPViaRaw sendto fromaddr toaddr buf of
             None \<Rightarrow> (None, f)
           | Some result \<Rightarrow>
               (Some result,
                (case uf_sessions f key of
                   None \<Rightarrow> f
                 | Some udpsess \<Rightarrow> f\<lparr>uf_sessions := (uf_sessions f)(key \<mapsto> udpsess\<lparr>us_lastActive := now\<rparr>)\<rparr>))))"

text \<open>The end of the goroutine: the entry of its key is deleted, then the stream closed.\<close>

definition forwardUDP_end :: "nat \<Rightarrow> UDPForward \<Rightarrow> UDPForward" where
  "forwardUDP_end stream f =
     (case uf_forwarders f stream of
        None \<Rightarrow> f
      | Some (key, _, _) \<Rightarrow>
          f\<lparr>uf_sessions := (uf_sessions f)(key := None), uf_streams := uf_streams f - {stream},
            uf_forwarders := (uf_forwarders f)(stream := None)\<rparr>)"

definition recyeleSession :: "int \<Rightarrow> UDPForward \<Rightarrow> UDPForward" where
  "recyeleSession now f =
     f\<lparr>uf_sessions := (\<lambda>k. case uf_sessions f k of
          None \<Rightarrow> None
        | Some s \<Rightarrow> if now - us_lastActive s > uf_sessionTimeout f * 1000000000 then None else Some s)\<rparr>"

inductive udpf_step :: "SessionManager \<Rightarrow> UDPForward \<Rightarrow> UDPForward \<Rightarrow> bool" for sm :: SessionManager where
  uf_serve: "udpf_step sm f (snd (Serve_turn sm now tn raddr origin payload f))"
| uf_forward: "udpf_step sm f (snd (forwardUDP_turn sendto now stream buf f))"
| uf_end: "udpf_step sm f (forwardUDP_end stream f)"
| uf_recycle: "udpf_step sm f (recyeleSession now f)"

inductive_cases udpf_stepE: "udpf_step sm f g"

inductive udpf_steps :: "SessionManager \<Rightarrow> UDPForward \<Rightarrow> UDPForward \<Rightarrow> bool" for sm :: SessionManager where
  udpf_refl: "udpf_steps sm f f"
| udpf_more: "udpf_steps sm f g \<Longrightarrow> udpf_step sm g h \<Longrightarrow> udpf_steps sm f h"

lemmas udpf_defs = Serve_turn_def forwardUDP_turn_def forwardUDP_end_def recyeleSession_def

section \<open>Invariant\<close>

text \<open>
  Sessions have streams that were opened, and the goroutine that reads a session's
  stream was started for its key; two sessions never share a stream; goroutines read
  open streams, under the key of their two addresses.
\<close>

definition stream_of :: "UDPForward \<Rightarrow> string \<Rightarrow> nat option" where
  "stream_of f k = map_option us_stream (uf_sessions f k)"

definition sessions_ok :: "UDPForward \<Rightarrow> bool" where
  "sessions_ok f \<longleftrightarrow> (\<forall>k st. stream_of f k = Some st \<longrightarrow> st < uf_next f
     \<and> (\<forall>k' o' r'. uf_forwarders f st = Some (k', o', r') \<longrightarrow> k' = k))"

definition sessions_apart :: "UDPForward \<Rightarrow> bool" where
  "sessions_apart f \<longleftrightarrow>
     (\<forall>k k' st. stream_of f k = Some st \<longrightarrow> stream_of f k' = Some st \<longrightarrow> k = k')"

definition forwarders_ok :: "UDPForward \<Rightarrow> bool" where
  "forwarders_ok f \<longleftrightarrow> (\<forall>st k o' r'. uf_forwarders f st = Some (k, o', r') \<longrightarrow>
     st < uf_next f \<and> st \<in> uf_streams f \<and> k = session_key r' o')"

definition streams_ok :: "UDPForward \<Rightarrow> bool" where
  "streams_ok f \<longleftrightarrow> (\<forall>st\<in>uf_streams f. st < uf_next f)"

definition udpf_inv :: "UDPForward \<Rightarrow> bool" where
  "udpf_inv f \<longleftrightarrow> sessions_ok f \<and> sessions_apart f \<and> forwarders_ok f \<and> streams_ok f"

lemma udpf_inv_new [simp]: "udpf_inv (NewUDPForward cfg)"
  by (simp add: udpf_inv_def sessions_ok_def sessions_apart_def forwarders_ok_def streams_ok_def
      NewUDPForward_def stream_of_def Let_def)

text \<open>The turns of the loop that change something: renewal, and a new session.\<close>

lemma Serve_turn_cases:
  obtains (idle) "Serve_turn sm now tn raddr origin pl f = ([], f)"
  | (known) od s where "origin = Some od" "uf_sessions f (session_key raddr od) = Some s"
      "Serve_turn sm now tn raddr origin pl f = (if tn_data tn \<and> us_stream s \<in> uf_streams f then [(us_stream s, encode pl)] else [],
         f\<lparr>uf_sessions := (uf_sessions f)(session_key raddr od \<mapsto> s\<lparr>us_lastActive := now\<rparr>)\<rparr>)"
  | (bad) od sess where "origin = Some od" "uf_sessions f (session_key raddr od) = None"
      "GetSession (host_of od) sm = Some sess" "\<not> tn_header tn"
      "Serve_turn sm now tn raddr origin pl f = ([],
         f\<lparr>uf_sessions := (uf_sessions f)(session_key raddr od \<mapsto> \<lparr>us_stream = uf_next f, us_lastActive = now\<rparr>),
           uf_streams := insert (uf_next f) (uf_streams f), uf_conns := (uf_conns f)(uf_next f \<mapsto> ss_conn sess),
           uf_next := uf_next f + 1\<rparr>)"
  | (new) od sess where "origin = Some od" "uf_sessions f (session_key raddr od) = None"
      "GetSession (host_of od) sm = Some sess" "tn_header tn"
      "Serve_turn sm now tn raddr origin pl f = ((uf_next f, serve_header raddr od) #
           (if tn_data tn then [(uf_next f, encode pl)] else []),
         f\<lparr>uf_sessions := (uf_sessions f)(session_key raddr od \<mapsto> \<lparr>us_stream = uf_next f, us_lastActive = now\<rparr>),
           uf_streams := insert (uf_next f) (uf_streams f), uf_conns := (uf_conns f)(uf_next f \<mapsto> ss_conn sess),
           uf_next := uf_next f + 1,
           uf_forwarders := (uf_forwarders f)(uf_next f \<mapsto> (session_key raddr od, od, raddr))\<rparr>)"
proof (cases origin)
  case None
  then show ?thesis using idle by (simp add: Serve_turn_def)
next
  case (Some od)
  note o = this
  show ?thesis
  proof (cases "uf_sessions f (session_key raddr od)")
    case (Some s)
    show ?thesis by (rule known [OF o Some]) (simp add: Serve_turn_def o Some Let_def)
  next
    case None
    note n = this
    show ?thesis
    proof (cases "GetSession (host_of od) sm")
      case None
      then show ?thesis using idle o n by (simp add: Serve_turn_def Let_def)
    next
      case (Some sess)
      then show ?thesis
      proof (cases "tn_opened tn")
        case False
        then show ?thesis using idle o n Some by (simp add: Serve_turn_def Let_def)
      next
        case True
        then show ?thesis
          using bad [OF o n Some] new [OF o n Some] o n Some
          by (cases "tn_header tn") (simp_all add: Serve_turn_def Let_def)
      qed
    qed
  qed
qed

text \<open>Steps that give no session another stream and start no goroutine.\<close>

lemma udpf_inv_shrink:
  assumes "udpf_inv f" and "\<And>k st. stream_of g k = Some st \<Longrightarrow> stream_of f k = Some st"
    and "\<And>st x. uf_forwarders g st = Some x \<Longrightarrow> uf_forwarders f st = Some x \<and> (st \<in> uf_streams f \<longrightarrow> st \<in> uf_streams g)"
    and "uf_streams g \<subseteq> uf_streams f" and "uf_next g = uf_next f"
  shows "udpf_inv g"
proof -
  have inv: "sessions_ok f" "sessions_apart f" "forwarders_ok f" "streams_ok f"
    using assms(1) by (simp_all add: udpf_inv_def)
  have "sessions_ok g" using inv(1) assms(2,3,5) unfolding sessions_ok_def by metis
  moreover have "sessions_apart g" using inv(2) assms(2) unfolding sessions_apart_def by metis
  moreover have "forwarders_ok g" using inv(3) assms(3,5) unfolding forwarders_ok_def by metis
  moreover have "streams_ok g" using inv(4) assms(4,5) unfolding streams_ok_def by auto
  ultimately show ?thesis by (simp add: udpf_inv_def)
qed

lemma udpf_inv_renew:
  "udpf_inv f \<Longrightarrow> uf_sessions f k = Some s \<Longrightarrow>
    udpf_inv (f\<lparr>uf_sessions := (uf_sessions f)(k \<mapsto> s\<lparr>us_lastActive := t\<rparr>)\<rparr>)"
  by (erule udpf_inv_shrink) (auto simp: stream_of_def split: if_splits)

lemma udpf_inv_recycle: "udpf_inv f \<Longrightarrow> udpf_inv (recyeleSession now f)"
  by (erule udpf_inv_shrink) (auto simp: stream_of_def recyeleSession_def split: option.splits if_splits)

lemma udpf_inv_end: "udpf_inv f \<Longrightarrow> udpf_inv (forwardUDP_end st f)"
  by (erule udpf_inv_shrink) (auto simp: stream_of_def forwardUDP_end_def split: option.splits if_splits)

lemma udpf_inv_turn: "udpf_inv f \<Longrightarrow> udpf_inv (snd (forwardUDP_turn sendto now st buf f))"
  by (auto simp: forwardUDP_turn_def intro: udpf_inv_renew split: option.splits)

text \<open>A new session, on a new stream, with or without its goroutine.\<close>

lemma udpf_inv_open:
  assumes "udpf_inv f" and "uf_sessions f (session_key r od) = None"
    and "fw = uf_forwarders f \<or> fw = (uf_forwarders f)(uf_next f \<mapsto> (session_key r od, od, r))"
  shows "udpf_inv (f\<lparr>uf_sessions := (uf_sessions f)(session_key r od \<mapsto> \<lparr>us_stream = uf_next f, us_lastActive = now\<rparr>),
    uf_streams := insert (uf_next f) (uf_streams f), uf_conns := cs, uf_next := uf_next f + 1, uf_forwarders := fw\<rparr>)"
    (is "udpf_inv ?g")
proof -
  let ?k = "session_key r od"
  have inv: "sessions_ok f" "sessions_apart f" "forwarders_ok f" "streams_ok f"
    using assms(1) by (simp_all add: udpf_inv_def)
  have so: "stream_of ?g k = (if k = ?k then Some (uf_next f) else stream_of f k)" for k
    by (simp add: stream_of_def)
  have old: "st < uf_next f" if "stream_of f k = Some st" for k st
    using inv(1) that unfolding sessions_ok_def by blast
  have fo: "uf_forwarders f (uf_next f) = None"
    using inv(3) unfolding forwarders_ok_def by (metis less_irrefl not_Some_eq prod_cases3)
  have fw: "uf_forwarders ?g st = Some x \<Longrightarrow>
      st = uf_next f \<and> x = (?k, od, r) \<or> st \<noteq> uf_next f \<and> uf_forwarders f st = Some x" for st x
    using assms(3) fo by (auto split: if_splits)
  have "sessions_ok ?g"
    unfolding sessions_ok_def
  proof (intro allI impI conjI)
    fix k st assume k: "stream_of ?g k = Some st"
    then show "st < uf_next ?g" using old [of k st] so [of k] by (auto split: if_splits)
    fix k' o' r' assume "uf_forwarders ?g st = Some (k', o', r')"
    then consider "st = uf_next f" "k' = ?k" | "st \<noteq> uf_next f" "uf_forwarders f st = Some (k', o', r')"
      using fw [of st "(k', o', r')"] by auto
    then show "k' = k"
    proof cases
      case 1
      have "k = ?k" using k so [of k] old [of k st] 1(1) by (cases "k = ?k") auto
      with 1 show ?thesis by simp
    next
      case 2
      then have "stream_of f k = Some st" using k so [of k] by (auto split: if_splits)
      with 2(2) inv(1) show ?thesis unfolding sessions_ok_def by blast
    qed
  qed
  moreover have "sessions_apart ?g"
    unfolding sessions_apart_def
  proof (intro allI impI)
    fix k k' st assume g: "stream_of ?g k = Some st" "stream_of ?g k' = Some st"
    have iff: "j = ?k \<longleftrightarrow> st = uf_next f" and st: "j \<noteq> ?k \<longrightarrow> stream_of f j = Some st"
      if "stream_of ?g j = Some st" for j
      using that so [of j] old [of j st] by (cases "j = ?k"; force)+
    show "k = k'"
    proof (cases "st = uf_next f")
      case True
      then show ?thesis using iff [OF g(1)] iff [OF g(2)] by simp
    next
      case False
      then have "stream_of f k = Some st" "stream_of f k' = Some st"
        using iff [OF g(1)] iff [OF g(2)] st [OF g(1)] st [OF g(2)] by simp_all
      then show ?thesis using inv(2) unfolding sessions_apart_def by blast
    qed
  qed
  moreover have "forwarders_ok ?g"
    unfolding forwarders_ok_def
  proof (intro allI impI)
    fix st k o' r' assume "uf_forwarders ?g st = Some (k, o', r')"
    from fw [OF this] show "st < uf_next ?g \<and> st \<in> uf_streams ?g \<and> k = session_key r' o'"
      using inv(3) unfolding forwarders_ok_def by fastforce
  qed
  moreover have "streams_ok ?g" using inv(4) by (auto simp: streams_ok_def)
  ultimately show ?thesis by (simp add: udpf_inv_def)
qed

lemma udpf_inv_serve: "udpf_inv f \<Longrightarrow> udpf_inv (snd (Serve_turn sm now tn raddr origin pl f))"
proof (cases rule: Serve_turn_cases [where sm = sm and now = now and tn = tn and raddr = raddr and origin = origin and pl = pl and f = f])
  case (known od s)
  moreover assume "udpf_inv f"
  ultimately show ?thesis using udpf_inv_renew [OF _ known(2), of now] by simp
next
  case (bad od sess)
  moreover assume "udpf_inv f"
  ultimately show ?thesis using udpf_inv_open [of f raddr od "uf_forwarders f" "(uf_conns f)(uf_next f \<mapsto> ss_conn sess)" now] by simp
next
  case (new od sess)
  moreover assume "udpf_inv f"
  ultimately show ?thesis
    using udpf_inv_open [of f raddr od "(uf_forwarders f)(uf_next f \<mapsto> (session_key raddr od, od, raddr))"
        "(uf_conns f)(uf_next f \<mapsto> ss_conn sess)" now] by simp
qed simp

lemma udpf_inv_step: "udpf_step sm f g \<Longrightarrow> udpf_inv f \<Longrightarrow> udpf_inv g"
  by (erule udpf_stepE) (auto intro: udpf_inv_serve udpf_inv_turn udpf_inv_end udpf_inv_recycle)

lemma udpf_inv_steps: "udpf_steps sm f g \<Longrightarrow> udpf_inv f \<Longrightarrow> udpf_inv g"
  by (induction rule: udpf_steps.induct) (auto intro: udpf_inv_step)

section \<open>Whose stream it is\<close>

text \<open>A stream stays with the two addresses that it was opened for.\<close>

definition stream_owner :: "nat \<Rightarrow> UDPAddr \<Rightarrow> UDPAddr \<Rightarrow> UDPForward \<Rightarrow> bool" where
  "stream_owner st raddr od f \<longleftrightarrow> st < uf_next f
     \<and> (\<forall>k o' r'. uf_forwarders f st = Some (k, o', r') \<longrightarrow> o' = od \<and> r' = raddr)
     \<and> (\<forall>k. stream_of f k = Some st \<longrightarrow> k = session_key raddr od)"

lemma stream_owner_shrink:
  assumes "stream_owner st raddr od f" and "\<And>k. stream_of g k = Some st \<Longrightarrow> stream_of f k = Some st"
    and "\<And>x. uf_forwarders g st = Some x \<Longrightarrow> uf_forwarders f st = Some x" and "uf_next f \<le> uf_next g"
  shows "stream_owner st raddr od g"
  using assms unfolding stream_owner_def by (meson order_less_le_trans)

lemma stream_owner_step: "udpf_step sm f g \<Longrightarrow> stream_owner st raddr od f \<Longrightarrow> stream_owner st raddr od g"
proof (erule udpf_stepE)
  fix now tn r origin pl assume o: "stream_owner st raddr od f" and g: "g = snd (Serve_turn sm now tn r origin pl f)"
  have lt: "st < uf_next f" using o by (simp add: stream_owner_def)
  show "stream_owner st raddr od g"
    by (rule stream_owner_shrink [OF o];
      cases rule: Serve_turn_cases [where sm = sm and now = now and tn = tn and raddr = r and origin = origin and pl = pl and f = f])
      (use lt g in \<open>auto simp: stream_of_def split: if_splits\<close>)
next
  fix sendto now s buf assume o: "stream_owner st raddr od f" and "g = snd (forwardUDP_turn sendto now s buf f)"
  then show "stream_owner st raddr od g"
    by (intro stream_owner_shrink [OF o])
      (auto simp: forwardUDP_turn_def stream_of_def split: option.splits if_splits)
next
  fix s assume o: "stream_owner st raddr od f" and "g = forwardUDP_end s f"
  then show "stream_owner st raddr od g"
    by (intro stream_owner_shrink [OF o]) (auto simp: forwardUDP_end_def stream_of_def split: option.splits if_splits)
next
  fix now assume o: "stream_owner st raddr od f" and "g = recyeleSession now f"
  then show "stream_owner st raddr od g"
    by (intro stream_owner_shrink [OF o]) (auto simp: recyeleSession_def stream_of_def split: option.splits if_splits)
qed

lemma stream_owner_steps: "udpf_steps sm f g \<Longrightarrow> stream_owner st raddr od f \<Longrightarrow> stream_owner st raddr od g"
  by (induction rule: udpf_steps.induct) (auto intro: stream_owner_step)

section \<open>Properties\<close>


text \<open>
  C19. The timer removes the entries that have been idle for longer than the timeout,
  and nothing else: an expired session's stream stays open and its goroutine goes on
  reading. When the pair's next datagram opens a second stream and the old goroutine
  then ends, it deletes the entry of the new session, whose stream and goroutine stay
  behind without one.
\<close>

theorem stale_forwarder:
  assumes "udpf_inv f" and "uf_forwarders f st = Some (session_key raddr od, od, raddr)"
    and "uf_sessions f (session_key raddr od) = Some s" and "us_stream s = st"
    and "now - us_lastActive s > uf_sessionTimeout f * 1000000000"
    and "GetSession (host_of od) sm \<noteq> None" and "tn_opened tn" and "tn_header tn" and "tn_data tn"
    and g_def: "g = recyeleSession now f"
    and h_def: "h = snd (Serve_turn sm now tn raddr (Some od) pl g)"
  shows "(\<forall>k x. uf_sessions g k = Some x \<longleftrightarrow>
        uf_sessions f k = Some x \<and> now - us_lastActive x \<le> uf_sessionTimeout f * 1000000000)
    \<and> st \<in> uf_streams g \<and> uf_forwarders g st \<noteq> None
    \<and> stream_of h (session_key raddr od) = Some (uf_next f)
    \<and> uf_sessions (forwardUDP_end st h) (session_key raddr od) = None
    \<and> uf_next f \<in> uf_streams (forwardUDP_end st h)
    \<and> uf_forwarders (forwardUDP_end st h) (uf_next f) = Some (session_key raddr od, od, raddr)"
proof -
  have st: "st \<in> uf_streams f" "st \<noteq> uf_next f"
    using assms(1,2) unfolding udpf_inv_def forwarders_ok_def by blast+
  have g: "uf_sessions g (session_key raddr od) = None" "uf_forwarders g = uf_forwarders f"
      "uf_streams g = uf_streams f" "uf_next g = uf_next f"
    using assms(3-5) by (simp_all add: g_def recyeleSession_def)
  obtain sess where sess: "GetSession (host_of od) sm = Some sess" using assms(6) by auto
  have h: "h = g\<lparr>uf_sessions := (uf_sessions g)(session_key raddr od \<mapsto> \<lparr>us_stream = uf_next f, us_lastActive = now\<rparr>),
      uf_streams := insert (uf_next f) (uf_streams f), uf_conns := (uf_conns g)(uf_next f \<mapsto> ss_conn sess), uf_next := uf_next f + 1,
      uf_forwarders := (uf_forwarders f)(uf_next f \<mapsto> (session_key raddr od, od, raddr))\<rparr>"
    unfolding h_def using sess assms(7-9) g by (simp add: Serve_turn_def Let_def)
  have "uf_sessions g k = Some x \<longleftrightarrow>
      uf_sessions f k = Some x \<and> now - us_lastActive x \<le> uf_sessionTimeout f * 1000000000" for k x
    by (auto simp: g_def recyeleSession_def split: option.splits)
  moreover have "forwardUDP_end st h = h\<lparr>uf_sessions := (uf_sessions h)(session_key raddr od := None),
      uf_streams := uf_streams h - {st}, uf_forwarders := (uf_forwarders h)(st := None)\<rparr>"
    using h st(2) assms(2) by (simp add: forwardUDP_end_def)
  ultimately show ?thesis
    using g h st assms(2) by (simp add: stream_of_def)
qed

text \<open>
  When the first write on a new stream fails, the session stays in the table
  without a goroutine: nothing will ever read the answers on its stream, and each
  further datagram of the pair renews the entry, so that the timer does not remove
  it as long as they keep coming.
\<close>

theorem header_failure_blackhole:
  assumes "uf_sessions f (session_key raddr od) = None" and "udpf_inv f"
    and "GetSession (host_of od) sm \<noteq> None" and "tn_opened tn" and "\<not> tn_header tn"
    and "Serve_turn sm now tn raddr (Some od) pl f = (out, g)"
  shows "out = [] \<and> stream_of g (session_key raddr od) = Some (uf_next f)
    \<and> (\<forall>h. udpf_steps sm g h \<longrightarrow> uf_forwarders h (uf_next f) = None)
    \<and> (\<forall>h now' now'' tn' pl'. stream_of h (session_key raddr od) = Some (uf_next f)
        \<and> now'' - now' \<le> uf_sessionTimeout h * 1000000000 \<longrightarrow>
        stream_of (recyeleSession now'' (snd (Serve_turn sm now' tn' raddr (Some od) pl' h)))
          (session_key raddr od) = Some (uf_next f))"
proof -
  obtain sess where sess: "GetSession (host_of od) sm = Some sess" using assms(3) by auto
  have g: "out = []" "g = f\<lparr>uf_sessions := (uf_sessions f)(session_key raddr od \<mapsto> \<lparr>us_stream = uf_next f, us_lastActive = now\<rparr>),
      uf_streams := insert (uf_next f) (uf_streams f), uf_conns := (uf_conns f)(uf_next f \<mapsto> ss_conn sess), uf_next := uf_next f + 1\<rparr>"
    using sess assms(1,4-6) by (simp_all add: Serve_turn_def Let_def)
  have none: "uf_forwarders f (uf_next f) = None"
    using assms(2) unfolding udpf_inv_def forwarders_ok_def by (metis less_irrefl not_Some_eq prod_cases3)
  have stp: "uf_forwarders h' st = None \<and> st < uf_next h'"
    if "udpf_step sm h h'" "uf_forwarders h st = None" "st < uf_next h" for h h' st
    using that(1)
  proof (rule udpf_stepE)
    fix now tn r origin pl assume h': "h' = snd (Serve_turn sm now tn r origin pl h)"
    show ?thesis
      by (cases rule: Serve_turn_cases [where sm = sm and now = now and tn = tn and raddr = r and origin = origin and pl = pl and f = h])
        (use that(2,3) h' in auto)
  qed (use that in \<open>auto simp: forwardUDP_turn_def forwardUDP_end_def recyeleSession_def split: option.splits\<close>)
  have "uf_forwarders h st = None \<and> st < uf_next h"
    if "udpf_steps sm g h" "uf_forwarders g st = None" "st < uf_next g" for h st
    using that by (induction rule: udpf_steps.induct) (use stp in blast)+
  then have "\<forall>h. udpf_steps sm g h \<longrightarrow> uf_forwarders h (uf_next f) = None" using g(2) none by simp
  moreover have "stream_of (recyeleSession now'' (snd (Serve_turn sm now' tn' raddr (Some od) pl' h)))
          (session_key raddr od) = Some (uf_next f)"
    if "stream_of h (session_key raddr od) = Some (uf_next f)" "now'' - now' \<le> uf_sessionTimeout h * 1000000000"
    for h now' now'' tn' pl'
    using that by (auto simp: stream_of_def Serve_turn_def recyeleSession_def Let_def)
  ultimately show ?thesis using g by (simp add: stream_of_def)
qed

section \<open>A conversation\<close>

text \<open>Several datagrams from one address to one destination, at the given times.\<close>

fun Serve_run ::
  "SessionManager \<Rightarrow> turn \<Rightarrow> UDPAddr \<Rightarrow> UDPAddr \<Rightarrow> (int \<times> byte list) list \<Rightarrow> UDPForward
    \<Rightarrow> (nat \<times> byte list) list \<times> UDPForward" where
  "Serve_run sm tn raddr od [] f = ([], f)"
| "Serve_run sm tn raddr od ((now, pl) # rest) f =
     (case Serve_turn sm now tn raddr (Some od) pl f of
        (out, f1) \<Rightarrow> (case Serve_run sm tn raddr od rest f1 of (outs, f2) \<Rightarrow> (out @ outs, f2)))"

definition good_turn :: turn where
  "good_turn = \<lparr>tn_opened = True, tn_header = True, tn_data = True\<rparr>"

lemma Serve_run_known:
  assumes "stream_of f (session_key raddr od) = Some st" and "st \<in> uf_streams f"
  shows "fst (Serve_run sm good_turn raddr od ps f) = map (\<lambda>(t, pl). (st, encode pl)) ps
    \<and> uf_conns (snd (Serve_run sm good_turn raddr od ps f)) = uf_conns f
    \<and> uf_forwarders (snd (Serve_run sm good_turn raddr od ps f)) = uf_forwarders f"
  using assms
proof (induction ps arbitrary: f)
  case (Cons p ps)
  obtain now pl where p: "p = (now, pl)" by (cases p)
  obtain s where s: "uf_sessions f (session_key raddr od) = Some s" "us_stream s = st"
    using Cons.prems(1) by (auto simp: stream_of_def)
  let ?g = "f\<lparr>uf_sessions := (uf_sessions f)(session_key raddr od \<mapsto> s\<lparr>us_lastActive := now\<rparr>)\<rparr>"
  have "Serve_turn sm now good_turn raddr (Some od) pl f = ([(st, encode pl)], ?g)"
    using s Cons.prems(2) by (simp add: Serve_turn_def good_turn_def Let_def)
  moreover have "fst (Serve_run sm good_turn raddr od ps ?g) = map (\<lambda>(t, pl). (st, encode pl)) ps
      \<and> uf_conns (snd (Serve_run sm good_turn raddr od ps ?g)) = uf_conns ?g
      \<and> uf_forwarders (snd (Serve_run sm good_turn raddr od ps ?g)) = uf_forwarders ?g"
    using Cons.prems s by (intro Cons.IH) (simp_all add: stream_of_def)
  ultimately show ?case by (simp add: p case_prod_beta)
qed simp

lemma Serve_run_new:
  assumes "uf_sessions f (session_key raddr od) = None" and "GetSession (host_of od) sm = Some sess" and "ps \<noteq> []"
  shows "fst (Serve_run sm good_turn raddr od ps f)
      = (uf_next f, serve_header raddr od) # map (\<lambda>(t, pl). (uf_next f, encode pl)) ps
    \<and> uf_conns (snd (Serve_run sm good_turn raddr od ps f)) (uf_next f) = Some (ss_conn sess)
    \<and> uf_forwarders (snd (Serve_run sm good_turn raddr od ps f)) (uf_next f) = Some (session_key raddr od, od, raddr)"
proof -
  obtain now pl rest where ps: "ps = (now, pl) # rest" using assms(3) by (cases ps) auto
  let ?g = "snd (Serve_turn sm now good_turn raddr (Some od) pl f)"
  have "fst (Serve_turn sm now good_turn raddr (Some od) pl f)
      = [(uf_next f, serve_header raddr od), (uf_next f, encode pl)]"
    "stream_of ?g (session_key raddr od) = Some (uf_next f)" "uf_next f \<in> uf_streams ?g"
    "uf_conns ?g (uf_next f) = Some (ss_conn sess)" "uf_forwarders ?g (uf_next f) = Some (session_key raddr od, od, raddr)"
    using assms(1,2) by (simp_all add: Serve_turn_def good_turn_def Let_def stream_of_def)
  with Serve_run_known [of ?g raddr od "uf_next f" sm rest] show ?thesis
    by (simp add: ps case_prod_beta)
qed

lemma addr_text_parts:
  assumes "length (ua_IP a) = 4" and "0 \<le> ua_Port a"
  shows "host_of a = join ''.'' (map (\<lambda>b. dec (unat b)) (ua_IP a))" and "port_text a = dec (nat (ua_Port a))"
    and "plain_host (host_of a)"
proof -
  obtain b1 b2 b3 b4 where ip: "ua_IP a = [b1, b2, b3, b4]"
    using assms(1) by (auto simp: numeral_eq_Suc length_Suc_conv)
  let ?h = "join ''.'' (map (\<lambda>b. dec (unat b)) (ua_IP a))"
  have h: "plain_host ?h" by (simp add: ip plain_host_def)
  have "addr_text a = ?h @ CHR '':'' # dec (nat (ua_Port a))"
    using assms(2) by (simp add: addr_text_def dec_int_def)
  then have "SplitHostPort (addr_text a) = Inr (?h, dec (nat (ua_Port a)))"
    using SplitHostPort_plain [OF h plain_host_dec] by simp
  then show "host_of a = ?h" "port_text a = dec (nat (ua_Port a))" "plain_host (host_of a)"
    using h by (simp_all add: host_of_def port_text_def)
qed

section \<open>Examples\<close>

definition peer :: UDPAddr where
  "peer = \<lparr>ua_IP = [192, 0, 2, 7], ua_Port = 5000\<rparr>"

definition vip_dns :: UDPAddr where
  "vip_dns = \<lparr>ua_IP = [10, 0, 0, 2], ua_Port = 53\<rparr>"

definition one_session :: SessionManager where
  "one_session = AddSession (host_of vip_dns) (newSession 0 (host_of vip_dns)) sessionMgr"

lemma one_session_get: "GetSession (host_of vip_dns) one_session = Some (newSession 0 (host_of vip_dns))"
  by (simp add: one_session_def sess.lookup_insert)

definition sample_udp :: UDPForward where
  "sample_udp = NewUDPForward \<lparr>uc_ListenAddr = '':9101'', uc_ReadTimeout = 0, uc_WriteTimeout = 0, uc_SessionTimeout = 0\<rparr>"

lemma sample_udp_sel [simp]:
  "uf_sessions sample_udp = Map.empty" "uf_next sample_udp = 0" "uf_streams sample_udp = {}"
  "uf_forwarders sample_udp = Map.empty" "uf_conns sample_udp = Map.empty" "uf_sessionTimeout sample_udp = 30"
  by (simp_all add: sample_udp_def NewUDPForward_def defaultUDPSessionTimeout_def Let_def)

definition sample_udp1 :: UDPForward where
  "sample_udp1 = snd (Serve_turn one_session 0 good_turn peer (Some vip_dns) [1] sample_udp)"

lemma sample_udp1_state:
  "Serve_turn one_session 0 good_turn peer (Some vip_dns) [1] sample_udp
    = ([(0, serve_header peer vip_dns), (0, encode [1])], sample_udp1)"
  "sample_udp1 = sample_udp\<lparr>uf_sessions := [session_key peer vip_dns \<mapsto> \<lparr>us_stream = 0, us_lastActive = 0\<rparr>],
     uf_streams := {0}, uf_conns := [0 \<mapsto> 0], uf_next := 1, uf_forwarders := [0 \<mapsto> (session_key peer vip_dns, vip_dns, peer)]\<rparr>"
  by (simp_all add: sample_udp1_def Serve_turn_def one_session_get good_turn_def newSession_def Let_def)


theorem stale_forwarder_witness:
  "uf_sessions (forwardUDP_end 0 (snd (Serve_turn one_session 30000000001 good_turn peer (Some vip_dns) [2]
      (recyeleSession 30000000001 sample_udp1)))) (session_key peer vip_dns) = None"
proof -
  have inv: "udpf_inv sample_udp1"
    using udpf_inv_serve [of sample_udp one_session 0 good_turn peer "Some vip_dns" "[1]"]
    by (simp add: sample_udp1_def) (simp add: sample_udp_def)
  have f: "uf_forwarders sample_udp1 0 = Some (session_key peer vip_dns, vip_dns, peer)"
      "uf_sessions sample_udp1 (session_key peer vip_dns) = Some \<lparr>us_stream = 0, us_lastActive = 0\<rparr>"
    by (simp_all add: sample_udp1_state(2))
  show ?thesis
    using stale_forwarder [OF inv f, of 30000000001 one_session good_turn _ _ "[2]", OF _ _ _ _ _ _ refl refl]
    by (simp add: one_session_get good_turn_def sample_udp1_state(2))
qed

theorem header_failure_blackhole_witness:
  "\<exists>g. Serve_turn one_session 0 \<lparr>tn_opened = True, tn_header = False, tn_data = True\<rparr> peer (Some vip_dns) [1] sample_udp = ([], g)
    \<and> stream_of g (session_key peer vip_dns) = Some 0"
proof -
  have inv: "udpf_inv sample_udp" by (simp add: sample_udp_def)
  obtain out g where g: "Serve_turn one_session 0 \<lparr>tn_opened = True, tn_header = False, tn_data = True\<rparr> peer
      (Some vip_dns) [1] sample_udp = (out, g)"
    by fastforce
  from header_failure_blackhole [OF _ inv _ _ _ g] g show ?thesis by (simp add: one_session_get)
qed

end
