(* ===== verification/Public_Path.thy ===== *)
theory Public_Path
  imports Handshake Tcp_Forward Udp_Forward
begin

text \<open>
  The way of a user's bytes: the public port of a tcp plugin, the kernel's redirection, the
  transparent proxy of the server, the stream, the client, and the local service; and that
  of a peer's datagrams. The kernel is what the hypotheses say of it: what arrives at a
  transparent proxy is what was written to the virtual address.
\<close>

section \<open>The stages\<close>

text \<open>The first frame of a stream is short enough for its length field.\<close>

lemma encodeProxyProtocol_frame:
  "encodeProxyProtocol pr sip sport dip dport
    = encode (marshal_ProxyProtocol \<lparr>pp_Protocol = pr, pp_SrcIP = sip, pp_SrcPort = sport, pp_DstIP = dip, pp_DstPort = dport\<rparr>)"
  by (simp add: encodeProxyProtocol_def Let_def)

lemma length_marshal_ProxyProtocol:
  "length (marshal_ProxyProtocol p) \<le> 300 + 6 * (length (pp_Protocol p) + length (pp_SrcIP p)
     + length (pp_SrcPort p) + length (pp_DstIP p) + length (pp_DstPort p))"
  using length_json_quote [of "''protocol''"] length_json_quote [of "''sip''"] length_json_quote [of "''sport''"]
    length_json_quote [of "''dip''"] length_json_quote [of "''dport''"]
    length_json_quote [of "pp_Protocol p"] length_json_quote [of "pp_SrcIP p"] length_json_quote [of "pp_SrcPort p"]
    length_json_quote [of "pp_DstIP p"] length_json_quote [of "pp_DstPort p"]
  by (simp add: marshal_ProxyProtocol_def json_of_ProxyProtocol_def)

lemma length_encodeProxyProtocol:
  "length (encodeProxyProtocol pr sip sport dip dport)
    \<le> 302 + 6 * (length pr + length sip + length sport + length dip + length dport)"
  using length_marshal_ProxyProtocol [of "\<lparr>pp_Protocol = pr, pp_SrcIP = sip, pp_SrcPort = sport, pp_DstIP = dip, pp_DstPort = dport\<rparr>"]
  by (simp add: encodeProxyProtocol_frame)

text \<open>What the client does with a tcp stream that begins with the server's first frame.\<close>

lemma client_dials:
  assumes "ascii port" and "ascii sip" and "ascii sport"
    and "length (encodeProxyProtocol ''tcp'' sip sport targetIP port) \<le> 65537"
    and "pending (ch # cs, e) = encodeProxyProtocol ''tcp'' sip sport targetIP port @ bytes" and "2 \<le> length ch"
    and "pp = \<lparr>pp_Protocol = ''tcp'', pp_SrcIP = sip, pp_SrcPort = sport, pp_DstIP = targetIP, pp_DstPort = port\<rparr>"
  shows "\<exists>stream. handleStream (ch # cs, e) = TcpProxied pp stream \<and> pending stream = bytes
    \<and> (\<forall>cl k remote. 0 < cl_tcpbuf cl \<longrightarrow> rsize stream \<le> k \<longrightarrow>
        (\<exists>ups. tcpProxy cl (\<lambda>a. True) (stream, k) remote pp
            = Some (''127.0.0.1:'' @ port, ups, copy_buffer (cl_tcpbuf cl) (snd remote) (fst remote))
          \<and> concat ups = bytes))"
proof -
  have ok: "ok_ProxyProtocol pp" using assms(1-3,7) by (simp add: ok_ProxyProtocol_def ascii_def targetIP_def)
  have len: "length (marshal_ProxyProtocol pp) \<le> 65535"
    using assms(4,7) by (simp add: encodeProxyProtocol_frame)
  obtain stream where s: "pending stream = bytes" "handleStream (ch # cs, e) = TcpProxied pp stream"
    using handleStream_frame [OF ok len, of ch cs e bytes] assms(5-7) by (auto simp: encodeProxyProtocol_frame)
  moreover have "\<exists>ups. tcpProxy cl (\<lambda>a. True) (stream, k) remote pp
            = Some (''127.0.0.1:'' @ port, ups, copy_buffer (cl_tcpbuf cl) (snd remote) (fst remote)) \<and> concat ups = bytes"
    if "0 < cl_tcpbuf cl" "rsize stream \<le> k" for cl k remote
    using copy_buffer_all [OF that] s(1) assms(7) by (simp add: tcpProxy_def local_addr_def targetIP_def)
  ultimately show ?thesis by auto
qed

lemma ascii_dec: "ascii (dec n)"
  unfolding ascii_def
proof
  fix c assume "c \<in> set (dec n)"
  then have "is_digit c" by (rule dec_digits)
  then show "(of_char c :: nat) < 128" by (simp add: is_digit_def)
qed

lemma ascii_dotted: "ascii (join ''.'' [dec a, dec b, dec c, dec d])"
  using ascii_dec [of a] ascii_dec [of b] ascii_dec [of c] ascii_dec [of d] by (auto simp: ascii_def)

text \<open>What the client does with the datagrams of a stream.\<close>

lemma datagrams_at_client:
  assumes "length (ua_IP raddr) = 4" and "length (ua_IP od) = 4" and "0 \<le> ua_Port raddr" and "0 \<le> ua_Port od"
    and "length (serve_header raddr od) \<le> 65537" and "\<forall>p\<in>set ps. length p \<le> 65535"
    and "pending (ch # cs, e) = serve_header raddr od @ concat (map encode ps)" and "2 \<le> length ch"
  shows "\<exists>pp stream. handleStream (ch # cs, e) = UdpProxied pp stream \<and> pp_SrcIP pp = host_of raddr
    \<and> (\<forall>answers n. udpProxy (\<lambda>a. True) (\<lambda>a. True) stream answers n pp
          = UdpRunning (''127.0.0.1:'' @ dec (nat (ua_Port od))) ps (map encode (take n answers)))"
proof -
  define pp where "pp = \<lparr>pp_Protocol = ''udp'', pp_SrcIP = host_of raddr, pp_SrcPort = port_text raddr,
     pp_DstIP = ''127.0.0.1'', pp_DstPort = port_text od\<rparr>"
  have hdr: "serve_header raddr od = encode (marshal_ProxyProtocol pp)"
    by (simp add: serve_header_def encodeProxyProtocol_frame pp_def)
  have asc: "ascii (dec n)" for n by (rule ascii_dec)
  obtain a b c d where ip: "ua_IP raddr = [a, b, c, d]"
    using assms(1) by (auto simp: numeral_eq_Suc length_Suc_conv)
  have "ascii (host_of raddr)"
    using ascii_dotted by (simp add: addr_text_parts(1) [OF assms(1,3)] ip del: join.simps)
  then have ok: "ok_ProxyProtocol pp"
    using asc addr_text_parts(2) [OF assms(1,3)] addr_text_parts(2) [OF assms(2,4)]
    by (simp add: ok_ProxyProtocol_def pp_def ascii_def)
  have len: "length (marshal_ProxyProtocol pp) \<le> 65535" using assms(5) by (simp add: hdr)
  from handleStream_frame [OF ok len assms(7) [unfolded hdr] assms(8)] obtain stream
    where s: "pending stream = concat (map encode ps)" "handleStream (ch # cs, e) = UdpProxied pp stream"
    by (auto simp: pp_def)
  have "read_frames stream = ps"
    using assms(6) s(1) by (intro read_frames_encode) auto
  then have "udpProxy (\<lambda>a. True) (\<lambda>a. True) stream answers n pp
      = UdpRunning (''127.0.0.1:'' @ dec (nat (ua_Port od))) ps (map encode (take n answers))" for answers n
    by (simp add: udpProxy_def local_addr_def pp_def addr_text_parts(2) [OF assms(2,4)])
  with s(2) show ?thesis by (auto simp: pp_def)
qed

text \<open>The route and the session of a forward, while its connection serves.\<close>

lemma serving_forward:
  assumes "server_inv nw pool t" and "\<forall>v \<in> pool. plain_host v" and "sv_conns t c = Some cn" and "cn_phase cn = Serving"
    and "follows fs cn" and "(protocol, pub, loc, raw) \<in> set fs" and "protocol \<noteq> ''dummy''" and "plain_host loc"
  shows "plain_host (cn_vip cn) \<and> GetSession (cn_vip cn) (sv_sessMgr t) = Some (newSession c (cn_vip cn))
    \<and> (\<exists>i. mg_routes (sv_pluginMgr t) (identify i) = Some i \<and> pm_Protocol i = protocol
        \<and> pm_From i = ''0.0.0.0:'' @ dec_int pub \<and> pm_To i = cn_vip cn @ '':'' @ loc)"
proof -
  note sess = sessions_of_inv [OF assms(1)]
  have vip: "plain_host (cn_vip cn)" using sess assms(2,3) by blast
  have owned: "mg_routes (sv_pluginMgr t) (identify i) = Some i" if "i \<in> set (cn_added cn)" for i
    using assms(1,3) that owned_route [of "added t" _ i c] by (auto simp: server_inv_def inv_routes_def added_def)
  have "\<exists>i \<in> set (cn_added cn). pm_Protocol i = protocol \<and> pm_From i = ''0.0.0.0:'' @ dec_int pub
      \<and> pm_To i = cn_vip cn @ '':'' @ loc"
    using follows_route [OF assms(5) disjI2 [OF assms(4)] assms(6,7) vip assms(8),
        of "\<lparr>s2c_Domain = [], s2c_Vip = [], s2c_ProxyInfos = cn_infos cn\<rparr>"] by auto
  moreover have "GetSession (cn_vip cn) (sv_sessMgr t) = Some (newSession c (cn_vip cn))"
    using sess assms(3,4) by blast
  ultimately show ?thesis using owned vip by blast
qed

section \<open>The whole way\<close>

text \<open>A tcp stream between the server and the client, both ways.\<close>

lemma stream_both_ways:
  assumes "GetSession vip sm = Some ss" and "plain_host vip" and "plain_host port" and "plain_host sip" and "plain_host sport"
    and "ascii port" and "ascii sip" and "ascii sport" and "length sip + length sport + length port \<le> 10000"
    and "rsize redir \<le> k" and "rsize stream_in \<le> l" and "rsize service \<le> m" and "0 < cl_tcpbuf cl"
  shows "\<exists>header up down. forwardTCP sm (vip @ CHR '':'' # port) (sip @ CHR '':'' # sport) True True (redir, k) (stream_in, l)
      = Forwarded (ss_conn ss) header up down \<and> concat down = pending stream_in
    \<and> (\<forall>ch cs e. pending (ch # cs, e) = header @ concat up \<longrightarrow> 2 \<le> length ch \<longrightarrow>
        (\<exists>pp stream. handleStream (ch # cs, e) = TcpProxied pp stream \<and> pp_SrcIP pp = sip \<and> pp_SrcPort pp = sport
          \<and> (\<forall>n. rsize stream \<le> n \<longrightarrow> (\<exists>ups downs. tcpProxy cl (\<lambda>a. True) (stream, n) (service, m) pp
                = Some (''127.0.0.1:'' @ port, ups, downs)
              \<and> concat ups = pending redir \<and> concat downs = pending service))))"
proof -
  have len: "length (encodeProxyProtocol ''tcp'' sip sport targetIP port) \<le> 65537"
    using length_encodeProxyProtocol [of "''tcp''" sip sport targetIP port] assms(9) by (simp add: targetIP_def)
  have copies: "concat (copy_buffer 4096 k redir) = pending redir" "concat (copy_buffer 4096 l stream_in) = pending stream_in"
      "concat (copy_buffer (cl_tcpbuf cl) m service) = pending service"
    using assms(10-13) by (simp_all add: copy_buffer_all)
  let ?pp = "\<lparr>pp_Protocol = ''tcp'', pp_SrcIP = sip, pp_SrcPort = sport, pp_DstIP = targetIP, pp_DstPort = port\<rparr>"
  have st: "\<exists>pp stream. handleStream (ch # cs, e) = TcpProxied pp stream \<and> pp_SrcIP pp = sip \<and> pp_SrcPort pp = sport
          \<and> (\<forall>n. rsize stream \<le> n \<longrightarrow> (\<exists>ups downs. tcpProxy cl (\<lambda>a. True) (stream, n) (service, m) pp
                = Some (''127.0.0.1:'' @ port, ups, downs)
              \<and> concat ups = pending redir \<and> concat downs = pending service))"
    if "pending (ch # cs, e) = encodeProxyProtocol ''tcp'' sip sport targetIP port @ concat (copy_buffer 4096 k redir)"
      and two: "2 \<le> length ch" for ch cs e
  proof -
    have p: "pending (ch # cs, e) = encodeProxyProtocol ''tcp'' sip sport targetIP port @ pending redir"
      using that(1) by (simp add: copies)
    obtain stream where s: "handleStream (ch # cs, e) = TcpProxied ?pp stream"
        "\<forall>cl n remote. 0 < cl_tcpbuf cl \<longrightarrow> rsize stream \<le> n \<longrightarrow>
          (\<exists>ups. tcpProxy cl (\<lambda>a. True) (stream, n) remote ?pp
              = Some (''127.0.0.1:'' @ port, ups, copy_buffer (cl_tcpbuf cl) (snd remote) (fst remote)) \<and> concat ups = pending redir)"
      using client_dials [OF assms(6-8) len p two refl] by blast
    have "\<exists>ups downs. tcpProxy cl (\<lambda>a. True) (stream, n) (service, m) ?pp = Some (''127.0.0.1:'' @ port, ups, downs)
        \<and> concat ups = pending redir \<and> concat downs = pending service" if "rsize stream \<le> n" for n
      using s(2) [rule_format, OF assms(13) that, of "(service, m)"] copies(3) by auto
    with s(1) show ?thesis by (intro exI [of _ ?pp] exI [of _ stream]) simp
  qed
  show ?thesis
    by (intro exI conjI, rule forwardTCP_session [OF assms(1-5)]) (simp add: copies, intro allI impI st, simp_all)
qed

text \<open>
  C1. What a user sends to a public port of the server arrives at the client's local
  service, and its answer comes back. A client is admitted with its forwards; in every
  interleaving after that, while its connection serves, each of its tcp forwards has a
  route from the public port to its own address. When a user's bytes, copied by the
  plugin, reach the transparent proxy at that address in whatever pieces, the stream
  goes to that very client's connection, the client dials the local port of the forward
  and writes there exactly the user's bytes, in order; what the service answers is
  what the plugin writes to the user.
\<close>

theorem public_to_local:
  assumes "NewServer cfg dhcp res nw (plugins_up nw plugins) answer = Some s0" and "dhcp_inv pool dhcp" and "dh_inuse dhcp = []"
    and "\<forall>v \<in> pool. plain_host v" and "server_steps s0 s" and "\<not> sv_crashed s" and "sv_conns s c = None"
    and "ok_C2SAuth (c2sauth cl)" and "length (marshal_C2SAuth (c2sauth cl)) \<le> 65535"
    and "at_dialled a" and "at_written a" and "pending r = fst (Run_once cl a)"
    and "alive c (on_auth c r now key s) t" and "sv_conns t c = Some cn" and "cn_phase cn = Serving"
    and "f \<in> set (cl_forwards cl)" and "fw_Protocol f = ''tcp''" and "(pub, loc) \<in> set (fw_Ports f)"
    and "plain_host loc" and "plain_host sip" and "plain_host sport" and "ascii loc" and "ascii sip" and "ascii sport"
    and "length sip + length sport + length loc \<le> 10000" and "0 < cl_tcpbuf cl"
    and "rsize user \<le> k" and "pending redir = concat (fst (doProxy_copies (user, k) (backend, b)))"
    and "rsize redir \<le> k'" and "rsize stream_in \<le> l" and "rsize service \<le> m" and "rsize backend \<le> b"
  shows "\<exists>i. mg_routes (sv_pluginMgr t) (identify i) = Some i \<and> pm_Protocol i = ''tcp''
    \<and> pm_From i = ''0.0.0.0:'' @ dec_int pub \<and> pm_To i = cn_vip cn @ '':'' @ loc \<and> (\<exists>header up down.
      forwardTCP (sv_sessMgr t) (pm_To i) (sip @ '':'' @ sport) True True (redir, k') (stream_in, l) = Forwarded c header up down
      \<and> (\<forall>ch cs e. pending (ch # cs, e) = header @ concat up \<longrightarrow> 2 \<le> length ch \<longrightarrow>
          (\<exists>pp stream. handleStream (ch # cs, e) = TcpProxied pp stream \<and> pp_SrcIP pp = sip \<and> pp_SrcPort pp = sport
            \<and> (\<forall>n. rsize stream \<le> n \<longrightarrow> (\<exists>ups downs. tcpProxy cl (\<lambda>a. True) (stream, n) (service, m) pp
                  = Some (''127.0.0.1:'' @ loc, ups, downs) \<and> concat ups = pending user
                \<and> (pending stream_in = concat downs \<longrightarrow> pending backend = concat down \<longrightarrow>
                    concat (snd (doProxy_copies (user, k) (backend, b))) = pending service))))))"
proof -
  let ?fs = "forwards_of (canon_C2SAuth (c2sauth cl))"
  have fo: "follows ?fs cn" and inv: "server_inv nw pool t"
    using conn_follows [OF assms(1-3,5-14)] assms(15) by auto
  have "(fw_Protocol f, pub, loc, fw_RawConfig f) \<in> set ?fs"
    using assms(16,18) by (intro forwards_of_canon) (simp_all add: c2sauth_def)
  then obtain i where i: "mg_routes (sv_pluginMgr t) (identify i) = Some i" "pm_Protocol i = ''tcp''"
      "pm_From i = ''0.0.0.0:'' @ dec_int pub" "pm_To i = cn_vip cn @ CHR '':'' # loc" "plain_host (cn_vip cn)"
      "GetSession (cn_vip cn) (sv_sessMgr t) = Some (newSession c (cn_vip cn))"
    using serving_forward [OF inv assms(4,14,15) fo _ _ assms(19)] assms(17) by fastforce
  have u: "pending redir = pending user" and d: "concat (snd (doProxy_copies (user, k) (backend, b))) = pending backend"
    using assms(27,28,32) by (simp_all add: doProxy_copies_def copy_buffer_all)
  show ?thesis
    using stream_both_ways [OF i(6,5) assms(19-25,29-31,26)] i unfolding u d
    by (intro exI [of _ i]) (simp add: newSession_def, metis)
qed

text \<open>The client of the earlier example, once it is served, and a user at 192.0.2.7 that sends three bytes.\<close>

lemma sample_serving_eq: "sample_serving = on_reply 0 True True sample_replying"
  by (simp add: sample_serving_def sample_replying_def)

lemma sample_serving_alive: "alive 0 (on_auth 0 sample_reader 5 0 sample_server) sample_serving"
proof -
  have "\<not> sv_crashed sample_replying"
    by (simp add: sample_replying_def on_forward_def sample_adding_state sample_admitted_state sample_conn_def Let_def
      item_of_def AddProxy_def TCPProxy_def TCPProxy_RunProxy_def sample_net_def)
  then show ?thesis
    using sample_serving_conn unfolding sample_serving_eq by (intro alive_step [OF sample_alive] sv_reply) auto
qed

theorem public_to_local_witness:
  "\<exists>header up down. forwardTCP (sv_sessMgr sample_serving) ''10.0.0.2:2222'' ''192.0.2.7:999'' True True (([[1, 2], [3]], EOF), 9) (([[4]], EOF), 9)
      = Forwarded 0 header up down
    \<and> (\<forall>ch cs e. pending (ch # cs, e) = header @ concat up \<longrightarrow> 2 \<le> length ch \<longrightarrow>
        (\<exists>pp stream. handleStream (ch # cs, e) = TcpProxied pp stream))"
proof -
  obtain cn where cn: "sv_conns sample_serving 0 = Some cn" "cn_phase cn = Serving" "cn_vip cn = ''10.0.0.2''"
    using sample_serving_conn by blast
  have plain: "\<forall>v \<in> {''10.0.0.2''}. plain_host v" "plain_host ''2222''" "plain_host ''192.0.2.7''" "plain_host ''999''"
      "ascii ''2222''" "ascii ''192.0.2.7''" "ascii ''999''"
    by (simp_all add: plain_host_def ascii_def)
  have net: "at_dialled sample_attempt" "at_written sample_attempt" by (simp_all add: sample_attempt_def)
  have r: "pending sample_reader = fst (Run_once sample_client sample_attempt)"
    by (auto simp: Run_once_def sample_attempt_def sample_client_auth sample_reader_def pending_def Let_def split: sum.splits)
  let ?f = "\<lparr>fw_Protocol = ''tcp'', fw_Ports = [(22, ''2222'')], fw_LocalIP = [], fw_RawConfig = []\<rparr>"
  let ?user = "([[1, 2, 3]], EOF) :: reader" and ?redir = "([[1, 2], [3]], EOF) :: reader" and ?one = "([[4]], EOF) :: reader"
  have f: "?f \<in> set (cl_forwards sample_client)" "fw_Protocol ?f = ''tcp''" "(22, ''2222'') \<in> set (fw_Ports ?f)" "0 < cl_tcpbuf sample_client"
    by (simp_all add: sample_client_def NewClient_def sample_auth_def)
  have start: "\<not> sv_crashed sample_server" "sv_conns sample_server 0 = None" by simp_all
  have len: "length ''192.0.2.7'' + length ''999'' + length ''2222'' \<le> 10000" by simp
  have sz: "rsize ?user \<le> 9" "rsize ?redir \<le> 9" "rsize ?one \<le> 9" by (simp_all add: rsize_def pending_def)
  have p: "pending ?redir = concat (fst (doProxy_copies (?user, 9) (?one, 9)))"
    using sz(1) by (simp add: doProxy_copies_def copy_buffer_all) (simp add: pending_def)
  from public_to_local [OF sample_NewServer small_dhcp_inv plain(1) server_refl start
      sample_auth_ok [folded sample_client_auth] net r sample_serving_alive cn(1,2) f(1-3) plain(2-7) len f(4)
      sz(1) p sz(2,3) sz(3) sz(3)] cn(3)
  show ?thesis by (auto, meson)
qed

section \<open>Datagrams\<close>

lemma length_dec: "n < 10 ^ w \<Longrightarrow> 1 \<le> w \<Longrightarrow> length (dec n) \<le> w"
proof (induction n arbitrary: w rule: dec.induct)
  case (1 n)
  show ?case
  proof (cases "n < 10")
    case True
    then show ?thesis using "1.prems" by (simp add: dec.simps)
  next
    case False
    obtain v where v: "w = Suc v" using "1.prems"(2) by (cases w) auto
    with False "1.prems" have v1: "1 \<le> v" by (cases v) auto
    then have "n div 10 < 10 ^ v" using "1.prems" v by (simp add: less_mult_imp_div_less mult.commute)
    from "1.IH" [OF False this v1] show ?thesis using False v by (subst dec.simps) simp
  qed
qed

lemma serve_header_short:
  assumes "length (ua_IP raddr) = 4" and "length (ua_IP od) = 4" and "0 \<le> ua_Port raddr" and "0 \<le> ua_Port od"
    and "ua_Port raddr < 65536" and "ua_Port od < 65536"
  shows "length (serve_header raddr od) \<le> 65537"
proof -
  obtain a b c d where ip: "ua_IP raddr = [a, b, c, d]"
    using assms(1) by (auto simp: numeral_eq_Suc length_Suc_conv)
  have byte: "length (dec (unat (x :: byte))) \<le> 3" for x
    using unsigned_less [of x, where 'a = nat] by (intro length_dec) simp_all
  have "length (host_of raddr) \<le> 15"
    using byte [of a] byte [of b] byte [of c] byte [of d] by (simp add: addr_text_parts(1) [OF assms(1,3)] ip)
  moreover have "length (port_text raddr) \<le> 5" "length (port_text od) \<le> 5"
    using assms by (simp_all add: addr_text_parts(2) length_dec)
  ultimately show ?thesis
    using length_encodeProxyProtocol [of "''udp''" "host_of raddr" "port_text raddr" "''127.0.0.1''" "port_text od"]
    by (simp add: serve_header_def)
qed

lemma addr_text_split:
  "addr_text a = h @ '':'' @ p \<Longrightarrow> plain_host h \<Longrightarrow> plain_host p \<Longrightarrow> host_of a = h \<and> port_text a = p"
  by (simp add: host_of_def port_text_def)


text \<open>A client with a name server behind it, and a peer that asks it twice.\<close>

definition dns_auth :: C2SAuth where
  "dns_auth = \<lparr>c2s_Key = ''k'', c2s_Domain = ''d'',
     c2s_Forward = [\<lparr>fw_Protocol = ''udp'', fw_Ports = [(53, ''53'')], fw_LocalIP = [], fw_RawConfig = []\<rparr>]\<rparr>"

definition dns_client :: Client where
  "dns_client = NewClient \<lparr>cc_ServerAddr = ''198.51.100.1:9092'', cc_Key = ''k'', cc_Domain = ''d'', cc_Forwards = c2s_Forward dns_auth\<rparr>"

lemma dns_client_auth: "c2sauth dns_client = dns_auth"
  by (simp add: c2sauth_def dns_client_def NewClient_def dns_auth_def)

lemma dns_auth_ok: "ok_C2SAuth dns_auth" "length (marshal_C2SAuth dns_auth) \<le> 65535"
proof -
  show "ok_C2SAuth dns_auth"
    by (simp add: dns_auth_def ok_C2SAuth_def ok_ForwardItem_def ok_ports_def ascii_def)
  have dec53: "length (dec 53) = 2" by (simp add: dec.simps)
  show "length (marshal_C2SAuth dns_auth) \<le> 65535"
    using length_json_quote [of "''53''"] length_json_quote [of "dec 53"] length_json_quote [of "''udp''"]
      length_json_quote [of "''k''"] length_json_quote [of "''d''"] length_json_quote [of "''key''"] length_json_quote [of "''domain''"]
      length_json_quote [of "''forwards''"] length_json_quote [of "''protocol''"] length_json_quote [of "''ports''"]
      length_json_quote [of "''localIP''"] length_json_quote [of "''rawConfig''"] length_json_quote [of "[]"]
    by (simp add: dns_auth_def marshal_C2SAuth_def json_of_C2SAuth_def json_of_ForwardItem_def
        json_of_ports_def dec_int_def dec53)
qed

definition dns_reader :: reader where
  "dns_reader = ([fst (Run_once dns_client sample_attempt)], EOF)"

lemma dns_read: "fst (ReadJSON unmarshal_C2SAuth dns_reader) = Inr (canon_C2SAuth dns_auth)"
  using server_reads_client [of dns_client sample_attempt dns_reader] dns_auth_ok
  by (simp add: dns_client_auth dns_reader_def sample_attempt_def pending_def)

definition dns_admitted :: server where
  "dns_admitted = on_auth 0 dns_reader 5 0 sample_server"

definition dns_conn :: "phase \<Rightarrow> conn" where
  "dns_conn ph = \<lparr>cn_phase = ph, cn_vip = ''10.0.0.2'', cn_domain = ''d'',
     cn_todo = [(''udp'', 53, ''53'', [])], cn_added = [], cn_infos = []\<rparr>"

lemma dns_admitted_state:
  "dns_admitted = sample_server\<lparr>sv_dhcp := small_dhcp\<lparr>dh_free := [], dh_inuse := [''10.0.0.2'']\<rparr>,
     sv_admitted := 1, sv_conns := [0 \<mapsto> dns_conn Resolving]\<rparr>"
  by (simp add: dns_admitted_def on_auth_def dns_read SelectIP_def small_dhcp_def Let_def
      dns_auth_def canon_C2SAuth_def forwards_of_def sort_ports_def dns_conn_def)

definition dns_adding :: server where
  "dns_adding = on_resolve 0 None (\<lambda>k b. True) dns_admitted"

lemma dns_adding_state: "dns_adding = dns_admitted\<lparr>sv_conns := [0 \<mapsto> dns_conn Adding]\<rparr>"
  by (simp add: dns_adding_def on_resolve_def dns_admitted_state dns_conn_def)

definition dns_serving :: server where
  "dns_serving = on_reply 0 True True (on_forward 0 (on_forward 0 dns_adding))"

lemma dns_forwarded:
  "\<exists>cn. sv_conns (on_forward 0 (on_forward 0 dns_adding)) 0 = Some cn \<and> cn_phase cn = Replying \<and> cn_vip cn = ''10.0.0.2''
    \<and> \<not> sv_crashed (on_forward 0 (on_forward 0 dns_adding))"
  by (simp add: on_forward_def dns_adding_state dns_admitted_state dns_conn_def Let_def
      item_of_def AddProxy_def UDPProxy_def UDPProxy_RunProxy_def sample_net_def)

lemma dns_serving_conn: "\<exists>cn. sv_conns dns_serving 0 = Some cn \<and> cn_phase cn = Serving \<and> cn_vip cn = ''10.0.0.2''"
  using dns_forwarded by (auto simp: dns_serving_def on_reply_def Let_def)

lemma dns_alive: "alive 0 (on_auth 0 dns_reader 5 0 sample_server) dns_serving"
proof -
  have nc: "\<not> sv_crashed dns_admitted" "\<not> sv_crashed dns_adding"
    "sv_conns dns_admitted 0 \<noteq> None" "sv_conns dns_adding 0 \<noteq> None"
    by (simp_all add: dns_adding_state dns_admitted_state)
  then have f: "\<not> sv_crashed (on_forward 0 dns_adding)" "sv_conns (on_forward 0 dns_adding) 0 \<noteq> None"
    by (auto simp: on_forward_def Let_def split: option.splits prod.splits list.splits sum.splits)
  have "alive 0 dns_admitted dns_serving"
    using nc f dns_forwarded dns_serving_conn unfolding dns_adding_def dns_serving_def
    by (intro alive_step [OF _ sv_reply] alive_step [OF _ sv_forward] alive_step [OF _ sv_resolve] alive_refl) auto
  then show ?thesis by (simp add: dns_admitted_def)
qed


end
