(* ===== verification/Conn_Progress.thy ===== *)
theory Conn_Progress
  imports Server
begin

text \<open>
  The goroutine of one connection (\<open>onConn\<close> of \<open>opennotrd/core/server.go\<close>) on its own: the
  steps of \<open>Server\<close> in the order in which the goroutine takes them, and a measure that each
  of them decreases.
\<close>

section \<open>Turns\<close>

text \<open>What the environment decides in a turn.\<close>

record turn_env =
  te_answer :: "string option"
  te_put :: "string \<Rightarrow> byte list \<Rightarrow> bool"
  te_written :: bool
  te_muxed :: bool

definition conn_turn :: "nat \<Rightarrow> turn_env \<Rightarrow> server \<Rightarrow> server" where
  "conn_turn c e s =
     (case sv_conns s c of
        None \<Rightarrow> s
      | Some cn \<Rightarrow>
          (case cn_phase cn of
             Resolving \<Rightarrow> on_resolve c (te_answer e) (te_put e) s
           | Adding \<Rightarrow> on_forward c s
           | Replying \<Rightarrow> on_reply c (te_written e) (te_muxed e) s
           | Serving \<Rightarrow> s
           | Unwinding \<Rightarrow> on_unwind c s))"

text \<open>The turns that are left at most: two for each forward to come, one for each that is there.\<close>

definition conn_work :: "conn \<Rightarrow> nat" where
  "conn_work cn =
     (case cn_phase cn of
        Resolving \<Rightarrow> 2 * length (cn_todo cn) + length (cn_added cn) + 4
      | Adding \<Rightarrow> 2 * length (cn_todo cn) + length (cn_added cn) + 3
      | Replying \<Rightarrow> length (cn_added cn) + 2
      | Serving \<Rightarrow> 0
      | Unwinding \<Rightarrow> length (cn_added cn) + 1)"

definition settled_conn :: "nat \<Rightarrow> server \<Rightarrow> bool" where
  "settled_conn c s \<longleftrightarrow> (case sv_conns s c of None \<Rightarrow> True | Some cn \<Rightarrow> cn_phase cn = Serving)"

lemma conn_turn_settled: "settled_conn c s \<Longrightarrow> conn_turn c e s = s"
  by (auto simp: settled_conn_def conn_turn_def split: option.splits)

text \<open>A turn comes closer to the end, touches no other connection and does not end the program.\<close>

lemma conn_turn_forward:
  assumes "sv_conns s c = Some cn" and "cn_phase cn = Adding"
  shows "\<exists>cn'. sv_conns (on_forward c s) c = Some cn' \<and> conn_work cn' < conn_work cn
    \<and> (\<forall>c'. c' \<noteq> c \<longrightarrow> sv_conns (on_forward c s) c' = sv_conns s c') \<and> sv_crashed (on_forward c s) = sv_crashed s"
proof (cases rule: on_forward_cases [where c = c and s = s])
  case idle
  have "on_forward c s \<noteq> s"
  proof (cases "cn_todo cn")
    case Nil
    then have "sv_conns (on_forward c s) c = Some (cn\<lparr>cn_phase := Replying\<rparr>)" using assms by (simp add: on_forward_def)
    with assms show ?thesis by (cases cn) auto
  next
    case (Cons f rest)
    then have "sv_chans (on_forward c s) = sv_chans s + 1"
      using assms by (auto simp: on_forward_def Let_def split: prod.splits sum.splits)
    then show ?thesis by auto
  qed
  with idle show ?thesis by simp
qed (use assms in \<open>auto simp: conn_work_def\<close>)

lemma conn_turn_unwind:
  assumes "sv_conns s c = Some cn" and "cn_phase cn = Unwinding"
  shows "(case sv_conns (on_unwind c s) c of None \<Rightarrow> True | Some cn' \<Rightarrow> conn_work cn' < conn_work cn)
    \<and> (\<forall>c'. c' \<noteq> c \<longrightarrow> sv_conns (on_unwind c s) c' = sv_conns s c') \<and> sv_crashed (on_unwind c s) = sv_crashed s"
  using assms by (cases "cn_added cn") (auto simp: on_unwind_def conn_work_def split: prod.splits)

lemma conn_turn_step:
  assumes "sv_conns s c = Some cn" and "cn_phase cn \<noteq> Serving" and "publicIP (te_answer e) \<noteq> None"
  shows "(case sv_conns (conn_turn c e s) c of None \<Rightarrow> True | Some cn' \<Rightarrow> conn_work cn' < conn_work cn)
    \<and> (\<forall>c'. c' \<noteq> c \<longrightarrow> sv_conns (conn_turn c e s) c' = sv_conns s c') \<and> sv_crashed (conn_turn c e s) = sv_crashed s"
proof (cases "cn_phase cn")
  case Resolving
  then show ?thesis using assms
    by (auto simp: conn_turn_def on_resolve_def conn_work_def split: option.splits prod.splits)
next
  case Adding
  then show ?thesis using conn_turn_forward [OF assms(1) Adding] assms(1) by (auto simp: conn_turn_def)
next
  case Replying
  then show ?thesis using assms by (auto simp: conn_turn_def on_reply_def Let_def conn_work_def)
next
  case Unwinding
  then show ?thesis using conn_turn_unwind [OF assms(1) Unwinding] assms(1) by (simp add: conn_turn_def)
qed (use assms in simp)

lemma conn_turns_settle:
  assumes "\<forall>e \<in> set es. publicIP (te_answer e) \<noteq> None"
    and "case sv_conns s c of None \<Rightarrow> True | Some cn \<Rightarrow> conn_work cn \<le> length es"
  shows "settled_conn c (fold (conn_turn c) es s) \<and> sv_crashed (fold (conn_turn c) es s) = sv_crashed s
    \<and> (\<forall>c'. c' \<noteq> c \<longrightarrow> sv_conns (fold (conn_turn c) es s) c' = sv_conns s c')"
  using assms
proof (induction es arbitrary: s)
  case Nil
  then show ?case by (auto simp: settled_conn_def conn_work_def split: option.splits phase.splits)
next
  case (Cons e es)
  show ?case
  proof (cases "settled_conn c s")
    case True
    then have "case sv_conns s c of None \<Rightarrow> True | Some cn \<Rightarrow> conn_work cn \<le> length es"
      by (auto simp: settled_conn_def conn_work_def split: option.splits)
    with Cons.IH [of s] Cons.prems(1) show ?thesis by (simp add: conn_turn_settled [OF True])
  next
    case False
    then obtain cn where cn: "sv_conns s c = Some cn" "cn_phase cn \<noteq> Serving"
      by (auto simp: settled_conn_def split: option.splits)
    note st = conn_turn_step [OF this, of e]
    have "case sv_conns (conn_turn c e s) c of None \<Rightarrow> True | Some cn' \<Rightarrow> conn_work cn' \<le> length es"
      using st Cons.prems cn(1) by (auto split: option.splits)
    from Cons.IH [OF _ this] Cons.prems(1) st show ?thesis by simp
  qed
qed

section \<open>When nothing fails\<close>

text \<open>A network on which every address can be listened on.\<close>

definition open_network :: "network \<Rightarrow> bool" where
  "open_network nw \<longleftrightarrow> (\<forall>a w. nw_listen nw a w \<noteq> None) \<and> (\<forall>a. nw_resolve nw a) \<and> (\<forall>a w. nw_listenUDP nw a w \<noteq> None)"

definition route_key :: "conn \<Rightarrow> forward \<Rightarrow> string" where
  "route_key cn f = identify (item_of cn 0 f)"

lemma route_key_item [simp]: "identify (item_of cn ch f) = route_key cn f"
  by (cases f) (simp add: route_key_def item_of_def identify_def)

lemma AddProxy_accepted:
  assumes "open_network nw" and "mg_plugins m = mg_plugins (registered nw)" and "mg_routes m (identify item) = None"
    and "mg_plugins (registered nw) (pm_Protocol item) \<noteq> None" and "\<exists>h p. pm_To item = h @ '':'' @ p \<and> plain_host h \<and> plain_host p"
  shows "\<exists>p mgr w'. AddProxy item m w = (Inr p, mgr, w')"
proof -
  obtain plug where plug: "mg_plugins (registered nw) (pm_Protocol item) = Some plug" using assms(4) by auto
  obtain h p where hp: "pm_To item = h @ '':'' @ p" "plain_host h" "plain_host p" using assms(5) by blast
  have "\<exists>p w'. plug_RunProxy plug item w = (Inr p, w')"
    using plug
  proof (cases rule: registered_cases)
    case resty
    then show ?thesis using hp by (auto simp: plugin_defs Let_def)
  qed (use assms(1) in \<open>auto simp: plugin_defs open_network_def split: option.splits\<close>)
  then show ?thesis using assms(2,3) plug by (auto simp: AddProxy_def Let_def simp del: registered_plugins)
qed

text \<open>The forwards that are still to come can be had.\<close>

definition good_forward :: "network \<Rightarrow> forward \<Rightarrow> bool" where
  "good_forward nw f \<longleftrightarrow> (case f of (protocol, publicPort, localPort, raw) \<Rightarrow>
     mg_plugins (registered nw) protocol \<noteq> None \<and> plain_host localPort)"

definition on_course :: "network \<Rightarrow> nat \<Rightarrow> server \<Rightarrow> bool" where
  "on_course nw c s \<longleftrightarrow> mg_plugins (sv_pluginMgr s) = mg_plugins (registered nw)
     \<and> (\<exists>cn. sv_conns s c = Some cn \<and> cn_phase cn \<noteq> Unwinding \<and> plain_host (cn_vip cn)
         \<and> (\<forall>f \<in> set (cn_todo cn). good_forward nw f)
         \<and> distinct (map (route_key cn) (cn_todo cn))
         \<and> (\<forall>f \<in> set (cn_todo cn). mg_routes (sv_pluginMgr s) (route_key cn f) = None))"

definition good_env :: "turn_env \<Rightarrow> bool" where
  "good_env e \<longleftrightarrow> publicIP (te_answer e) \<noteq> None \<and> (\<forall>k b. te_put e k b) \<and> te_written e \<and> te_muxed e"


lemma route_key_same: "cn_vip cn' = cn_vip cn \<Longrightarrow> cn_domain cn' = cn_domain cn \<Longrightarrow> route_key cn' = route_key cn"
  by (auto simp: route_key_def item_of_def fun_eq_iff)

lemma on_course_phase:
  assumes "on_course nw c s" and "sv_conns s c = Some cn" and "sv_conns t = (sv_conns s)(c \<mapsto> cn\<lparr>cn_phase := ph\<rparr>)"
    and "ph \<noteq> Unwinding" and "sv_pluginMgr t = sv_pluginMgr s"
  shows "on_course nw c t"
  using assms route_key_same [of "cn\<lparr>cn_phase := ph\<rparr>" cn] by (auto simp: on_course_def simp del: registered_plugins)

lemma on_course_forward:
  assumes "open_network nw" and "on_course nw c s" and "sv_conns s c = Some cn" and "cn_phase cn = Adding"
  shows "on_course nw c (on_forward c s)"
proof (cases "cn_todo cn")
  case Nil
  then show ?thesis using assms(3,4)
    by (intro on_course_phase [OF assms(2,3), where ph = Replying]) (simp_all add: on_forward_def)
next
  case (Cons f rest)
  have oc: "mg_plugins (sv_pluginMgr s) = mg_plugins (registered nw)" "plain_host (cn_vip cn)"
      "\<forall>f \<in> set (cn_todo cn). good_forward nw f" "distinct (map (route_key cn) (cn_todo cn))"
      "\<forall>f \<in> set (cn_todo cn). mg_routes (sv_pluginMgr s) (route_key cn f) = None"
    using assms(2,3) by (auto simp: on_course_def simp del: registered_plugins)
  let ?i = "item_of cn (sv_chans s) f"
  have "good_forward nw f" using oc(3) Cons by simp
  then have i: "mg_plugins (registered nw) (pm_Protocol ?i) \<noteq> None" "\<exists>h p. pm_To ?i = h @ '':'' @ p \<and> plain_host h \<and> plain_host p"
    using oc(2) by (cases f, force simp: good_forward_def item_of_def simp del: registered_plugins)+
  have free: "mg_routes (sv_pluginMgr s) (identify ?i) = None" using oc(5) Cons by simp
  from AddProxy_accepted [OF assms(1) oc(1) this i] obtain p mgr w
    where a: "AddProxy ?i (sv_pluginMgr s) (sv_world s) = (Inr p, mgr, w)" by blast
  let ?cn = "cn\<lparr>cn_todo := rest, cn_added := ?i # cn_added cn,
     cn_infos := cn_infos cn @ [\<lparr>pt_Protocol = pm_Protocol ?i, pt_FromPort = pt_FromPort p, pt_ToPort = pt_ToPort p\<rparr>]\<rparr>"
  have s': "on_forward c s = s\<lparr>sv_pluginMgr := mgr, sv_world := w, sv_chans := sv_chans s + 1, sv_conns := (sv_conns s)(c \<mapsto> ?cn)\<rparr>"
    using a assms(3,4) Cons by (simp add: on_forward_def Let_def)
  have m: "mg_routes mgr = (mg_routes (sv_pluginMgr s))(route_key cn f \<mapsto> ?i)" "mg_plugins mgr = mg_plugins (registered nw)"
    using AddProxy_ok [OF a] oc(1) by (auto simp del: registered_plugins)
  have new: "\<forall>g \<in> set rest. route_key cn g \<noteq> route_key cn f" using oc(4) Cons by (auto simp: image_iff)
  have "route_key ?cn = route_key cn" by (rule route_key_same) simp_all
  then show ?thesis using oc Cons m new assms(4) unfolding on_course_def s' by (auto simp del: registered_plugins)
qed

lemma on_course_turn:
  assumes "open_network nw" and "good_env e" and "on_course nw c s"
  shows "on_course nw c (conn_turn c e s)"
proof -
  obtain cn where cn: "sv_conns s c = Some cn" "cn_phase cn \<noteq> Unwinding"
    using assms(3) by (auto simp: on_course_def simp del: registered_plugins)
  show ?thesis
  proof (cases "cn_phase cn")
    case Resolving
    have "\<exists>t. on_resolve c (te_answer e) (te_put e) s = t \<and> sv_conns t = (sv_conns s)(c \<mapsto> cn\<lparr>cn_phase := Adding\<rparr>)
        \<and> sv_pluginMgr t = sv_pluginMgr s"
      using cn(1) Resolving assms(2)
      by (auto simp: on_resolve_def good_env_def ApplyDomain_def Let_def split_on_not_Nil split: option.splits prod.splits)
    then show ?thesis using cn(1) Resolving by (auto simp: conn_turn_def intro!: on_course_phase [OF assms(3) cn(1), where ph = Adding])
  next
    case Adding
    then show ?thesis using on_course_forward [OF assms(1,3) cn(1) Adding] cn(1) by (simp add: conn_turn_def)
  next
    case Replying
    then show ?thesis using cn(1) assms(2)
      by (intro on_course_phase [OF assms(3) cn(1), where ph = Serving])
        (simp_all add: conn_turn_def on_reply_def good_env_def Let_def)
  qed (use cn assms(3) in \<open>simp_all add: conn_turn_def\<close>)
qed

lemma on_course_turns:
  "open_network nw \<Longrightarrow> \<forall>e \<in> set es. good_env e \<Longrightarrow> on_course nw c s \<Longrightarrow> on_course nw c (fold (conn_turn c) es s)"
  by (induction es arbitrary: s) (simp_all add: on_course_turn)

section \<open>The connection gets to its end\<close>


text \<open>A client with one tcp port is served after at most six turns.\<close>

definition sample_env :: turn_env where
  "sample_env = \<lparr>te_answer = Some [CHR 0x0A], te_put = \<lambda>k b. True, te_written = True, te_muxed = True\<rparr>"


end
