(* ===== verification/Log_Format.thy ===== *)
theory Log_Format
  imports Json "HOL-Library.Char_ord" "HOL-Library.List_Lexorder" "HOL-Library.Product_Lexorder"
begin

text \<open>
  The texts of the log (\<open>internal/logs/logger.go\<close>, \<open>internal/logs/console.go\<close> and
  \<open>formatLog\<close> of \<open>internal/logs/log.go\<close>): the levels, the time at the head of a
  line, the colours, and the line that the console adapter writes.
\<close>

section \<open>Levels\<close>

datatype level =
    LevelEmergency | LevelAlert | LevelCritical | LevelError
  | LevelWarning | LevelNotice | LevelInformational | LevelDebug

fun level_num :: "level \<Rightarrow> nat" where
  "level_num LevelEmergency = 0"
| "level_num LevelAlert = 1"
| "level_num LevelCritical = 2"
| "level_num LevelError = 3"
| "level_num LevelWarning = 4"
| "level_num LevelNotice = 5"
| "level_num LevelInformational = 6"
| "level_num LevelDebug = 7"

lemma level_num_inj [simp]: "level_num a = level_num b \<longleftrightarrow> a = b"
  by (cases a; cases b) simp_all

lemma level_num_less [simp]: "level_num a < 8"
  by (cases a) simp_all

instantiation level :: linorder
begin

definition less_level :: "level \<Rightarrow> level \<Rightarrow> bool" where
  "a < b \<longleftrightarrow> level_num a < level_num b"

definition less_eq_level :: "level \<Rightarrow> level \<Rightarrow> bool" where
  "a \<le> b \<longleftrightarrow> level_num a \<le> level_num b"

instance
  by standard (auto simp: less_level_def less_eq_level_def)

end

definition levelPrefix :: "string list" where
  "levelPrefix = [''[M] '', ''[A] '', ''[C] '', ''[E] '', ''[W] '', ''[N] '', ''[I] '', ''[D] '']"

lemma levelPrefix_distinct: "distinct levelPrefix" "length levelPrefix = 8"
  by (simp_all add: levelPrefix_def)

section \<open>The time at the head of a line\<close>

record time =
  tm_year :: nat
  tm_month :: nat
  tm_day :: nat
  tm_hour :: nat
  tm_min :: nat
  tm_sec :: nat
  tm_nsec :: nat

text \<open>
  The loop of \<open>itoa\<close>, with \<open>bp\<close> the index into the six bytes, \<open>b\<close> the bytes after it;
  \<open>None\<close> is the panic of an index below zero.
\<close>

primrec itoa_loop :: "nat \<Rightarrow> nat \<Rightarrow> int \<Rightarrow> string \<Rightarrow> string option" where
  "itoa_loop 0 i wid b = (if i \<ge> 10 \<or> wid > 1 then None else Some (digit i # b))"
| "itoa_loop (Suc bp) i wid b =
     (if i \<ge> 10 \<or> wid > 1
      then (let q = i div 10 in itoa_loop bp q (wid - 1) (digit (i - q * 10) # b))
      else Some (digit i # b))"

definition itoa :: "string \<Rightarrow> nat \<Rightarrow> int \<Rightarrow> string option" where
  "itoa buf i wid = map_option (\<lambda>s. buf @ s) (itoa_loop 5 i wid [])"

definition formatTimeHeader :: "time \<Rightarrow> (string \<times> nat) option" where
  "formatTimeHeader t =
     Option.bind (itoa [] (tm_year t) 4) (\<lambda>buf.
     Option.bind (itoa (buf @ ''/'') (tm_month t) 2) (\<lambda>buf.
     Option.bind (itoa (buf @ ''/'') (tm_day t) 2) (\<lambda>buf.
     Option.bind (itoa (buf @ '' '') (tm_hour t) 2) (\<lambda>buf.
     Option.bind (itoa (buf @ '':'') (tm_min t) 2) (\<lambda>buf.
     Option.bind (itoa (buf @ '':'') (tm_sec t) 2) (\<lambda>buf.
     Option.bind (itoa (buf @ ''.'') (tm_nsec t div 1000) 6) (\<lambda>buf.
       Some (buf @ '' '', tm_day t))))))))"

text \<open>The specification: a number with exactly \<open>w\<close> digits.\<close>

primrec padded :: "nat \<Rightarrow> nat \<Rightarrow> string" where
  "padded 0 i = []"
| "padded (Suc w) i = padded w (i div 10) @ [digit (i mod 10)]"

lemma length_padded [simp]: "length (padded w i) = w"
  by (induction w arbitrary: i) simp_all

lemma itoa_loop_padded:
  "1 \<le> w \<Longrightarrow> w \<le> Suc bp \<Longrightarrow> i < 10 ^ w \<Longrightarrow> itoa_loop bp i (int w) b = Some (padded w i @ b)"
proof (induction bp arbitrary: w i b)
  case 0
  then have "w = 1" by simp
  with 0 show ?case by simp
next
  case (Suc bp)
  then obtain v where w: "w = Suc v" by (cases w) auto
  show ?case
  proof (cases "v = 0")
    case True
    with Suc.prems w show ?thesis by simp
  next
    case False
    have d: "i - i div 10 * 10 = i mod 10" by (metis minus_mult_div_eq_mod mult.commute)
    have "itoa_loop bp (i div 10) (int v) (digit (i mod 10) # b) = Some (padded v (i div 10) @ digit (i mod 10) # b)"
      using Suc.prems w False by (intro Suc.IH) auto
    with False w d show ?thesis by (simp add: Let_def)
  qed
qed

lemma itoa_padded: "1 \<le> w \<Longrightarrow> w \<le> 6 \<Longrightarrow> i < 10 ^ w \<Longrightarrow> itoa buf i (int w) = Some (buf @ padded w i)"
  by (simp add: itoa_def itoa_loop_padded)

definition time_ok :: "time \<Rightarrow> bool" where
  "time_ok t \<longleftrightarrow> tm_year t < 10000 \<and> tm_month t < 100 \<and> tm_day t < 100 \<and> tm_hour t < 100
     \<and> tm_min t < 100 \<and> tm_sec t < 100 \<and> tm_nsec t < 1000000000"

definition header_text :: "time \<Rightarrow> string" where
  "header_text t = padded 4 (tm_year t) @ ''/'' @ padded 2 (tm_month t) @ ''/'' @ padded 2 (tm_day t) @ '' ''
     @ padded 2 (tm_hour t) @ '':'' @ padded 2 (tm_min t) @ '':'' @ padded 2 (tm_sec t) @ ''.''
     @ padded 6 (tm_nsec t div 1000) @ '' ''"

lemma micros_bound: "n < 1000000000 \<Longrightarrow> n div 1000 < (1000000 :: nat)"
  by (simp add: div_less_iff_less_mult)

lemma formatTimeHeader_text: "time_ok t \<Longrightarrow> formatTimeHeader t = Some (header_text t, tm_day t)"
  using micros_bound [of "tm_nsec t"] itoa_padded [of 4 "tm_year t"] itoa_padded [of 2 "tm_month t"] itoa_padded [of 2 "tm_day t"]
    itoa_padded [of 2 "tm_hour t"] itoa_padded [of 2 "tm_min t"] itoa_padded [of 2 "tm_sec t"]
    itoa_padded [of 6 "tm_nsec t div 1000"]
  by (simp add: formatTimeHeader_def header_text_def time_ok_def)

text \<open>Texts of the same length compare field by field.\<close>

lemma less_append:
  fixes a b :: "'a :: linorder list"
  shows "length a = length b \<Longrightarrow> a @ s < b @ t \<longleftrightarrow> a < b \<or> a = b \<and> s < t"
  by (induction a b rule: list_induct2) auto

lemma digit_less [simp]: "a < 10 \<Longrightarrow> b < 10 \<Longrightarrow> digit a < digit b \<longleftrightarrow> a < b"
  by (simp add: less_char_def of_char_digit)

lemma digit_eq [simp]: "a < 10 \<Longrightarrow> b < 10 \<Longrightarrow> digit a = digit b \<longleftrightarrow> a = b"
  by (metis digit_val_digit)

lemma eq_by_digits: "a = b \<longleftrightarrow> a div 10 = b div 10 \<and> a mod 10 = b mod (10 :: nat)"
  by (metis div_mult_mod_eq)

lemma less_by_digits: "a < b \<longleftrightarrow> a div 10 < b div 10 \<or> a div 10 = b div 10 \<and> a mod 10 < b mod (10 :: nat)"
proof -
  have "10 * x + p < 10 * y + q \<longleftrightarrow> x < y \<or> x = y \<and> p < q" if "p < 10" "q < 10" for x y p q :: nat
    using that by arith
  from this [of "a mod 10" "b mod 10" "a div 10" "b div 10"] show ?thesis by simp
qed

lemma lex_le: "(a < b \<or> a \<le> b \<and> P) \<longleftrightarrow> (a < b \<or> a = (b :: nat) \<and> P)"
  by auto

lemma padded_eq: "a < 10 ^ w \<Longrightarrow> b < 10 ^ w \<Longrightarrow> padded w a = padded w b \<longleftrightarrow> a = b"
proof (induction w arbitrary: a b)
  case (Suc w)
  have d: "a div 10 < 10 ^ w" "b div 10 < 10 ^ w" using Suc.prems by auto
  show ?case using Suc.IH [OF d] eq_by_digits [of a b] by simp
qed simp

lemma padded_less: "a < 10 ^ w \<Longrightarrow> b < 10 ^ w \<Longrightarrow> padded w a < padded w b \<longleftrightarrow> a < b"
proof (induction w arbitrary: a b)
  case (Suc w)
  have d: "a div 10 < 10 ^ w" "b div 10 < 10 ^ w" using Suc.prems by auto
  show ?case using Suc.IH [OF d] padded_eq [OF d] less_by_digits [of a b] by (simp add: less_append)
qed simp

definition time_key :: "time \<Rightarrow> nat \<times> nat \<times> nat \<times> nat \<times> nat \<times> nat \<times> nat" where
  "time_key t = (tm_year t, tm_month t, tm_day t, tm_hour t, tm_min t, tm_sec t, tm_nsec t div 1000)"

text \<open>
  For every time of a year below 10000, \<open>formatTimeHeader\<close> returns, without
  running out of its six digits, a text of exactly 27 characters and the day; and the
  order of these texts is the order of the times, to the microsecond.
\<close>

lemma time_header:
  assumes "time_ok t" and "time_ok u"
  shows "\<exists>ht hu. formatTimeHeader t = Some (ht, tm_day t) \<and> formatTimeHeader u = Some (hu, tm_day u)
    \<and> length ht = 27 \<and> (ht < hu \<longleftrightarrow> time_key t < time_key u) \<and> (ht = hu \<longleftrightarrow> time_key t = time_key u)"
proof -
  have b: "tm_year t < 10 ^ 4" "tm_month t < 10 ^ 2" "tm_day t < 10 ^ 2" "tm_hour t < 10 ^ 2" "tm_min t < 10 ^ 2"
      "tm_sec t < 10 ^ 2" "tm_nsec t div 1000 < 10 ^ 6"
      "tm_year u < 10 ^ 4" "tm_month u < 10 ^ 2" "tm_day u < 10 ^ 2" "tm_hour u < 10 ^ 2" "tm_min u < 10 ^ 2"
      "tm_sec u < 10 ^ 2" "tm_nsec u div 1000 < 10 ^ 6"
    using assms micros_bound by (auto simp: time_ok_def)
  have "header_text t < header_text u \<longleftrightarrow> time_key t < time_key u"
    using b by (simp add: header_text_def time_key_def less_append padded_less padded_eq lex_le del: padded.simps)
  moreover have "header_text t = header_text u \<longleftrightarrow> time_key t = time_key u"
    using b by (simp add: header_text_def time_key_def padded_eq del: padded.simps)
  moreover have "length (header_text t) = 27" by (simp add: header_text_def)
  ultimately show ?thesis using formatTimeHeader_text assms by blast
qed

definition sample_time :: time where
  "sample_time = \<lparr>tm_year = 2020, tm_month = 7, tm_day = 9, tm_hour = 1, tm_min = 2, tm_sec = 3, tm_nsec = 45000\<rparr>"

lemma time_header_witness:
  "\<exists>h. formatTimeHeader sample_time = Some (h, 9) \<and> length h = 27"
proof -
  have "time_ok sample_time" by (simp add: time_ok_def sample_time_def)
  from time_header [OF this this] show ?thesis by (auto simp: sample_time_def)
qed

section \<open>Colours\<close>

definition esc :: string where
  "esc = [CHR 0x1B]"

definition green :: string where "green = esc @ ''[97;42m''"
definition white :: string where "white = esc @ ''[90;47m''"
definition yellow :: string where "yellow = esc @ ''[97;43m''"
definition red :: string where "red = esc @ ''[97;41m''"
definition blue :: string where "blue = esc @ ''[97;44m''"
definition magenta :: string where "magenta = esc @ ''[97;45m''"
definition cyan :: string where "cyan = esc @ ''[97;46m''"
definition w32Green :: string where "w32Green = esc @ ''[42m''"
definition w32White :: string where "w32White = esc @ ''[47m''"
definition w32Yellow :: string where "w32Yellow = esc @ ''[43m''"
definition w32Red :: string where "w32Red = esc @ ''[41m''"
definition w32Blue :: string where "w32Blue = esc @ ''[44m''"
definition w32Magenta :: string where "w32Magenta = esc @ ''[45m''"
definition w32Cyan :: string where "w32Cyan = esc @ ''[46m''"
definition reset :: string where "reset = esc @ ''[0m''"

definition ColorByStatus :: "bool \<Rightarrow> int \<Rightarrow> string" where
  "ColorByStatus cond code =
     (if code \<ge> 200 \<and> code < 300 then (if cond then green else w32Green)
      else if code \<ge> 300 \<and> code < 400 then (if cond then white else w32White)
      else if code \<ge> 400 \<and> code < 500 then (if cond then yellow else w32Yellow)
      else (if cond then red else w32Red))"

definition ColorByMethod :: "bool \<Rightarrow> string \<Rightarrow> string" where
  "ColorByMethod cond m =
     (if m = ''GET'' then (if cond then blue else w32Blue)
      else if m = ''POST'' then (if cond then cyan else w32Cyan)
      else if m = ''PUT'' then (if cond then yellow else w32Yellow)
      else if m = ''DELETE'' then (if cond then red else w32Red)
      else if m = ''PATCH'' then (if cond then green else w32Green)
      else if m = ''HEAD'' then (if cond then magenta else w32Magenta)
      else if m = ''OPTIONS'' then (if cond then white else w32White)
      else reset)"

definition brush :: "string \<Rightarrow> string \<Rightarrow> string" where
  "brush color text = esc @ ''['' @ color @ ''m'' @ text @ esc @ ''[0m''"

definition colors :: "(string \<Rightarrow> string) list" where
  "colors = [brush ''1;37'', brush ''1;36'', brush ''1;35'', brush ''1;31'',
     brush ''1;33'', brush ''1;32'', brush ''1;34'', brush ''1;44'']"

section \<open>Configuring an adapter\<close>

text \<open>
  \<open>json.Unmarshal\<close> into a value that exists: the members that are read before an error
  keep what they were set to.
\<close>

definition unmarshal_into :: "'r member_step \<Rightarrow> byte list \<Rightarrow> 'r \<Rightarrow> bool \<times> 'r" where
  "unmarshal_into stp bs z =
     (case json_parse (string_of bs) of
        None \<Rightarrow> (False, z)
      | Some v \<Rightarrow> decode_obj stp z v)"

definition set_int :: "(int \<Rightarrow> 'r \<Rightarrow> 'r) \<Rightarrow> json \<Rightarrow> bool \<times> 'r \<Rightarrow> bool \<times> 'r" where
  "set_int upd v st =
     (case v of
        JNum s \<Rightarrow> (case parse_int s of Some i \<Rightarrow> (fst st, upd i (snd st)) | None \<Rightarrow> (False, snd st))
      | JNull \<Rightarrow> st
      | _ \<Rightarrow> (False, snd st))"

definition set_bool :: "(bool \<Rightarrow> 'r \<Rightarrow> 'r) \<Rightarrow> json \<Rightarrow> bool \<times> 'r \<Rightarrow> bool \<times> 'r" where
  "set_bool upd v st =
     (case v of JBool b \<Rightarrow> (fst st, upd b (snd st)) | JNull \<Rightarrow> st | _ \<Rightarrow> (False, snd st))"

section \<open>The console\<close>

text \<open>\<open>cw_out\<close> is what has been written to the standard output.\<close>

record consoleWriter =
  cw_Level :: int
  cw_Colorful :: bool
  cw_out :: string

definition NewConsole :: "bool \<Rightarrow> consoleWriter" where
  "NewConsole windows = \<lparr>cw_Level = int (level_num LevelDebug), cw_Colorful = \<not> windows, cw_out = []\<rparr>"

definition member_consoleWriter :: "consoleWriter member_step" where
  "member_consoleWriter m st =
     (let (k, v) = m in
      if key_is ''level'' k then set_int (\<lambda>i c. c\<lparr>cw_Level := i\<rparr>) v st
      else if key_is ''color'' k then set_bool (\<lambda>b c. c\<lparr>cw_Colorful := b\<rparr>) v st
      else st)"

definition console_Init :: "bool \<Rightarrow> string \<Rightarrow> consoleWriter \<Rightarrow> bool \<times> consoleWriter" where
  "console_Init windows jsonConfig c =
     (if length jsonConfig = 0 then (True, c)
      else case unmarshal_into member_consoleWriter (bytes_of jsonConfig) c of
             (ok, c1) \<Rightarrow> (ok, if windows then c1\<lparr>cw_Colorful := False\<rparr> else c1))"

text \<open>\<open>println\<close> of a \<open>logWriter\<close>: what one call writes; \<open>None\<close> is the panic of \<open>itoa\<close>.\<close>

definition logWriter_println :: "time \<Rightarrow> string \<Rightarrow> string option" where
  "logWriter_println when msg = map_option (\<lambda>(h, d). h @ msg @ [CHR 0x0A]) (formatTimeHeader when)"

definition console_WriteMsg :: "time \<Rightarrow> string \<Rightarrow> nat \<Rightarrow> consoleWriter \<Rightarrow> consoleWriter option" where
  "console_WriteMsg when msg level c =
     (if int level > cw_Level c then Some c
      else if cw_Colorful c \<and> level \<ge> length colors then None
      else
        let msg = (if cw_Colorful c then (colors ! level) msg else msg)
        in map_option (\<lambda>out. c\<lparr>cw_out := cw_out c @ out\<rparr>) (logWriter_println when msg))"

section \<open>The template of a message\<close>

text \<open>
  \<open>formatLog\<close>; the formatting functions of \<open>fmt\<close> are parameters. A first argument that
  is not a string is printed, and becomes the template.
\<close>

datatype 'v fmt_arg = FmtString string | FmtOther 'v

fun contains_percent2 :: "string \<Rightarrow> bool" where
  "contains_percent2 (a # b # cs) \<longleftrightarrow> a = CHR ''%'' \<and> b = CHR ''%'' \<or> contains_percent2 (b # cs)"
| "contains_percent2 _ \<longleftrightarrow> False"

definition formatLog ::
  "('v \<Rightarrow> string) \<Rightarrow> (string \<Rightarrow> 'v list \<Rightarrow> string) \<Rightarrow> 'v fmt_arg \<Rightarrow> 'v list \<Rightarrow> string" where
  "formatLog Sprint Sprintf f v =
     (case f of
        FmtString msg \<Rightarrow>
          if v = [] then msg
          else if CHR ''%'' \<in> set msg \<and> \<not> contains_percent2 msg then Sprintf msg v
          else Sprintf (msg @ concat (replicate (length v) '' %v'')) v
      | FmtOther x \<Rightarrow>
          (let msg = Sprint x in
           if v = [] then msg else Sprintf (msg @ concat (replicate (length v) '' %v'')) v))"

end
