(* ===== verification/Log.thy ===== *)
theory Log
  imports Log_Format "HOL-Library.Sublist"
begin

text \<open>
  The logger (\<open>internal/logs/log.go\<close>): a \<open>BeeLogger\<close> with its adapters, its level and
  its queue. What implements the interface \<open>Logger\<close> is a parameter, a record of the four
  methods on the state of an adapter and on the world that adapters share (the standard
  output, files, connections).
\<close>

section \<open>What a call of a goroutine does\<close>

text \<open>It returns, or waits for another goroutine, or panics.\<close>

datatype 'b outcome = Done 'b | Blocked | Panicked

fun and_then :: "'b outcome \<Rightarrow> ('b \<Rightarrow> 'c outcome) \<Rightarrow> 'c outcome" where
  "and_then (Done b) f = f b"
| "and_then Blocked f = Blocked"
| "and_then Panicked f = Panicked"

lemma and_then_assoc [simp]: "and_then (and_then x f) g = and_then x (\<lambda>b. and_then (f b) g)"
  by (cases x) simp_all

lemma and_then_Done [simp]: "and_then x f = Done c \<longleftrightarrow> (\<exists>b. x = Done b \<and> f b = Done c)"
  by (cases x) simp_all

lemma and_then_right [simp]: "and_then x Done = x"
  by (cases x) simp_all

section \<open>The state\<close>

definition levelLoggerImpl :: int where "levelLoggerImpl = -1"

definition AdapterConsole :: string where "AdapterConsole = ''console''"
definition AdapterFile :: string where "AdapterFile = ''file''"
definition AdapterMultiFile :: string where "AdapterMultiFile = ''multifile''"
definition AdapterConn :: string where "AdapterConn = ''conn''"

definition LevelInfo :: level where "LevelInfo = LevelInformational"
definition LevelTrace :: level where "LevelTrace = LevelDebug"
definition LevelWarn :: level where "LevelWarn = LevelWarning"

record ('a, 'w) Logger =
  lg_Init :: "string \<Rightarrow> 'a \<Rightarrow> 'w \<Rightarrow> string option \<times> 'a \<times> 'w"
  lg_WriteMsg :: "time \<Rightarrow> string \<Rightarrow> nat \<Rightarrow> 'a \<Rightarrow> 'w \<Rightarrow> (string option \<times> 'a \<times> 'w) option"
  lg_Destroy :: "'a \<Rightarrow> 'w \<Rightarrow> 'w"
  lg_Flush :: "'a \<Rightarrow> 'w \<Rightarrow> 'a \<times> 'w"

text \<open>The constructors of the adapters by their names.\<close>

type_synonym 'a adapter_table = "string \<rightharpoonup> 'a"

definition Register :: "string \<Rightarrow> 'a option \<Rightarrow> 'a adapter_table \<Rightarrow> 'a adapter_table outcome" where
  "Register name log adapters =
     (case log of
        None \<Rightarrow> Panicked
      | Some new \<Rightarrow> if adapters name \<noteq> None then Panicked else Done (adapters(name \<mapsto> new)))"

record 'a nameLogger =
  nl_name :: string
  nl_log :: 'a

record logMsg =
  lm_level :: nat
  lm_msg :: string
  lm_when :: time

text \<open>
  \<open>bl_msgChan\<close> and \<open>bl_signalChan\<close> are the buffers of the two channels, \<open>bl_wg\<close> is the
  counter of the wait group, \<open>bl_started\<close> says that the goroutine of \<open>startLogger\<close> is
  running, and \<open>bl_stderr\<close> holds the lines written to the standard error.
\<close>

record ('a, 'w) BeeLogger =
  bl_level :: int
  bl_init :: bool
  bl_enableFuncCallDepth :: bool
  bl_loggerFuncCallDepth :: int
  bl_asynchronous :: bool
  bl_msgChanLen :: int
  bl_msgChan :: "logMsg list"
  bl_msgClosed :: bool
  bl_signalChan :: "string list"
  bl_signalClosed :: bool
  bl_wg :: int
  bl_outputs :: "'a nameLogger list"
  bl_started :: bool
  bl_world :: 'w
  bl_stderr :: "string list"

definition defaultAsyncMsgLen :: int where "defaultAsyncMsgLen = 1000"

section \<open>Adapters\<close>

text \<open>The errors of the operations on adapters; the last one is an adapter's own.\<close>

datatype log_error = DuplicateAdapter string | UnknownAdapter string | AdapterError string

definition setLogger ::
  "('a, 'w) Logger \<Rightarrow> 'a adapter_table \<Rightarrow> string \<Rightarrow> string list \<Rightarrow> ('a, 'w) BeeLogger \<Rightarrow> log_error option \<times> ('a, 'w) BeeLogger" where
  "setLogger ops adapters adapterName configs bl =
     (let config = (configs @ [''{}'']) ! 0 in
      if adapterName \<in> nl_name ` set (bl_outputs bl)
      then (Some (DuplicateAdapter adapterName), bl)
      else case adapters adapterName of
        None \<Rightarrow> (Some (UnknownAdapter adapterName), bl)
      | Some new \<Rightarrow>
          (case lg_Init ops config new (bl_world bl) of
             (Some err, lg, w) \<Rightarrow>
               (Some (AdapterError err), bl\<lparr>bl_world := w, bl_stderr := bl_stderr bl @ [''logs.BeeLogger.SetLogger: '' @ err]\<rparr>)
           | (None, lg, w) \<Rightarrow>
               (None, bl\<lparr>bl_world := w, bl_outputs := bl_outputs bl @ [\<lparr>nl_name = adapterName, nl_log = lg\<rparr>]\<rparr>)))"

definition SetLogger ::
  "('a, 'w) Logger \<Rightarrow> 'a adapter_table \<Rightarrow> string \<Rightarrow> string list \<Rightarrow> ('a, 'w) BeeLogger \<Rightarrow> log_error option \<times> ('a, 'w) BeeLogger" where
  "SetLogger ops adapters adapterName configs bl =
     (let bl = (if bl_init bl then bl else bl\<lparr>bl_outputs := [], bl_init := True\<rparr>)
      in setLogger ops adapters adapterName configs bl)"

definition DelLogger ::
  "('a, 'w) Logger \<Rightarrow> string \<Rightarrow> ('a, 'w) BeeLogger \<Rightarrow> log_error option \<times> ('a, 'w) BeeLogger" where
  "DelLogger ops adapterName bl =
     (let gone = filter (\<lambda>l. nl_name l = adapterName) (bl_outputs bl);
          outputs = filter (\<lambda>l. nl_name l \<noteq> adapterName) (bl_outputs bl);
          bl = bl\<lparr>bl_world := foldl (\<lambda>w l. lg_Destroy ops (nl_log l) w) (bl_world bl) gone\<rparr> in
      if length outputs = length (bl_outputs bl)
      then (Some (UnknownAdapter adapterName), bl)
      else (None, bl\<lparr>bl_outputs := outputs\<rparr>))"

definition NewLogger ::
  "('a, 'w) Logger \<Rightarrow> 'a adapter_table \<Rightarrow> 'w \<Rightarrow> int list \<Rightarrow> ('a, 'w) BeeLogger" where
  "NewLogger ops adapters w channelLens =
     (let n = (channelLens @ [0]) ! 0;
          bl = \<lparr>bl_level = int (level_num LevelDebug), bl_init = False, bl_enableFuncCallDepth = False,
                bl_loggerFuncCallDepth = 2, bl_asynchronous = False,
                bl_msgChanLen = (if n \<le> 0 then defaultAsyncMsgLen else n), bl_msgChan = [], bl_msgClosed = False,
                bl_signalChan = [], bl_signalClosed = False, bl_wg = 0, bl_outputs = [], bl_started = False,
                bl_world = w, bl_stderr = []\<rparr>
      in snd (setLogger ops adapters AdapterConsole [] bl))"

definition Async :: "int list \<Rightarrow> ('a, 'w) BeeLogger \<Rightarrow> ('a, 'w) BeeLogger" where
  "Async msgLen bl =
     (if bl_asynchronous bl then bl
      else
        let n = (if length msgLen > 0 \<and> msgLen ! 0 > 0 then msgLen ! 0 else bl_msgChanLen bl)
        in bl\<lparr>bl_asynchronous := True, bl_msgChanLen := n, bl_msgChan := [], bl_msgClosed := False,
              bl_wg := bl_wg bl + 1, bl_started := True\<rparr>)"

section \<open>Writing\<close>

text \<open>The loop of \<open>writeToLoggers\<close>: an adapter's error is reported, and the next one is served.\<close>

fun write_outputs ::
  "('a, 'w) Logger \<Rightarrow> logMsg \<Rightarrow> 'a nameLogger list \<Rightarrow> 'w \<times> string list
     \<Rightarrow> ('a nameLogger list \<times> 'w \<times> string list) outcome" where
  "write_outputs ops m [] st = Done ([], st)"
| "write_outputs ops m (l # ls) (w, errs) =
     (case lg_WriteMsg ops (lm_when m) (lm_msg m) (lm_level m) (nl_log l) w of
        None \<Rightarrow> Panicked
      | Some (err, a, w) \<Rightarrow>
          (let errs = (case err of
                 None \<Rightarrow> errs
               | Some e \<Rightarrow> errs @ [''unable to WriteMsg to adapter:'' @ nl_name l @ '',error:'' @ e])
           in and_then (write_outputs ops m ls (w, errs)) (\<lambda>(ls, st). Done (l\<lparr>nl_log := a\<rparr> # ls, st))))"

definition writeToLoggers :: "('a, 'w) Logger \<Rightarrow> logMsg \<Rightarrow> ('a, 'w) BeeLogger \<Rightarrow> ('a, 'w) BeeLogger outcome" where
  "writeToLoggers ops m bl =
     and_then (write_outputs ops m (bl_outputs bl) (bl_world bl, bl_stderr bl))
       (\<lambda>(ls, w, errs). Done (bl\<lparr>bl_outputs := ls, bl_world := w, bl_stderr := errs\<rparr>))"

text \<open>\<open>path.Split\<close>: the part after the last slash.\<close>

definition file_base :: "string \<Rightarrow> string" where
  "file_base p = (case rcut (CHR ''/'') p of None \<Rightarrow> p | Some (d, f) \<Rightarrow> f)"

text \<open>Where and when a call is made: \<open>time.Now\<close> and \<open>runtime.Caller\<close> by the depth.\<close>

record call_site =
  cs_now :: time
  cs_Caller :: "int \<Rightarrow> (string \<times> nat) option"

text \<open>The message that \<open>writeMsg\<close> makes; \<open>None\<close> for an index outside \<open>levelPrefix\<close>.\<close>

definition message_of ::
  "(string \<Rightarrow> 'v list \<Rightarrow> string) \<Rightarrow> call_site \<Rightarrow> int \<Rightarrow> string \<Rightarrow> 'v list \<Rightarrow> ('a, 'w) BeeLogger \<Rightarrow> logMsg option" where
  "message_of Sprintf cs logLevel msg v bl =
     (let msg = (if length v > 0 then Sprintf msg v else msg);
          msg = (if bl_enableFuncCallDepth bl
                 then
                   let (file, line) = (case cs_Caller cs (bl_loggerFuncCallDepth bl) of
                         None \<Rightarrow> (''???'', 0) | Some fl \<Rightarrow> fl)
                   in ''['' @ file_base file @ '':'' @ dec line @ ''] '' @ msg
                 else msg) in
      if logLevel = levelLoggerImpl
      then Some \<lparr>lm_level = level_num LevelEmergency, lm_msg = msg, lm_when = cs_now cs\<rparr>
      else if 0 \<le> logLevel \<and> nat logLevel < length levelPrefix
      then Some \<lparr>lm_level = nat logLevel, lm_msg = (levelPrefix ! nat logLevel) @ msg, lm_when = cs_now cs\<rparr>
      else None)"

text \<open>Sending on the channel of messages.\<close>

definition send_msg :: "logMsg \<Rightarrow> ('a, 'w) BeeLogger \<Rightarrow> ('a, 'w) BeeLogger outcome" where
  "send_msg m bl =
     (if bl_msgClosed bl then Panicked
      else if int (length (bl_msgChan bl)) < bl_msgChanLen bl then Done (bl\<lparr>bl_msgChan := bl_msgChan bl @ [m]\<rparr>)
      else Blocked)"

definition writeMsg ::
  "(string \<Rightarrow> 'v list \<Rightarrow> string) \<Rightarrow> ('a, 'w) Logger \<Rightarrow> 'a adapter_table \<Rightarrow> call_site \<Rightarrow> int \<Rightarrow> string \<Rightarrow> 'v list
     \<Rightarrow> ('a, 'w) BeeLogger \<Rightarrow> ('a, 'w) BeeLogger outcome" where
  "writeMsg Sprintf ops adapters cs logLevel msg v bl =
     (let bl = (if bl_init bl then bl else snd (setLogger ops adapters AdapterConsole [] bl)) in
      case message_of Sprintf cs logLevel msg v bl of
        None \<Rightarrow> Panicked
      | Some m \<Rightarrow> if bl_asynchronous bl then send_msg m bl else writeToLoggers ops m bl)"

text \<open>\<open>Write\<close>, with the number of bytes that it reports; its error is always \<open>nil\<close>.\<close>

definition bl_Write ::
  "(string \<Rightarrow> 'v list \<Rightarrow> string) \<Rightarrow> ('a, 'w) Logger \<Rightarrow> 'a adapter_table \<Rightarrow> call_site \<Rightarrow> byte list
     \<Rightarrow> ('a, 'w) BeeLogger \<Rightarrow> (nat \<times> ('a, 'w) BeeLogger) outcome" where
  "bl_Write Sprintf ops adapters cs p bl =
     (if length p = 0 then Done (0, bl)
      else
        let p = (if last p = 0x0A then butlast p else p)
        in and_then (writeMsg Sprintf ops adapters cs levelLoggerImpl (string_of p) [] bl)
             (\<lambda>bl. Done (length p, bl)))"

section \<open>Settings\<close>

definition bl_SetLevel :: "int \<Rightarrow> ('a, 'w) BeeLogger \<Rightarrow> ('a, 'w) BeeLogger" where
  "bl_SetLevel l bl = bl\<lparr>bl_level := l\<rparr>"

definition bl_SetLogFuncCallDepth :: "int \<Rightarrow> ('a, 'w) BeeLogger \<Rightarrow> ('a, 'w) BeeLogger" where
  "bl_SetLogFuncCallDepth d bl = bl\<lparr>bl_loggerFuncCallDepth := d\<rparr>"

definition bl_GetLogFuncCallDepth :: "('a, 'w) BeeLogger \<Rightarrow> int" where
  "bl_GetLogFuncCallDepth bl = bl_loggerFuncCallDepth bl"

definition bl_EnableFuncCallDepth :: "bool \<Rightarrow> ('a, 'w) BeeLogger \<Rightarrow> ('a, 'w) BeeLogger" where
  "bl_EnableFuncCallDepth b bl = bl\<lparr>bl_enableFuncCallDepth := b\<rparr>"

section \<open>Flushing and closing\<close>

text \<open>The loop of \<open>flush\<close>: it ends when the channel is empty.\<close>

fun drain :: "('a, 'w) Logger \<Rightarrow> logMsg list \<Rightarrow> ('a, 'w) BeeLogger \<Rightarrow> ('a, 'w) BeeLogger outcome" where
  "drain ops [] bl = Done (bl\<lparr>bl_msgChan := []\<rparr>)"
| "drain ops (m # ms) bl = and_then (writeToLoggers ops m (bl\<lparr>bl_msgChan := ms\<rparr>)) (drain ops ms)"

fun flush_outputs :: "('a, 'w) Logger \<Rightarrow> 'a nameLogger list \<Rightarrow> 'w \<Rightarrow> 'a nameLogger list \<times> 'w" where
  "flush_outputs ops [] w = ([], w)"
| "flush_outputs ops (l # ls) w =
     (let (a, w) = lg_Flush ops (nl_log l) w; (ls, w) = flush_outputs ops ls w
      in (l\<lparr>nl_log := a\<rparr> # ls, w))"

definition bl_flush :: "('a, 'w) Logger \<Rightarrow> ('a, 'w) BeeLogger \<Rightarrow> ('a, 'w) BeeLogger outcome" where
  "bl_flush ops bl =
     and_then (if bl_asynchronous bl then drain ops (bl_msgChan bl) bl else Done bl)
       (\<lambda>bl. case flush_outputs ops (bl_outputs bl) (bl_world bl) of
          (ls, w) \<Rightarrow> Done (bl\<lparr>bl_outputs := ls, bl_world := w\<rparr>))"

definition destroy_outputs :: "('a, 'w) Logger \<Rightarrow> ('a, 'w) BeeLogger \<Rightarrow> ('a, 'w) BeeLogger" where
  "destroy_outputs ops bl =
     bl\<lparr>bl_world := foldl (\<lambda>w l. lg_Destroy ops (nl_log l) w) (bl_world bl) (bl_outputs bl), bl_outputs := []\<rparr>"

text \<open>\<open>wg.Done\<close>: the counter must not become negative.\<close>

definition wg_Done :: "('a, 'w) BeeLogger \<Rightarrow> ('a, 'w) BeeLogger outcome" where
  "wg_Done bl = (if bl_wg bl \<le> 0 then Panicked else Done (bl\<lparr>bl_wg := bl_wg bl - 1\<rparr>))"

text \<open>
  One turn of the goroutine of \<open>startLogger\<close>; the first argument says which case of the
  \<open>select\<close> is taken. A closed and empty channel yields a nil message, or no signal.
\<close>

definition startLogger_turn :: "('a, 'w) Logger \<Rightarrow> bool \<Rightarrow> ('a, 'w) BeeLogger \<Rightarrow> ('a, 'w) BeeLogger outcome" where
  "startLogger_turn ops msg_case bl =
     (if \<not> bl_started bl then Blocked
      else if msg_case
      then (case bl_msgChan bl of
              bm # ms \<Rightarrow> writeToLoggers ops bm (bl\<lparr>bl_msgChan := ms\<rparr>)
            | [] \<Rightarrow> if bl_msgClosed bl then Panicked else Blocked)
      else if bl_signalChan bl = [] \<and> \<not> bl_signalClosed bl then Blocked
      else
        let sg = (case bl_signalChan bl of [] \<Rightarrow> [] | s # ss \<Rightarrow> s);
            bl = bl\<lparr>bl_signalChan := tl (bl_signalChan bl)\<rparr> in
        and_then (bl_flush ops bl) (\<lambda>bl.
        wg_Done (if sg = ''close'' then (destroy_outputs ops bl)\<lparr>bl_started := False\<rparr> else bl)))"

text \<open>Sending on the channel of signals, whose buffer holds one.\<close>

definition send_signal :: "string \<Rightarrow> ('a, 'w) BeeLogger \<Rightarrow> ('a, 'w) BeeLogger outcome" where
  "send_signal sg bl =
     (if bl_signalClosed bl then Panicked
      else if length (bl_signalChan bl) < 1 then Done (bl\<lparr>bl_signalChan := bl_signalChan bl @ [sg]\<rparr>)
      else Blocked)"

definition wg_Wait :: "('a, 'w) BeeLogger \<Rightarrow> ('a, 'w) BeeLogger outcome" where
  "wg_Wait bl = (if bl_wg bl = 0 then Done bl else Blocked)"

text \<open>
  \<open>Flush\<close> and \<open>Close\<close> up to the point where they wait for the other goroutine, and from
  there. A synchronous logger does it all in the first part.
\<close>

definition Flush_begin :: "('a, 'w) Logger \<Rightarrow> ('a, 'w) BeeLogger \<Rightarrow> ('a, 'w) BeeLogger outcome" where
  "Flush_begin ops bl = (if bl_asynchronous bl then send_signal ''flush'' bl else bl_flush ops bl)"

definition Flush_end :: "('a, 'w) BeeLogger \<Rightarrow> ('a, 'w) BeeLogger outcome" where
  "Flush_end bl =
     (if bl_asynchronous bl then and_then (wg_Wait bl) (\<lambda>bl. Done (bl\<lparr>bl_wg := bl_wg bl + 1\<rparr>)) else Done bl)"

definition Close_begin :: "('a, 'w) Logger \<Rightarrow> ('a, 'w) BeeLogger \<Rightarrow> ('a, 'w) BeeLogger outcome" where
  "Close_begin ops bl =
     (if bl_asynchronous bl then send_signal ''close'' bl
      else and_then (bl_flush ops bl) (\<lambda>bl. Done (destroy_outputs ops bl)))"

definition Close_end :: "('a, 'w) BeeLogger \<Rightarrow> ('a, 'w) BeeLogger outcome" where
  "Close_end bl =
     and_then (if bl_asynchronous bl
               then and_then (wg_Wait bl) (\<lambda>bl. if bl_msgClosed bl then Panicked else Done (bl\<lparr>bl_msgClosed := True\<rparr>))
               else Done bl)
       (\<lambda>bl. if bl_signalClosed bl then Panicked else Done (bl\<lparr>bl_signalClosed := True\<rparr>))"

text \<open>\<open>Reset\<close> after its \<open>Flush\<close>.\<close>

definition Reset_end :: "('a, 'w) Logger \<Rightarrow> ('a, 'w) BeeLogger \<Rightarrow> ('a, 'w) BeeLogger outcome" where
  "Reset_end ops bl = and_then (Flush_end bl) (\<lambda>bl. Done (destroy_outputs ops bl))"

section \<open>The methods of the levels\<close>

type_synonym ('v, 'a, 'w) log_method =
  "(string \<Rightarrow> 'v list \<Rightarrow> string) \<Rightarrow> ('a, 'w) Logger \<Rightarrow> 'a adapter_table \<Rightarrow> call_site \<Rightarrow> string \<Rightarrow> 'v list
     \<Rightarrow> ('a, 'w) BeeLogger \<Rightarrow> ('a, 'w) BeeLogger outcome"

definition bl_Emergency :: "('v, 'a, 'w) log_method" where
  "bl_Emergency Sprintf ops adapters cs format v bl =
     (if int (level_num LevelEmergency) > bl_level bl then Done bl
      else writeMsg Sprintf ops adapters cs (int (level_num LevelEmergency)) format v bl)"

definition bl_Alert :: "('v, 'a, 'w) log_method" where
  "bl_Alert Sprintf ops adapters cs format v bl =
     (if int (level_num LevelAlert) > bl_level bl then Done bl
      else writeMsg Sprintf ops adapters cs (int (level_num LevelAlert)) format v bl)"

definition bl_Critical :: "('v, 'a, 'w) log_method" where
  "bl_Critical Sprintf ops adapters cs format v bl =
     (if int (level_num LevelCritical) > bl_level bl then Done bl
      else writeMsg Sprintf ops adapters cs (int (level_num LevelCritical)) format v bl)"

definition bl_Error :: "('v, 'a, 'w) log_method" where
  "bl_Error Sprintf ops adapters cs format v bl =
     (if int (level_num LevelError) > bl_level bl then Done bl
      else writeMsg Sprintf ops adapters cs (int (level_num LevelError)) format v bl)"

definition bl_Warning :: "('v, 'a, 'w) log_method" where
  "bl_Warning Sprintf ops adapters cs format v bl =
     (if int (level_num LevelWarn) > bl_level bl then Done bl
      else writeMsg Sprintf ops adapters cs (int (level_num LevelWarn)) format v bl)"

definition bl_Notice :: "('v, 'a, 'w) log_method" where
  "bl_Notice Sprintf ops adapters cs format v bl =
     (if int (level_num LevelNotice) > bl_level bl then Done bl
      else writeMsg Sprintf ops adapters cs (int (level_num LevelNotice)) format v bl)"

definition bl_Informational :: "('v, 'a, 'w) log_method" where
  "bl_Informational Sprintf ops adapters cs format v bl =
     (if int (level_num LevelInfo) > bl_level bl then Done bl
      else writeMsg Sprintf ops adapters cs (int (level_num LevelInfo)) format v bl)"

definition bl_Debug :: "('v, 'a, 'w) log_method" where
  "bl_Debug Sprintf ops adapters cs format v bl =
     (if int (level_num LevelDebug) > bl_level bl then Done bl
      else writeMsg Sprintf ops adapters cs (int (level_num LevelDebug)) format v bl)"

definition bl_Warn :: "('v, 'a, 'w) log_method" where
  "bl_Warn Sprintf ops adapters cs format v bl =
     (if int (level_num LevelWarn) > bl_level bl then Done bl
      else writeMsg Sprintf ops adapters cs (int (level_num LevelWarn)) format v bl)"

definition bl_Info :: "('v, 'a, 'w) log_method" where
  "bl_Info Sprintf ops adapters cs format v bl =
     (if int (level_num LevelInfo) > bl_level bl then Done bl
      else writeMsg Sprintf ops adapters cs (int (level_num LevelInfo)) format v bl)"

definition bl_Trace :: "('v, 'a, 'w) log_method" where
  "bl_Trace Sprintf ops adapters cs format v bl =
     (if int (level_num LevelDebug) > bl_level bl then Done bl
      else writeMsg Sprintf ops adapters cs (int (level_num LevelDebug)) format v bl)"

text \<open>The methods have one specification, by the level.\<close>

definition log_at :: "level \<Rightarrow> ('v, 'a, 'w) log_method" where
  "log_at l Sprintf ops adapters cs format v bl =
     (if int (level_num l) > bl_level bl then Done bl
      else writeMsg Sprintf ops adapters cs (int (level_num l)) format v bl)"

lemma level_methods:
  "bl_Emergency = log_at LevelEmergency"
  "bl_Alert = log_at LevelAlert"
  "bl_Critical = log_at LevelCritical"
  "bl_Error = log_at LevelError"
  "bl_Warning = log_at LevelWarning"
  "bl_Notice = log_at LevelNotice"
  "bl_Informational = log_at LevelInformational"
  "bl_Debug = log_at LevelDebug"
  "bl_Warn = log_at LevelWarning"
  "bl_Info = log_at LevelInformational"
  "bl_Trace = log_at LevelDebug"
  by (simp_all add: fun_eq_iff log_at_def LevelWarn_def LevelInfo_def bl_Emergency_def bl_Alert_def bl_Critical_def bl_Error_def bl_Warning_def bl_Notice_def bl_Informational_def bl_Debug_def bl_Warn_def bl_Info_def bl_Trace_def)

section \<open>The functions of the package\<close>

text \<open>They work on one logger; \<open>Sprint\<close> is the formatting of a value that is not a string.\<close>

type_synonym ('v, 'a, 'w) log_function =
  "('v \<Rightarrow> string) \<Rightarrow> (string \<Rightarrow> 'v list \<Rightarrow> string) \<Rightarrow> ('a, 'w) Logger \<Rightarrow> 'a adapter_table \<Rightarrow> call_site
     \<Rightarrow> 'v fmt_arg \<Rightarrow> 'v list \<Rightarrow> ('a, 'w) BeeLogger \<Rightarrow> ('a, 'w) BeeLogger outcome"

definition Emergency :: "('v, 'a, 'w) log_function" where
  "Emergency Sprint Sprintf ops adapters cs f v = bl_Emergency Sprintf ops adapters cs (formatLog Sprint Sprintf f v) []"

definition Alert :: "('v, 'a, 'w) log_function" where
  "Alert Sprint Sprintf ops adapters cs f v = bl_Alert Sprintf ops adapters cs (formatLog Sprint Sprintf f v) []"

definition Critical :: "('v, 'a, 'w) log_function" where
  "Critical Sprint Sprintf ops adapters cs f v = bl_Critical Sprintf ops adapters cs (formatLog Sprint Sprintf f v) []"

definition Error :: "('v, 'a, 'w) log_function" where
  "Error Sprint Sprintf ops adapters cs f v = bl_Error Sprintf ops adapters cs (formatLog Sprint Sprintf f v) []"

definition Warning :: "('v, 'a, 'w) log_function" where
  "Warning Sprint Sprintf ops adapters cs f v = bl_Warn Sprintf ops adapters cs (formatLog Sprint Sprintf f v) []"

definition Warn :: "('v, 'a, 'w) log_function" where
  "Warn Sprint Sprintf ops adapters cs f v = bl_Warn Sprintf ops adapters cs (formatLog Sprint Sprintf f v) []"

definition Notice :: "('v, 'a, 'w) log_function" where
  "Notice Sprint Sprintf ops adapters cs f v = bl_Notice Sprintf ops adapters cs (formatLog Sprint Sprintf f v) []"

definition Informational :: "('v, 'a, 'w) log_function" where
  "Informational Sprint Sprintf ops adapters cs f v = bl_Info Sprintf ops adapters cs (formatLog Sprint Sprintf f v) []"

definition Info :: "('v, 'a, 'w) log_function" where
  "Info Sprint Sprintf ops adapters cs f v = bl_Info Sprintf ops adapters cs (formatLog Sprint Sprintf f v) []"

definition Debug :: "('v, 'a, 'w) log_function" where
  "Debug Sprint Sprintf ops adapters cs f v = bl_Debug Sprintf ops adapters cs (formatLog Sprint Sprintf f v) []"

definition Trace :: "('v, 'a, 'w) log_function" where
  "Trace Sprint Sprintf ops adapters cs f v = bl_Trace Sprintf ops adapters cs (formatLog Sprint Sprintf f v) []"

definition SetLevel :: "int \<Rightarrow> ('a, 'w) BeeLogger \<Rightarrow> ('a, 'w) BeeLogger" where
  "SetLevel l beeLogger = bl_SetLevel l beeLogger"

definition levelMap :: "string \<rightharpoonup> level" where
  "levelMap = map_of [(''debug'', LevelDebug), (''info'', LevelInfo), (''warn'', LevelWarn),
     (''error'', LevelError), (''critical'', LevelCritical)]"

definition Level :: "string \<Rightarrow> ('a, 'w) BeeLogger \<Rightarrow> ('a, 'w) BeeLogger" where
  "Level l beeLogger =
     (let lvl = (case levelMap l of None \<Rightarrow> LevelInfo | Some lvl \<Rightarrow> lvl)
      in bl_SetLevel (int (level_num lvl)) beeLogger)"

definition EnableFuncCallDepth :: "bool \<Rightarrow> ('a, 'w) BeeLogger \<Rightarrow> ('a, 'w) BeeLogger" where
  "EnableFuncCallDepth b beeLogger = beeLogger\<lparr>bl_enableFuncCallDepth := b\<rparr>"

definition SetLogFuncCall :: "bool \<Rightarrow> ('a, 'w) BeeLogger \<Rightarrow> ('a, 'w) BeeLogger" where
  "SetLogFuncCall b beeLogger = bl_SetLogFuncCallDepth 4 (bl_EnableFuncCallDepth b beeLogger)"

definition SetLogFuncCallDepth :: "int \<Rightarrow> ('a, 'w) BeeLogger \<Rightarrow> ('a, 'w) BeeLogger" where
  "SetLogFuncCallDepth d beeLogger = beeLogger\<lparr>bl_loggerFuncCallDepth := d\<rparr>"

text \<open>
  The text of \<open>Init\<close> is not quoted. The error of \<open>SetLogger\<close> is dropped.
\<close>

definition Init_param :: "string \<Rightarrow> int \<Rightarrow> string" where
  "Init_param path maxDay =
     ''{'' @ [CHR 0x22] @ ''filename'' @ [CHR 0x22] @ '': '' @ [CHR 0x22] @ path @ [CHR 0x22]
     @ '', '' @ [CHR 0x22] @ ''maxdays'' @ [CHR 0x22] @ '': '' @ dec_int maxDay @ ''}''"

definition Init ::
  "('a, 'w) Logger \<Rightarrow> 'a adapter_table \<Rightarrow> string \<Rightarrow> string \<Rightarrow> int \<Rightarrow> ('a, 'w) BeeLogger \<Rightarrow> ('a, 'w) BeeLogger" where
  "Init ops adapters path level maxDay beeLogger =
     (let bl = snd (SetLogger ops adapters AdapterFile [Init_param path maxDay] beeLogger);
          bl = bl_SetLogFuncCallDepth 3 bl;
          bl = bl_EnableFuncCallDepth True bl
      in Level level bl)"

text \<open>
  \<open>GetLogger\<close>: the loggers of package \<open>log\<close> by their prefixes; \<open>new\<close> is \<open>log.New\<close> on
  the one \<open>BeeLogger\<close>, and \<open>ToUpper\<close> the library's function on texts.
\<close>

definition GetLogger :: "(string \<Rightarrow> string) \<Rightarrow> string list \<Rightarrow> (string \<rightharpoonup> 'l) \<Rightarrow> (string \<Rightarrow> 'l) \<Rightarrow> 'l \<times> (string \<rightharpoonup> 'l)" where
  "GetLogger ToUpper pres logs new =
     (let prfx = (pres @ [[]]) ! 0;
          prfx = (if prfx \<noteq> [] then ''['' @ ToUpper prfx @ ''] '' else prfx) in
      case logs prfx of
        Some l \<Rightarrow> (l, logs)
      | None \<Rightarrow> (new prfx, logs(prfx \<mapsto> new prfx)))"

section \<open>The queue delays messages and loses none\<close>

text \<open>The synchronous logger is the specification: the same state without the queue.\<close>

definition sync :: "('a, 'w) BeeLogger \<Rightarrow> ('a, 'w) BeeLogger" where
  "sync bl = bl\<lparr>bl_asynchronous := False, bl_msgChan := []\<rparr>"

fun map_outcome :: "('b \<Rightarrow> 'c) \<Rightarrow> 'b outcome \<Rightarrow> 'c outcome" where
  "map_outcome f (Done b) = Done (f b)"
| "map_outcome f Blocked = Blocked"
| "map_outcome f Panicked = Panicked"

lemma map_and_then: "map_outcome f (and_then x g) = and_then x (\<lambda>b. map_outcome f (g b))"
  by (cases x) simp_all

lemma and_then_map: "and_then (map_outcome f x) g = and_then x (\<lambda>b. g (f b))"
  by (cases x) simp_all

lemma sync_queue [simp]: "sync (bl\<lparr>bl_msgChan := q\<rparr>) = sync bl"
  by (simp add: sync_def)

lemma sync_fields [simp]:
  "\<not> bl_asynchronous (sync bl)" "bl_msgChan (sync bl) = []" "bl_init (sync bl) = bl_init bl"
  "bl_level (sync bl) = bl_level bl" "bl_outputs (sync bl) = bl_outputs bl" "bl_world (sync bl) = bl_world bl"
  "bl_stderr (sync bl) = bl_stderr bl" "message_of Sprintf cs l f v (sync bl) = message_of Sprintf cs l f v bl"
  by (simp_all add: sync_def message_of_def)

text \<open>\<open>writeToLoggers\<close> neither reads nor changes the queue and the mode.\<close>

lemma write_sync: "writeToLoggers ops m (sync bl) = map_outcome sync (writeToLoggers ops m bl)"
  by (cases "write_outputs ops m (bl_outputs bl) (bl_world bl, bl_stderr bl)")
     (auto simp: writeToLoggers_def sync_def)

lemma write_queue:
  "writeToLoggers ops m (bl\<lparr>bl_msgChan := q\<rparr>) = map_outcome (\<lambda>b. b\<lparr>bl_msgChan := q\<rparr>) (writeToLoggers ops m bl)"
  by (cases "write_outputs ops m (bl_outputs bl) (bl_world bl, bl_stderr bl)")
     (auto simp: writeToLoggers_def)

lemma write_names: "write_outputs ops m ls st = Done (ls', st') \<Longrightarrow> map nl_name ls' = map nl_name ls"
proof (induction ls arbitrary: st ls' st')
  case (Cons l ls)
  obtain w errs where st: "st = (w, errs)" by (cases st)
  from Cons.prems show ?case
    unfolding st by (auto split: option.splits prod.splits simp: Let_def dest!: Cons.IH)
qed simp

lemma write_frame:
  assumes "writeToLoggers ops m bl = Done b"
  shows "bl_msgChan b = bl_msgChan bl" "bl_asynchronous b = bl_asynchronous bl" "bl_init b = bl_init bl"
    "bl_level b = bl_level bl" "map nl_name (bl_outputs b) = map nl_name (bl_outputs bl)"
    "message_of Sprintf cs l f v b = message_of Sprintf cs l f v bl" "bl_wg b = bl_wg bl"
    "bl_signalChan b = bl_signalChan bl" "bl_signalClosed b = bl_signalClosed bl"
  using assms by (auto simp: writeToLoggers_def message_of_def dest: write_names)

text \<open>The messages of a queue, one after the other.\<close>

fun deliver :: "('a, 'w) Logger \<Rightarrow> logMsg list \<Rightarrow> ('a, 'w) BeeLogger \<Rightarrow> ('a, 'w) BeeLogger outcome" where
  "deliver ops [] bl = Done bl"
| "deliver ops (m # ms) bl = and_then (writeToLoggers ops m bl) (deliver ops ms)"

lemma deliver_append: "deliver ops (p @ q) = (\<lambda>bl. and_then (deliver ops p bl) (deliver ops q))"
proof (induction p)
  case (Cons m p)
  show ?case by (rule ext) (simp add: Cons.IH)
qed simp

lemma drain_deliver: "map_outcome sync (drain ops q bl) = deliver ops q (sync bl)"
proof (induction q arbitrary: bl)
  case (Cons m q)
  have "map_outcome sync (drain ops (m # q) bl)
      = and_then (writeToLoggers ops m (bl\<lparr>bl_msgChan := q\<rparr>)) (\<lambda>b. deliver ops q (sync b))"
    by (simp add: map_and_then Cons.IH)
  also have "\<dots> = and_then (writeToLoggers ops m (sync bl)) (deliver ops q)"
    by (simp add: write_queue and_then_map write_sync)
  finally show ?case by simp
qed simp

definition settled :: "('a, 'w) Logger \<Rightarrow> ('a, 'w) BeeLogger \<Rightarrow> ('a, 'w) BeeLogger outcome" where
  "settled ops bl = deliver ops (bl_msgChan bl) (sync bl)"

lemma flush_sync:
  fixes bl :: "('a, 'w) BeeLogger"
  shows "bl_asynchronous bl \<Longrightarrow> map_outcome sync (bl_flush ops bl) = and_then (settled ops bl) (bl_flush ops)"
proof -
  assume a: "bl_asynchronous bl"
  have f: "map_outcome sync (case flush_outputs ops (bl_outputs b) (bl_world b) of (ls, w) \<Rightarrow> Done (b\<lparr>bl_outputs := ls, bl_world := w\<rparr>))
     = bl_flush ops (sync b)" for b :: "('a, 'w) BeeLogger"
    by (simp add: bl_flush_def split: prod.splits) (simp add: sync_def)
  show ?thesis
    by (simp add: settled_def drain_deliver [symmetric] and_then_map f [symmetric])
       (simp add: bl_flush_def a map_and_then)
qed

section \<open>Runs\<close>

text \<open>A call of one of the methods, and the calls of a program one after the other.\<close>

record 'v log_call =
  lc_level :: level
  lc_format :: string
  lc_args :: "'v list"
  lc_site :: call_site

definition make_call ::
  "(string \<Rightarrow> 'v list \<Rightarrow> string) \<Rightarrow> ('a, 'w) Logger \<Rightarrow> 'a adapter_table \<Rightarrow> 'v log_call
     \<Rightarrow> ('a, 'w) BeeLogger \<Rightarrow> ('a, 'w) BeeLogger outcome" where
  "make_call Sprintf ops adapters c bl =
     log_at (lc_level c) Sprintf ops adapters (lc_site c) (lc_format c) (lc_args c) bl"

fun make_calls ::
  "(string \<Rightarrow> 'v list \<Rightarrow> string) \<Rightarrow> ('a, 'w) Logger \<Rightarrow> 'a adapter_table \<Rightarrow> 'v log_call list
     \<Rightarrow> ('a, 'w) BeeLogger \<Rightarrow> ('a, 'w) BeeLogger outcome" where
  "make_calls Sprintf ops adapters [] bl = Done bl"
| "make_calls Sprintf ops adapters (c # cs) bl =
     and_then (make_call Sprintf ops adapters c bl) (make_calls Sprintf ops adapters cs)"

text \<open>The calls interleaved with the turns of the goroutine that takes messages from the queue.\<close>

inductive bee_run for Sprintf ops adapters where
  start: "bee_run Sprintf ops adapters bl [] bl"
| call: "bee_run Sprintf ops adapters bl cs b \<Longrightarrow> make_call Sprintf ops adapters c b = Done b'
     \<Longrightarrow> bee_run Sprintf ops adapters bl (cs @ [c]) b'"
| consume: "bee_run Sprintf ops adapters bl cs b \<Longrightarrow> startLogger_turn ops True b = Done b'
     \<Longrightarrow> bee_run Sprintf ops adapters bl cs b'"

text \<open>No adapter is added by a call: it has been set, or the console is there.\<close>

definition ready :: "('a, 'w) BeeLogger \<Rightarrow> bool" where
  "ready bl \<longleftrightarrow> bl_init bl \<or> AdapterConsole \<in> set (map nl_name (bl_outputs bl))"

lemma ready_console: "ready bl \<Longrightarrow> (if bl_init bl then bl else snd (setLogger ops adapters AdapterConsole [] bl)) = bl"
  by (auto simp: ready_def setLogger_def)

lemma ready_frame: "writeToLoggers ops m bl = Done b \<Longrightarrow> ready b \<longleftrightarrow> ready bl"
  by (simp only: ready_def write_frame)

lemma ready_writeMsg:
  "ready bl \<Longrightarrow> writeMsg Sprintf ops adapters cs l f v bl =
     (case message_of Sprintf cs l f v bl of
        None \<Rightarrow> Panicked
      | Some m \<Rightarrow> if bl_asynchronous bl then send_msg m bl else writeToLoggers ops m bl)"
  by (simp add: writeMsg_def ready_console Let_def)

lemma message_of_level: "\<exists>m. message_of Sprintf cs (int (level_num l)) f v bl = Some m"
  by (simp add: message_of_def levelLoggerImpl_def levelPrefix_distinct Let_def)

lemma ready_sync [simp]: "ready (sync bl) \<longleftrightarrow> ready bl"
  by (simp add: ready_def)

lemma make_calls_append:
  "make_calls Sprintf ops adapters (cs @ ds) = (\<lambda>bl. and_then (make_calls Sprintf ops adapters cs bl) (make_calls Sprintf ops adapters ds))"
proof (induction cs)
  case (Cons c cs)
  show ?case by (rule ext) (simp add: Cons.IH)
qed simp

lemma deliver_frame:
  "deliver ops q bl = Done b \<Longrightarrow> bl_level b = bl_level bl \<and> bl_asynchronous b = bl_asynchronous bl \<and> (ready b \<longleftrightarrow> ready bl)"
proof (induction q arbitrary: bl)
  case (Cons m q)
  then obtain b' where w: "writeToLoggers ops m bl = Done b'" and "deliver ops q b' = Done b" by auto
  with Cons.IH [of b'] show ?case using write_frame(2,4) [OF w] ready_frame [OF w] by simp
qed simp

lemma deliver_message:
  "deliver ops q bl = Done b \<Longrightarrow> message_of Sprintf cs l f v b = message_of Sprintf cs l f v bl"
  by (induction q arbitrary: bl) (auto simp: write_frame)

lemma deliver_none: "deliver ops [] = Done"
  by (rule ext) simp

lemma deliver_one: "deliver ops [m] = writeToLoggers ops m"
  by (rule ext) (simp add: deliver_none)

lemma make_calls_one: "make_calls Sprintf ops adapters [c] = make_call Sprintf ops adapters c"
proof -
  have "make_calls Sprintf ops adapters [] = Done" by (rule ext) simp
  then show ?thesis by (intro ext) simp
qed

lemma settled_frame:
  assumes "settled ops bl = Done s"
  shows "bl_level s = bl_level bl" "\<not> bl_asynchronous s" "ready s \<longleftrightarrow> ready bl"
    "message_of Sprintf cs l f v s = message_of Sprintf cs l f v bl"
  using deliver_frame [OF assms [unfolded settled_def]] deliver_message [OF assms [unfolded settled_def]] by simp_all

lemma and_then_eq: "(\<And>s. x = Done s \<Longrightarrow> f s = g s) \<Longrightarrow> and_then x f = and_then x g"
  by (cases x) simp_all

lemma settled_call:
  assumes "make_call Sprintf ops adapters c b = Done b'" "ready b" "bl_asynchronous b"
  shows "settled ops b' = and_then (settled ops b) (make_call Sprintf ops adapters c) \<and> ready b' \<and> bl_asynchronous b'"
proof (cases "int (level_num (lc_level c)) > bl_level b")
  case True
  with assms(1) have "b' = b" by (simp add: make_call_def log_at_def)
  moreover have "and_then (settled ops b) (make_call Sprintf ops adapters c) = and_then (settled ops b) Done"
    using True by (intro and_then_eq) (simp add: make_call_def log_at_def settled_frame)
  ultimately show ?thesis using assms by simp
next
  case False
  obtain m where m: "message_of Sprintf (lc_site c) (int (level_num (lc_level c))) (lc_format c) (lc_args c) b = Some m"
    using message_of_level by blast
  with assms False have b': "b' = b\<lparr>bl_msgChan := bl_msgChan b @ [m]\<rparr>"
    by (auto simp: make_call_def log_at_def ready_writeMsg send_msg_def split: if_splits)
  have "and_then (settled ops b) (make_call Sprintf ops adapters c) = and_then (settled ops b) (writeToLoggers ops m)"
    using False m assms(2) by (intro and_then_eq) (simp add: make_call_def log_at_def ready_writeMsg settled_frame)
  with assms show ?thesis by (simp add: b' settled_def deliver_append deliver_one ready_def del: deliver.simps)
qed

lemma settled_consume:
  assumes "startLogger_turn ops True b = Done b'"
  shows "settled ops b' = settled ops b \<and> (ready b' \<longleftrightarrow> ready b) \<and> bl_asynchronous b' = bl_asynchronous b"
proof -
  obtain m ms where q: "bl_msgChan b = m # ms" and w: "writeToLoggers ops m (b\<lparr>bl_msgChan := ms\<rparr>) = Done b'"
    using assms by (auto simp: startLogger_turn_def split: if_splits list.splits)
  have "writeToLoggers ops m (sync b) = Done (sync b')"
    using w write_sync [of ops m "b\<lparr>bl_msgChan := ms\<rparr>"] by simp
  moreover have "ready b' \<longleftrightarrow> ready b" using ready_frame [OF w] by (simp add: ready_def)
  ultimately show ?thesis using write_frame [OF w] by (simp add: settled_def q)
qed

lemma run_settled:
  assumes "bee_run Sprintf ops adapters bl cs b" "ready bl" "bl_asynchronous bl" "bl_msgChan bl = []"
  shows "settled ops b = make_calls Sprintf ops adapters cs (sync bl) \<and> ready b \<and> bl_asynchronous b"
  using assms
proof (induction rule: bee_run.induct)
  case (start bl)
  then show ?case by (simp add: settled_def)
next
  case (call bl cs b c b')
  then show ?case using settled_call [of Sprintf ops adapters c b b'] by (simp add: make_calls_append make_calls_one del: make_calls.simps)
next
  case (consume bl cs b b')
  then show ?case using settled_consume [of ops b b'] by simp
qed

text \<open>
  C29. Whatever a program logs through the queue, and however the goroutine that empties it
  is scheduled between the calls, the flush ends with the adapters, the world and the
  error output that the synchronous logger has after the same calls and its flush: no
  message is lost, doubled or out of order. Panics of adapters are kept too.
\<close>

theorem async_delivery:
  assumes "bee_run Sprintf ops adapters bl cs b" and "ready bl" and "bl_asynchronous bl" and "bl_msgChan bl = []"
  shows "map_outcome sync (bl_flush ops b) = and_then (make_calls Sprintf ops adapters cs (sync bl)) (bl_flush ops)"
  using run_settled [OF assms] flush_sync [of b ops] by simp

section \<open>Flushing\<close>

lemma drain_frame:
  "drain ops q bl = Done b \<Longrightarrow> bl_msgChan b = [] \<and> bl_wg b = bl_wg bl \<and> bl_signalChan b = bl_signalChan bl
     \<and> bl_signalClosed b = bl_signalClosed bl \<and> bl_asynchronous b = bl_asynchronous bl \<and> bl_started b = bl_started bl"
proof (induction q arbitrary: bl)
  case (Cons m q)
  then obtain b' where w: "writeToLoggers ops m (bl\<lparr>bl_msgChan := q\<rparr>) = Done b'" and d: "drain ops q b' = Done b" by auto
  have "bl_started b' = bl_started bl" using w by (auto simp: writeToLoggers_def)
  with Cons.IH [OF d] show ?case using write_frame(2,7,8,9) [OF w] by simp
qed auto

lemma flush_frame:
  "bl_flush ops bl = Done b \<Longrightarrow> bl_asynchronous bl \<Longrightarrow> bl_msgChan b = [] \<and> bl_wg b = bl_wg bl \<and> bl_signalChan b = bl_signalChan bl
     \<and> bl_signalClosed b = bl_signalClosed bl \<and> bl_asynchronous b \<and> bl_started b = bl_started bl"
  by (auto simp: bl_flush_def split_beta dest!: drain_frame)

lemma flush_empty: "bl_msgChan bl = [] \<Longrightarrow> \<exists>b. bl_flush ops bl = Done b"
  by (auto simp: bl_flush_def split: prod.splits)

text \<open>An asynchronous logger in which nobody is flushing.\<close>

definition idle :: "('a, 'w) BeeLogger \<Rightarrow> bool" where
  "idle bl \<longleftrightarrow> bl_asynchronous bl \<and> bl_started bl \<and> bl_wg bl = 1 \<and> bl_signalChan bl = [] \<and> \<not> bl_signalClosed bl"

lemma idle_Async: "\<not> bl_asynchronous bl \<Longrightarrow> bl_wg bl = 0 \<Longrightarrow> bl_signalChan bl = [] \<Longrightarrow> \<not> bl_signalClosed bl \<Longrightarrow> idle (Async n bl)"
  by (simp add: idle_def Async_def Let_def)

text \<open>
  C30. A \<open>Flush\<close> of an asynchronous logger waits, and when the goroutine has taken its
  signal, the queue is empty, the call returns, and the logger is idle again. But if a
  second goroutine has sent its own signal before the first one has added to the wait
  group again, the next turn of the goroutine panics on the negative counter.
\<close>

theorem flush_protocol:
  assumes "idle bl" and "Flush_begin ops bl = Done b1" and "startLogger_turn ops False b1 = Done b2"
  shows "Flush_end b1 = Blocked
    \<and> bl_msgChan b2 = [] \<and> (\<exists>b3. Flush_end b2 = Done b3 \<and> idle b3)
    \<and> (\<exists>c. Flush_begin ops b2 = Done c \<and> startLogger_turn ops False c = Panicked)"
proof -
  have b1: "b1 = bl\<lparr>bl_signalChan := [''flush'']\<rparr>" using assms(1,2) by (auto simp: idle_def Flush_begin_def send_signal_def)
  define b where "b = b1\<lparr>bl_signalChan := []\<rparr>"
  obtain f where f: "bl_flush ops b = Done f" and b2': "b2 = f\<lparr>bl_wg := bl_wg f - 1\<rparr>"
    using assms(1,3) by (auto simp: startLogger_turn_def b_def b1 idle_def wg_Done_def Let_def split: if_splits dest: flush_frame)
  have fr: "bl_msgChan f = []" "bl_wg f = 1" "bl_signalChan f = []" "\<not> bl_signalClosed f" "bl_asynchronous f" "bl_started f"
    using flush_frame [OF f] assms(1) by (auto simp: b_def b1 idle_def)
  then have b2: "b2 = f\<lparr>bl_wg := 0\<rparr>" using b2' by simp
  have "Flush_end b1 = Blocked" using assms(1) by (simp add: Flush_end_def b1 idle_def wg_Wait_def)
  moreover have "\<exists>b3. Flush_end b2 = Done b3 \<and> idle b3"
    using fr by (simp add: b2 Flush_end_def wg_Wait_def idle_def)
  moreover have "\<exists>c. Flush_begin ops b2 = Done c \<and> startLogger_turn ops False c = Panicked"
  proof -
    define c where "c = b2\<lparr>bl_signalChan := [''flush'']\<rparr>"
    have "Flush_begin ops b2 = Done c" using fr by (simp add: Flush_begin_def send_signal_def b2 c_def)
    moreover obtain g where g: "bl_flush ops (c\<lparr>bl_signalChan := []\<rparr>) = Done g"
      using flush_empty [of "c\<lparr>bl_signalChan := []\<rparr>" ops] fr by (auto simp: c_def b2)
    moreover have "bl_wg g = 0" using flush_frame [OF g] fr by (simp add: c_def b2)
    ultimately show ?thesis using fr by (auto simp: startLogger_turn_def c_def b2 wg_Done_def)
  qed
  ultimately show ?thesis using fr by (simp add: b2)
qed

section \<open>The logger as an \<open>io.Writer\<close>\<close>

text \<open>
  \<open>Write\<close> passes the bytes on at the highest level, whatever the level of the logger
  is and without a prefix; a newline at the end is taken off. The number that it reports
  is the length without that newline, so that a complete write of a line, with a \<open>nil\<close>
  error, counts one byte less than it was given.
\<close>

theorem write_count:
  assumes "ready bl" and "\<not> bl_asynchronous bl" and "\<not> bl_enableFuncCallDepth bl"
    and "writeToLoggers ops \<lparr>lm_level = 0, lm_msg = string_of p, lm_when = cs_now cs\<rparr> bl = Done b"
  shows "bl_Write Sprintf ops adapters cs (p @ [0x0A]) bl = Done (length p, b)
    \<and> (p \<noteq> [] \<longrightarrow> last p \<noteq> 0x0A \<longrightarrow> bl_Write Sprintf ops adapters cs p bl = Done (length p, b))"
  using assms by (simp add: bl_Write_def ready_writeMsg message_of_def Let_def)

section \<open>The console as a logger\<close>

definition console_Logger :: "bool \<Rightarrow> (consoleWriter, unit) Logger" where
  "console_Logger windows = \<lparr>
     lg_Init = (\<lambda>config c w. case console_Init windows config c of
        (ok, c) \<Rightarrow> (if ok then None else Some ''invalid configuration'', c, w)),
     lg_WriteMsg = (\<lambda>when msg level c w. map_option (\<lambda>c. (None, c, w)) (console_WriteMsg when msg level c)),
     lg_Destroy = (\<lambda>c w. w),
     lg_Flush = (\<lambda>c w. (c, w))\<rparr>"

definition console_adapters :: "bool \<Rightarrow> consoleWriter adapter_table" where
  "console_adapters windows = [AdapterConsole \<mapsto> NewConsole windows]"

definition sample_site :: call_site where
  "sample_site = \<lparr>cs_now = sample_time, cs_Caller = (\<lambda>d. None)\<rparr>"

definition sample_logger :: "(consoleWriter, unit) BeeLogger" where
  "sample_logger = NewLogger (console_Logger True) (console_adapters True) () [2]"

lemma json_empty: "unmarshal_into member_consoleWriter (bytes_of ''{}'') c = (True, c)"
  by (simp add: unmarshal_into_def json_parse_def skip_ws.simps decode_obj_def numeral_eq_Suc)

lemma sample_logger_eq:
  "sample_logger = \<lparr>bl_level = 7, bl_init = False, bl_enableFuncCallDepth = False, bl_loggerFuncCallDepth = 2,
     bl_asynchronous = False, bl_msgChanLen = 2, bl_msgChan = [], bl_msgClosed = False, bl_signalChan = [],
     bl_signalClosed = False, bl_wg = 0,
     bl_outputs = [\<lparr>nl_name = AdapterConsole, nl_log = \<lparr>cw_Level = 7, cw_Colorful = False, cw_out = []\<rparr>\<rparr>],
     bl_started = False, bl_world = (), bl_stderr = []\<rparr>"
  by (simp add: sample_logger_def NewLogger_def setLogger_def console_adapters_def console_Logger_def console_Init_def
      json_empty NewConsole_def)

lemma sample_header: "formatTimeHeader sample_time = Some (header_text sample_time, 9)"
  by (simp add: formatTimeHeader_text time_ok_def sample_time_def)

abbreviation sample_Sprintf :: "string \<Rightarrow> nat list \<Rightarrow> string" where
  "sample_Sprintf f v \<equiv> f"

definition sample_call :: "nat log_call" where
  "sample_call = \<lparr>lc_level = LevelError, lc_format = ''up'', lc_args = [], lc_site = sample_site\<rparr>"

definition sample_async :: "(consoleWriter, unit) BeeLogger" where
  "sample_async = Async [] sample_logger"

definition sample_msg :: logMsg where
  "sample_msg = \<lparr>lm_level = 3, lm_msg = ''[E] up'', lm_when = sample_time\<rparr>"

definition sample_out :: string where
  "sample_out = header_text sample_time @ ''[E] up'' @ [CHR 0x0A]"

definition sample_written :: "string \<Rightarrow> (consoleWriter, unit) BeeLogger" where
  "sample_written s = sample_async\<lparr>bl_outputs := [\<lparr>nl_name = AdapterConsole, nl_log = \<lparr>cw_Level = 7, cw_Colorful = False, cw_out = s\<rparr>\<rparr>]\<rparr>"

lemma sample_async_eq: "sample_async = sample_written []" "ready sample_async" "bl_asynchronous sample_async"
  "bl_msgChan sample_async = []" "bl_level sample_async = 7" "\<not> bl_msgClosed sample_async" "bl_msgChanLen sample_async = 2"
  "idle sample_async"
  by (simp_all add: sample_async_def sample_written_def Async_def sample_logger_eq ready_def idle_def AdapterConsole_def)

lemma sample_written_fields: "ready (sample_written s)" "bl_level (sample_written s) = 7" "bl_asynchronous (sample_written s)"
    "bl_started (sample_written s)" "bl_msgChan (sample_written s) = []"
  using sample_async_eq(2,3,4,5,8) by (simp_all add: sample_written_def ready_def idle_def)

lemma sample_message: "message_of sample_Sprintf sample_site 3 ''up'' [] (sample_written s) = Some sample_msg"
  by (simp add: message_of_def sample_msg_def levelLoggerImpl_def levelPrefix_def sample_site_def sample_written_def
      sample_async_def Async_def sample_logger_eq)

lemma sample_send: "make_call sample_Sprintf (console_Logger True) (console_adapters True) sample_call (sample_written s)
    = Done (sample_written s\<lparr>bl_msgChan := [sample_msg]\<rparr>)"
  using sample_async_eq(6,7) sample_message [of s] sample_written_fields [of s]
  by (simp add: make_call_def log_at_def sample_call_def ready_writeMsg send_msg_def sample_written_def)

lemma sample_write: "writeToLoggers (console_Logger True) sample_msg (sample_written s) = Done (sample_written (s @ sample_out))"
  by (simp add: writeToLoggers_def sample_written_def console_Logger_def console_WriteMsg_def sample_msg_def
      logWriter_println_def sample_header sample_out_def)

lemma sample_consume: "startLogger_turn (console_Logger True) True (sample_written s\<lparr>bl_msgChan := [sample_msg]\<rparr>)
    = Done (sample_written (s @ sample_out))"
proof -
  have "sample_written s\<lparr>bl_msgChan := []\<rparr> = sample_written s" using sample_async_eq(4) by (simp add: sample_written_def)
  then have "writeToLoggers (console_Logger True) sample_msg (sample_written s\<lparr>bl_msgChan := []\<rparr>) = Done (sample_written (s @ sample_out))"
    by (simp only: sample_write)
  then show ?thesis using sample_written_fields [of s] by (simp add: startLogger_turn_def)
qed

lemma sample_run: "bee_run sample_Sprintf (console_Logger True) (console_adapters True) sample_async [sample_call, sample_call]
    (sample_written sample_out\<lparr>bl_msgChan := [sample_msg]\<rparr>)"
proof -
  have "bee_run sample_Sprintf (console_Logger True) (console_adapters True) sample_async [] (sample_written [])"
    using bee_run.start [of sample_Sprintf "console_Logger True" "console_adapters True" sample_async] by (simp add: sample_async_eq(1))
  from bee_run.call [OF this sample_send] have "bee_run sample_Sprintf (console_Logger True) (console_adapters True) sample_async
      [sample_call] (sample_written []\<lparr>bl_msgChan := [sample_msg]\<rparr>)" by simp
  from bee_run.call [OF bee_run.consume [OF this sample_consume] sample_send] show ?thesis by simp
qed

theorem async_delivery_witness:
  "\<exists>b. bee_run sample_Sprintf (console_Logger True) (console_adapters True) sample_async [sample_call, sample_call] b
     \<and> bl_msgChan b = [sample_msg]
     \<and> map_outcome sync (bl_flush (console_Logger True) b)
       = and_then (make_calls sample_Sprintf (console_Logger True) (console_adapters True) [sample_call, sample_call] (sync sample_async))
           (bl_flush (console_Logger True))"
  using async_delivery [OF sample_run sample_async_eq(2,3,4)] sample_run by force

theorem flush_protocol_witness:
  "\<exists>c. startLogger_turn (console_Logger True) False c = Panicked \<and> bl_started c"
proof -
  let ?ops = "console_Logger True"
  have b1: "Flush_begin ?ops sample_async = Done (sample_async\<lparr>bl_signalChan := [''flush'']\<rparr>)"
    using sample_async_eq(8) by (simp add: Flush_begin_def send_signal_def idle_def)
  obtain g where g: "bl_flush ?ops (sample_async\<lparr>bl_signalChan := []\<rparr>) = Done g"
    using flush_empty [of "sample_async\<lparr>bl_signalChan := []\<rparr>" ?ops] sample_async_eq(4) by auto
  have w: "bl_wg g = 1" "bl_started g" "bl_asynchronous g" "bl_signalChan g = []" "\<not> bl_signalClosed g"
    using flush_frame [OF g] sample_async_eq(3,8) by (simp_all add: idle_def)
  have b2: "startLogger_turn ?ops False (sample_async\<lparr>bl_signalChan := [''flush'']\<rparr>) = Done (g\<lparr>bl_wg := 0\<rparr>)"
    using g w sample_async_eq(8) by (simp add: startLogger_turn_def wg_Done_def idle_def Let_def)
  from flush_protocol [OF sample_async_eq(8) b1 b2] w show ?thesis
    by (auto simp: Flush_begin_def send_signal_def)
qed

theorem write_count_witness:
  "\<exists>b. bl_Write sample_Sprintf (console_Logger True) (console_adapters True) sample_site (bytes_of ''up'' @ [0x0A]) sample_logger = Done (2, b)"
proof -
  have r: "ready sample_logger" "\<not> bl_asynchronous sample_logger" "\<not> bl_enableFuncCallDepth sample_logger"
    by (simp_all add: sample_logger_eq ready_def)
  obtain b where "writeToLoggers (console_Logger True) \<lparr>lm_level = 0, lm_msg = string_of (bytes_of ''up''), lm_when = cs_now sample_site\<rparr>
      sample_logger = Done b"
    by (simp add: writeToLoggers_def sample_logger_eq console_Logger_def console_WriteMsg_def sample_site_def
        logWriter_println_def sample_header)
  from write_count [OF r this, of sample_Sprintf "console_adapters True"]
  show ?thesis by (simp add: eval_nat_numeral)
qed

section \<open>What an adapter promises\<close>

text \<open>
  Messages written one after the other. \<open>'m\<close> is a message with all that its writing
  depends on, \<open>cfg\<close> the settings of an adapter, and \<open>holds s x\<close> says that the text \<open>x\<close> is
  in what the adapter has written.
\<close>

fun write_seq :: "('m \<Rightarrow> 's \<Rightarrow> 's option) \<Rightarrow> 'm list \<Rightarrow> 's \<Rightarrow> 's option" where
  "write_seq put [] s = Some s"
| "write_seq put (m # ms) s = Option.bind (put m s) (write_seq put ms)"

locale log_adapter =
  fixes put :: "'m \<Rightarrow> 's \<Rightarrow> 's option"
    and inv :: "'s \<Rightarrow> bool"
    and cfg :: "'s \<Rightarrow> 'c"
    and ok :: "'c \<Rightarrow> 'm \<Rightarrow> bool"
    and passes :: "'c \<Rightarrow> 'm \<Rightarrow> bool"
    and line :: "'c \<Rightarrow> 'm \<Rightarrow> string"
    and holds :: "'s \<Rightarrow> string \<Rightarrow> bool"
  assumes write_ok: "inv s \<Longrightarrow> ok (cfg s) m \<Longrightarrow> \<exists>s'. put m s = Some s' \<and> inv s' \<and> cfg s' = cfg s"
    and write_new: "inv s \<Longrightarrow> ok (cfg s) m \<Longrightarrow> put m s = Some s' \<Longrightarrow> passes (cfg s) m \<Longrightarrow> holds s' (line (cfg s) m)"
    and write_old: "inv s \<Longrightarrow> ok (cfg s) m \<Longrightarrow> put m s = Some s' \<Longrightarrow> holds s x \<Longrightarrow> holds s' x"
begin

lemma seq_kept:
  "inv s \<Longrightarrow> \<forall>m \<in> set ms. ok (cfg s) m \<Longrightarrow>
   \<exists>s'. write_seq put ms s = Some s' \<and> inv s' \<and> cfg s' = cfg s
     \<and> (\<forall>m \<in> set ms. passes (cfg s) m \<longrightarrow> holds s' (line (cfg s) m)) \<and> (\<forall>x. holds s x \<longrightarrow> holds s' x)"
proof (induction ms arbitrary: s)
  case (Cons m ms)
  then obtain s1 where s1: "put m s = Some s1" "inv s1" "cfg s1 = cfg s" using write_ok by force
  with Cons obtain s2 where "write_seq put ms s1 = Some s2" "inv s2" "cfg s2 = cfg s"
      "\<forall>m \<in> set ms. passes (cfg s) m \<longrightarrow> holds s2 (line (cfg s) m)" "\<forall>x. holds s1 x \<longrightarrow> holds s2 x"
    by (metis list.set_intros(2))
  with Cons.prems s1 show ?case using write_new [of s m s1] write_old [of s m s1] by auto
qed simp

end

lemma sublist_grow: "sublist x a \<Longrightarrow> sublist x (a @ b)"
  unfolding sublist_def by (metis append_assoc)

text \<open>The console keeps the contract for every message whose time fits the header.\<close>

definition console_line :: "bool \<times> int \<Rightarrow> time \<times> string \<times> level \<Rightarrow> string" where
  "console_line c m =
     (case m of (when, msg, l) \<Rightarrow> header_text when @ (if fst c then (colors ! level_num l) msg else msg) @ [CHR 0x0A])"

definition console_write :: "time \<times> string \<times> level \<Rightarrow> consoleWriter \<Rightarrow> consoleWriter option" where
  "console_write m c = (case m of (when, msg, l) \<Rightarrow> console_WriteMsg when msg (level_num l) c)"

lemma length_colors: "length colors = 8"
  by (simp add: colors_def)

lemma console_write_eq:
  "time_ok (fst m) \<Longrightarrow> console_write m c =
     Some (if int (level_num (snd (snd m))) > cw_Level c then c
           else c\<lparr>cw_out := cw_out c @ console_line (cw_Colorful c, cw_Level c) m\<rparr>)"
  by (cases m) (simp add: console_write_def console_WriteMsg_def console_line_def length_colors not_le [THEN iffD2, OF level_num_less]
      logWriter_println_def formatTimeHeader_text Let_def split_beta)

interpretation console_log: log_adapter console_write "\<lambda>c. True" "\<lambda>c. (cw_Colorful c, cw_Level c)"
    "\<lambda>c m. time_ok (fst m)" "\<lambda>c m. int (level_num (snd (snd m))) \<le> snd c" console_line "\<lambda>c x. sublist x (cw_out c)"
proof unfold_locales
  fix s m s' x
  assume "time_ok (fst m)" and "console_write m s = Some s'" and "sublist x (cw_out s)"
  then show "sublist x (cw_out s')" by (auto simp: console_write_eq sublist_grow split: if_splits)
qed (auto simp: console_write_eq split: if_splits)

end
