(* ===== verification/Log_File.thy ===== *)
theory Log_File
  imports Log
begin

text \<open>
  Logging to files (\<open>internal/logs/file.go\<close> and \<open>internal/logs/multifile.go\<close>): the
  settings, the limits, rotation and the removal of old files, over a file system with
  names, inodes and open handles. What is printed to the standard error is kept as the name
  of the log with the error.
\<close>

section \<open>The file system\<close>

datatype file_error =
    BadConfig | NoFilename | BadPerm | OpenError | StatError | ReadError | NoFreeNumber
  | RenameError | ChmodError | RestartError file_error | InvalidFile | WriteError

text \<open>
  A name leads to an inode; a handle is an inode and whether it is still open. What the
  operating system answers is a parameter: which names can be opened for appending and
  for reading, whether renaming, changing modes and reading the size succeed, and how many
  bytes a write puts down (\<open>None\<close> is a complete write).
\<close>

record files =
  fs_names :: "string \<rightharpoonup> nat"
  fs_data :: "nat \<Rightarrow> string"
  fs_mtime :: "nat \<Rightarrow> int"
  fs_next :: nat
  fs_stderr :: "(string \<times> file_error) list"

record os_env =
  os_now :: time
  os_now_ns :: int
  os_open_ok :: "string \<Rightarrow> bool"
  os_read_ok :: "string \<Rightarrow> bool"
  os_stat_ok :: bool
  os_rename_ok :: bool
  os_chmod_ok :: bool
  os_write :: "string \<Rightarrow> nat option"

type_synonym file_handle = "nat \<times> bool"

definition content :: "files \<Rightarrow> string \<Rightarrow> string option" where
  "content fs n = map_option (fs_data fs) (fs_names fs n)"

definition open_append :: "os_env \<Rightarrow> string \<Rightarrow> files \<Rightarrow> file_handle option \<times> files" where
  "open_append env name fs =
     (if \<not> os_open_ok env name then (None, fs)
      else case fs_names fs name of
        Some i \<Rightarrow> (Some (i, True), fs)
      | None \<Rightarrow>
          (Some (fs_next fs, True),
           fs\<lparr>fs_names := (fs_names fs)(name \<mapsto> fs_next fs), fs_data := (fs_data fs)(fs_next fs := []),
              fs_mtime := (fs_mtime fs)(fs_next fs := os_now_ns env), fs_next := fs_next fs + 1\<rparr>))"

text \<open>A write to a handle that is open; the count of an incomplete write is at most the length.\<close>

definition write_handle :: "os_env \<Rightarrow> file_handle option \<Rightarrow> string \<Rightarrow> files \<Rightarrow> file_error option \<times> files" where
  "write_handle env h s fs =
     (case h of
        None \<Rightarrow> (Some InvalidFile, fs)
      | Some (i, False) \<Rightarrow> (Some InvalidFile, fs)
      | Some (i, True) \<Rightarrow>
          (let part = (case os_write env s of None \<Rightarrow> s | Some k \<Rightarrow> take k s) in
           (if os_write env s = None then None else Some WriteError,
            fs\<lparr>fs_data := (fs_data fs)(i := fs_data fs i @ part), fs_mtime := (fs_mtime fs)(i := os_now_ns env)\<rparr>)))"

definition close_handle :: "file_handle option \<Rightarrow> file_handle option" where
  "close_handle h = map_option (\<lambda>(i, b). (i, False)) h"

definition rename_file :: "string \<Rightarrow> string \<Rightarrow> files \<Rightarrow> files" where
  "rename_file a b fs = fs\<lparr>fs_names := (fs_names fs)(b := fs_names fs a, a := None)\<rparr>"

section \<open>The writer\<close>

text \<open>
  The last two fields are the goroutines of the writer: the opening times for which a
  \<open>dailyRotate\<close> is waiting, and the number of \<open>deleteOldLog\<close> that were started.
\<close>

record fileLogWriter =
  fw_Filename :: string
  fw_fileWriter :: "file_handle option"
  fw_MaxLines :: int
  fw_maxLinesCurLines :: int
  fw_MaxSize :: int
  fw_maxSizeCurSize :: int
  fw_Daily :: bool
  fw_MaxDays :: int
  fw_dailyOpenDate :: nat
  fw_dailyOpenTime :: time
  fw_Rotate :: bool
  fw_Level :: int
  fw_Perm :: string
  fw_fileNameOnly :: string
  fw_suffix :: string
  fw_timers :: "time list"
  fw_cleaners :: nat

definition zero_time :: time where
  "zero_time = \<lparr>tm_year = 1, tm_month = 1, tm_day = 1, tm_hour = 0, tm_min = 0, tm_sec = 0, tm_nsec = 0\<rparr>"

definition newFileWriter :: fileLogWriter where
  "newFileWriter = \<lparr>
     fw_Filename = [], fw_fileWriter = None, fw_MaxLines = 0, fw_maxLinesCurLines = 0, fw_MaxSize = 0,
     fw_maxSizeCurSize = 0, fw_Daily = True, fw_MaxDays = 7, fw_dailyOpenDate = 0, fw_dailyOpenTime = zero_time,
     fw_Rotate = True, fw_Level = int (level_num LevelTrace), fw_Perm = ''0660'', fw_fileNameOnly = [],
     fw_suffix = [], fw_timers = [], fw_cleaners = 0\<rparr>"

definition member_fileLogWriter :: "fileLogWriter member_step" where
  "member_fileLogWriter m st =
     (let (k, v) = m in
      if key_is ''filename'' k then set_str (\<lambda>x w. w\<lparr>fw_Filename := x\<rparr>) v st
      else if key_is ''maxlines'' k then set_int (\<lambda>x w. w\<lparr>fw_MaxLines := x\<rparr>) v st
      else if key_is ''maxsize'' k then set_int (\<lambda>x w. w\<lparr>fw_MaxSize := x\<rparr>) v st
      else if key_is ''daily'' k then set_bool (\<lambda>x w. w\<lparr>fw_Daily := x\<rparr>) v st
      else if key_is ''maxdays'' k then set_int (\<lambda>x w. w\<lparr>fw_MaxDays := x\<rparr>) v st
      else if key_is ''rotate'' k then set_bool (\<lambda>x w. w\<lparr>fw_Rotate := x\<rparr>) v st
      else if key_is ''level'' k then set_int (\<lambda>x w. w\<lparr>fw_Level := x\<rparr>) v st
      else if key_is ''perm'' k then set_str (\<lambda>x w. w\<lparr>fw_Perm := x\<rparr>) v st
      else st)"

text \<open>\<open>filepath.Ext\<close>, \<open>filepath.Base\<close> and \<open>strings.TrimSuffix\<close>.\<close>

definition file_ext :: "string \<Rightarrow> string" where
  "file_ext p =
     (case rcut (CHR ''.'') p of
        None \<Rightarrow> []
      | Some (d, e) \<Rightarrow> if CHR ''/'' \<in> set e then [] else CHR ''.'' # e)"

definition has_suffix :: "string \<Rightarrow> string \<Rightarrow> bool" where
  "has_suffix s suf \<longleftrightarrow> length suf \<le> length s \<and> drop (length s - length suf) s = suf"

definition trim_suffix :: "string \<Rightarrow> string \<Rightarrow> string" where
  "trim_suffix s suf = (if has_suffix s suf then take (length s - length suf) s else s)"

definition path_base :: "string \<Rightarrow> string" where
  "path_base p =
     (if p = [] then ''.''
      else
        let q = rev (dropWhile (\<lambda>c. c = CHR ''/'') (rev p))
        in if q = [] then ''/'' else file_base q)"

text \<open>\<open>strconv.ParseInt\<close> with base 8 and 64 bits.\<close>

definition parse_oct_nat :: "string \<Rightarrow> nat option" where
  "parse_oct_nat s =
     (if s \<noteq> [] \<and> (\<forall>c \<in> set s. is_digit c \<and> digit_val c < 8)
      then Some (foldl (\<lambda>a c. 8 * a + digit_val c) 0 s) else None)"

definition parse_oct :: "string \<Rightarrow> int option" where
  "parse_oct s =
     (case s of
        [] \<Rightarrow> None
      | c # cs \<Rightarrow>
          (case parse_oct_nat (if c = CHR ''+'' \<or> c = CHR ''-'' then cs else s) of
             None \<Rightarrow> None
           | Some n \<Rightarrow>
               if c = CHR ''-'' then (if n \<le> 2 ^ 63 then Some (- int n) else None)
               else (if n < 2 ^ 63 then Some (int n) else None)))"

section \<open>Opening\<close>

definition createLogFile :: "os_env \<Rightarrow> fileLogWriter \<Rightarrow> files \<Rightarrow> (file_error + file_handle) \<times> files" where
  "createLogFile env w fs =
     (case parse_oct (fw_Perm w) of
        None \<Rightarrow> (Inl BadPerm, fs)
      | Some perm \<Rightarrow>
          (case open_append env (fw_Filename w) fs of
             (None, fs) \<Rightarrow> (Inl OpenError, fs)
           | (Some h, fs) \<Rightarrow> (Inr h, fs)))"

text \<open>\<open>lines\<close> reads the file in pieces of 32 KiB and counts the newlines.\<close>

function lines_loop :: "string \<Rightarrow> nat \<Rightarrow> nat" where
  "lines_loop s count =
     (if s = [] then count
      else lines_loop (drop 32768 s) (count + length (filter (\<lambda>c. c = CHR 0x0A) (take 32768 s))))"
  by pat_completeness auto
termination by (relation "measure (\<lambda>(s, c). length s)") simp_all

declare lines_loop.simps [simp del]

definition newlines :: "string \<Rightarrow> nat" where
  "newlines s = length (filter (\<lambda>c. c = CHR 0x0A) s)"

lemma lines_loop_newlines: "lines_loop s c = c + newlines s"
proof (induction s c rule: lines_loop.induct)
  case (1 s c)
  have "newlines s = newlines (take 32768 s) + newlines (drop 32768 s)"
    by (metis newlines_def filter_append length_append append_take_drop_id)
  with 1 show ?case by (subst lines_loop.simps) (simp add: newlines_def)
qed

definition file_lines :: "os_env \<Rightarrow> fileLogWriter \<Rightarrow> files \<Rightarrow> file_error + nat" where
  "file_lines env w fs =
     (case content fs (fw_Filename w) of
        None \<Rightarrow> Inl ReadError
      | Some s \<Rightarrow> if os_read_ok env (fw_Filename w) then Inr (lines_loop s 0) else Inl ReadError)"

definition initFd :: "os_env \<Rightarrow> fileLogWriter \<Rightarrow> files \<Rightarrow> file_error option \<times> fileLogWriter" where
  "initFd env w fs =
     (if \<not> os_stat_ok env then (Some StatError, w)
      else
        let size = (case fw_fileWriter w of None \<Rightarrow> 0 | Some (i, b) \<Rightarrow> length (fs_data fs i));
            w = w\<lparr>fw_maxSizeCurSize := int size, fw_dailyOpenTime := os_now env,
                  fw_dailyOpenDate := tm_day (os_now env), fw_maxLinesCurLines := 0\<rparr>;
            w = (if fw_Daily w then w\<lparr>fw_timers := fw_timers w @ [fw_dailyOpenTime w]\<rparr> else w) in
        if size > 0
        then (case file_lines env w fs of
                Inl e \<Rightarrow> (Some e, w)
              | Inr count \<Rightarrow> (None, w\<lparr>fw_maxLinesCurLines := int count\<rparr>))
        else (None, w))"

definition file_startLogger :: "os_env \<Rightarrow> fileLogWriter \<Rightarrow> files \<Rightarrow> file_error option \<times> fileLogWriter \<times> files" where
  "file_startLogger env w fs =
     (case createLogFile env w fs of
        (Inl e, fs) \<Rightarrow> (Some e, w, fs)
      | (Inr h, fs) \<Rightarrow>
          (case initFd env (w\<lparr>fw_fileWriter := Some h\<rparr>) fs of (e, w) \<Rightarrow> (e, w, fs)))"

definition file_Init :: "os_env \<Rightarrow> string \<Rightarrow> fileLogWriter \<Rightarrow> files \<Rightarrow> file_error option \<times> fileLogWriter \<times> files" where
  "file_Init env jsonConfig w fs =
     (case unmarshal_into member_fileLogWriter (bytes_of jsonConfig) w of
        (False, w) \<Rightarrow> (Some BadConfig, w, fs)
      | (True, w) \<Rightarrow>
          if length (fw_Filename w) = 0 then (Some NoFilename, w, fs)
          else
            let suffix = file_ext (fw_Filename w);
                w = w\<lparr>fw_suffix := suffix, fw_fileNameOnly := trim_suffix (fw_Filename w) suffix\<rparr>;
                w = (if fw_suffix w = [] then w\<lparr>fw_suffix := ''.log''\<rparr> else w)
            in file_startLogger env w fs)"

section \<open>Rotation\<close>

definition needRotate :: "nat \<Rightarrow> nat \<Rightarrow> fileLogWriter \<Rightarrow> bool" where
  "needRotate sz day w \<longleftrightarrow>
     fw_MaxLines w > 0 \<and> fw_maxLinesCurLines w \<ge> fw_MaxLines w \<or>
     fw_MaxSize w > 0 \<and> fw_maxSizeCurSize w \<ge> fw_MaxSize w \<or>
     fw_Daily w \<and> day \<noteq> fw_dailyOpenDate w"

text \<open>The formats of the date and of the names.\<close>

definition date_text :: "time \<Rightarrow> string" where
  "date_text t = padded 4 (tm_year t) @ ''-'' @ padded 2 (tm_month t) @ ''-'' @ padded 2 (tm_day t)"

definition numbered_name :: "fileLogWriter \<Rightarrow> time \<Rightarrow> nat \<Rightarrow> string" where
  "numbered_name w t num = fw_fileNameOnly w @ ''.'' @ date_text t @ ''.'' @ padded 3 num @ fw_suffix w"

definition dated_name :: "fileLogWriter \<Rightarrow> time \<Rightarrow> string" where
  "dated_name w t = fw_fileNameOnly w @ ''.'' @ date_text t @ fw_suffix w"

text \<open>
  The loop over the numbers, with the name that was tried last and whether it exists.
\<close>

function free_loop :: "(string \<Rightarrow> bool) \<Rightarrow> (nat \<Rightarrow> string) \<Rightarrow> nat \<Rightarrow> string \<Rightarrow> bool \<Rightarrow> string \<times> bool" where
  "free_loop ex mk num fName found =
     (if found \<and> num \<le> 999 then free_loop ex mk (num + 1) (mk num) (ex (mk num)) else (fName, found))"
  by pat_completeness auto
termination by (relation "measure (\<lambda>(ex, mk, num, fName, found). 1000 - num)") auto

declare free_loop.simps [simp del]

definition free_name :: "fileLogWriter \<Rightarrow> time \<Rightarrow> files \<Rightarrow> string \<times> bool" where
  "free_name w logTime fs =
     (let ex = (\<lambda>n. fs_names fs n \<noteq> None) in
      if fw_MaxLines w > 0 \<or> fw_MaxSize w > 0
      then free_loop ex (numbered_name w logTime) 1 [] True
      else
        let fName = dated_name w (fw_dailyOpenTime w)
        in free_loop ex (numbered_name w (fw_dailyOpenTime w)) 1 fName (ex fName))"

text \<open>The code from the label on, with the error of what came before.\<close>

definition restart_logger ::
  "os_env \<Rightarrow> file_error option \<Rightarrow> fileLogWriter \<Rightarrow> files \<Rightarrow> file_error option \<times> fileLogWriter \<times> files" where
  "restart_logger env err w fs =
     (case file_startLogger env w fs of
        (startLoggerErr, w, fs) \<Rightarrow>
          (case startLoggerErr of Some e \<Rightarrow> Some (RestartError e) | None \<Rightarrow> err,
           w\<lparr>fw_cleaners := fw_cleaners w + 1\<rparr>, fs))"

definition doRotate :: "os_env \<Rightarrow> time \<Rightarrow> fileLogWriter \<Rightarrow> files \<Rightarrow> file_error option \<times> fileLogWriter \<times> files" where
  "doRotate env logTime w fs =
     (if fs_names fs (fw_Filename w) = None then restart_logger env (Some OpenError) w fs
      else case free_name w logTime fs of
        (fName, True) \<Rightarrow> (Some NoFreeNumber, w, fs)
      | (fName, False) \<Rightarrow>
          (let w = w\<lparr>fw_fileWriter := close_handle (fw_fileWriter w)\<rparr> in
           if \<not> os_rename_ok env then restart_logger env (Some RenameError) w fs
           else
             restart_logger env (if os_chmod_ok env then None else Some ChmodError) w
               (rename_file (fw_Filename w) fName fs)))"

text \<open>The goroutine of \<open>dailyRotate\<close> when its timer fires; an error is printed.\<close>

definition report :: "string \<Rightarrow> file_error option \<Rightarrow> files \<Rightarrow> files" where
  "report filename e fs = (case e of None \<Rightarrow> fs | Some err \<Rightarrow> fs\<lparr>fs_stderr := fs_stderr fs @ [(filename, err)]\<rparr>)"

definition dailyRotate :: "os_env \<Rightarrow> fileLogWriter \<Rightarrow> files \<Rightarrow> fileLogWriter \<times> files" where
  "dailyRotate env w fs =
     (if needRotate 0 (tm_day (os_now env)) w
      then case doRotate env (os_now env) w fs of (e, w, fs) \<Rightarrow> (w, report (fw_Filename w) e fs)
      else (w, fs))"

definition file_WriteMsg ::
  "os_env \<Rightarrow> time \<Rightarrow> string \<Rightarrow> nat \<Rightarrow> fileLogWriter \<Rightarrow> files \<Rightarrow> (file_error option \<times> fileLogWriter \<times> files) option" where
  "file_WriteMsg env when msg level w fs =
     (if int level > fw_Level w then Some (None, w, fs)
      else map_option (\<lambda>(h, d).
        let msg = h @ msg @ [CHR 0x0A];
            (w, fs) = (if fw_Rotate w \<and> needRotate (length msg) d w
                       then case doRotate env when w fs of (e, w, fs) \<Rightarrow> (w, report (fw_Filename w) e fs)
                       else (w, fs));
            (err, fs) = write_handle env (fw_fileWriter w) msg fs
        in (err,
            if err = None
            then w\<lparr>fw_maxLinesCurLines := fw_maxLinesCurLines w + 1, fw_maxSizeCurSize := fw_maxSizeCurSize w + int (length msg)\<rparr>
            else w,
            fs)) (formatTimeHeader when))"

section \<open>Removal of old files\<close>

text \<open>
  \<open>deleteOldLog\<close> visits the files below the directory of the log; what is there is a
  parameter. \<open>day_ns\<close> is the length of a day; the product is a 64-bit number.
\<close>

definition day_ns :: int where "day_ns = 86400000000000"

definition max_age :: "fileLogWriter \<Rightarrow> int" where
  "max_age w = sint (word_of_int (day_ns * fw_MaxDays w) :: 64 word)"

definition old_log :: "os_env \<Rightarrow> fileLogWriter \<Rightarrow> files \<Rightarrow> string \<Rightarrow> bool" where
  "old_log env w fs p \<longleftrightarrow>
     (case fs_names fs p of
        None \<Rightarrow> False
      | Some i \<Rightarrow>
          fs_mtime fs i + max_age w < os_now_ns env
          \<and> take (length (path_base (fw_fileNameOnly w))) (path_base p) = path_base (fw_fileNameOnly w)
          \<and> has_suffix (path_base p) (fw_suffix w))"

fun deleteOldLog :: "os_env \<Rightarrow> fileLogWriter \<Rightarrow> string list \<Rightarrow> files \<Rightarrow> files" where
  "deleteOldLog env w [] fs = fs"
| "deleteOldLog env w (p # walk) fs =
     deleteOldLog env w walk (if old_log env w fs p then fs\<lparr>fs_names := (fs_names fs)(p := None)\<rparr> else fs)"

definition file_Destroy :: "fileLogWriter \<Rightarrow> fileLogWriter" where
  "file_Destroy w = w\<lparr>fw_fileWriter := close_handle (fw_fileWriter w)\<rparr>"

section \<open>Writing and rotating loses nothing\<close>

text \<open>The writer's handle is open on the file of its name, and inodes are not shared.\<close>

definition file_wf :: "fileLogWriter \<Rightarrow> files \<Rightarrow> bool" where
  "file_wf w fs \<longleftrightarrow>
     (\<exists>i. fw_fileWriter w = Some (i, True) \<and> fs_names fs (fw_Filename w) = Some i)
     \<and> (\<forall>m n i. fs_names fs m = Some i \<and> fs_names fs n = Some i \<longrightarrow> m = n)
     \<and> (\<forall>n i. fs_names fs n = Some i \<longrightarrow> i < fs_next fs)"

definition healthy :: "os_env \<Rightarrow> fileLogWriter \<Rightarrow> bool" where
  "healthy env w \<longleftrightarrow> os_open_ok env (fw_Filename w) \<and> os_read_ok env (fw_Filename w) \<and> os_stat_ok env
     \<and> os_rename_ok env \<and> (\<forall>s. os_write env s = None) \<and> parse_oct (fw_Perm w) \<noteq> None"

lemma free_loop_free: "free_loop ex mk num f found = (g, False) \<Longrightarrow> \<not> found \<and> g = f \<or> \<not> ex g"
proof (induction ex mk num f found rule: free_loop.induct)
  case (1 ex mk num f found)
  from 1(2) show ?case
    by (subst (asm) free_loop.simps) (use 1(1) in \<open>auto split: if_splits\<close>)
qed

lemma free_name_free: "free_name w t fs = (n, False) \<Longrightarrow> fs_names fs n = None"
  by (auto simp: free_name_def Let_def split: if_splits dest!: free_loop_free)

lemma free_loop_found: "\<not> ex (mk k) \<Longrightarrow> num \<le> k \<Longrightarrow> k \<le> 999 \<Longrightarrow> \<not> snd (free_loop ex mk num f found)"
proof (induction ex mk num f found rule: free_loop.induct)
  case (1 ex mk num f found)
  show ?case
  proof (cases "found \<and> num = k")
    case True
    with 1 show ?thesis by (simp add: free_loop.simps)
  next
    case False
    with 1 show ?thesis by (subst free_loop.simps) auto
  qed
qed

lemma initFd_ok:
  assumes "os_stat_ok env" "os_read_ok env (fw_Filename w)" "content fs (fw_Filename w) \<noteq> None"
  shows "fst (initFd env w fs) = None"
  using assms by (auto simp: initFd_def file_lines_def Let_def split: option.splits)

lemma initFd_keeps:
  "fw_Filename (snd (initFd env w fs)) = fw_Filename w" "fw_fileWriter (snd (initFd env w fs)) = fw_fileWriter w"
  "fw_Perm (snd (initFd env w fs)) = fw_Perm w" "fw_Level (snd (initFd env w fs)) = fw_Level w"
  "fw_Rotate (snd (initFd env w fs)) = fw_Rotate w" "fw_Daily (snd (initFd env w fs)) = fw_Daily w"
  by (auto simp: initFd_def Let_def split: sum.splits)

lemma initFd_date: "os_stat_ok env \<Longrightarrow> fw_dailyOpenDate (snd (initFd env w fs)) = tm_day (os_now env)"
  by (auto simp: initFd_def Let_def split: sum.splits)

lemma startLogger_healthy:
  assumes "healthy env w" "\<forall>n i. fs_names fs n = Some i \<longrightarrow> i < fs_next fs" "fs_names fs (fw_Filename w) = None"
    and "file_startLogger env w fs = (e, w', fs')"
  shows "e = None \<and> fw_fileWriter w' = Some (fs_next fs, True) \<and> fw_Filename w' = fw_Filename w \<and> fw_Perm w' = fw_Perm w
     \<and> fw_Level w' = fw_Level w \<and> fw_Rotate w' = fw_Rotate w \<and> fw_Daily w' = fw_Daily w
     \<and> fw_dailyOpenDate w' = tm_day (os_now env)
     \<and> fs_names fs' = (fs_names fs)(fw_Filename w \<mapsto> fs_next fs) \<and> fs_data fs' = (fs_data fs)(fs_next fs := [])
     \<and> fs_next fs' = fs_next fs + 1"
proof -
  obtain perm where p: "parse_oct (fw_Perm w) = Some perm" using assms(1) by (auto simp: healthy_def)
  define fs1 where "fs1 = snd (open_append env (fw_Filename w) fs)"
  define w1 where "w1 = w\<lparr>fw_fileWriter := Some (fs_next fs, True)\<rparr>"
  have o: "open_append env (fw_Filename w) fs = (Some (fs_next fs, True), fs1)"
    using assms(1,3) by (auto simp: open_append_def fs1_def healthy_def)
  then have f1: "fs_names fs1 = (fs_names fs)(fw_Filename w \<mapsto> fs_next fs)" "fs_data fs1 = (fs_data fs)(fs_next fs := [])"
      "fs_next fs1 = fs_next fs + 1"
    using assms(1,3) by (auto simp: open_append_def healthy_def)
  have "fst (initFd env w1 fs1) = None"
    using assms(1) f1 by (intro initFd_ok) (auto simp: healthy_def w1_def content_def)
  moreover have "(e, w', fs') = (fst (initFd env w1 fs1), snd (initFd env w1 fs1), fs1)"
    using assms(4) by (auto simp: file_startLogger_def createLogFile_def p o w1_def [symmetric] split_beta)
  ultimately show ?thesis
    using f1 assms(1) initFd_date [of env w1 fs1] by (simp add: initFd_keeps healthy_def) (simp add: w1_def)
qed

definition same_settings :: "fileLogWriter \<Rightarrow> fileLogWriter \<Rightarrow> bool" where
  "same_settings w w' \<longleftrightarrow> fw_Filename w' = fw_Filename w \<and> fw_Level w' = fw_Level w \<and> fw_Rotate w' = fw_Rotate w
     \<and> fw_Daily w' = fw_Daily w \<and> fw_Perm w' = fw_Perm w"

lemma doRotate_healthy:
  assumes "file_wf w fs" "healthy env w" "doRotate env t w fs = (e, w', fs')" "content fs (fw_Filename w) = Some old"
  shows "(e = Some NoFreeNumber \<and> snd (free_name w t fs) \<and> w' = w \<and> fs' = fs)
    \<or> (\<exists>fName. free_name w t fs = (fName, False) \<and> content fs fName = None \<and> file_wf w' fs' \<and> healthy env w'
        \<and> same_settings w w' \<and> fw_dailyOpenDate w' = tm_day (os_now env)
        \<and> content fs' fName = Some old \<and> content fs' (fw_Filename w) = Some []
        \<and> (\<forall>n. n \<noteq> fName \<longrightarrow> n \<noteq> fw_Filename w \<longrightarrow> content fs' n = content fs n))"
proof (cases "snd (free_name w t fs)")
  case True
  with assms show ?thesis by (auto simp: doRotate_def content_def split: prod.splits)
next
  case False
  then obtain fName where f: "free_name w t fs = (fName, False)" by (cases "free_name w t fs") auto
  then have free: "fs_names fs fName = None" by (rule free_name_free)
  obtain i where i: "fs_names fs (fw_Filename w) = Some i" and inj: "\<And>m n j. fs_names fs m = Some j \<Longrightarrow> fs_names fs n = Some j \<Longrightarrow> m = n"
    and lt: "\<And>n j. fs_names fs n = Some j \<Longrightarrow> j < fs_next fs"
    using assms(1) by (auto simp: file_wf_def)
  then have ne: "fName \<noteq> fw_Filename w" using free by auto
  define w1 where "w1 = w\<lparr>fw_fileWriter := close_handle (fw_fileWriter w)\<rparr>"
  define fs1 where "fs1 = rename_file (fw_Filename w) fName fs"
  obtain e1 w2 fs2 where s: "file_startLogger env w1 fs1 = (e1, w2, fs2)" by (cases "file_startLogger env w1 fs1")
  have w1: "healthy env w1" "fw_Filename w1 = fw_Filename w" using assms(2) by (simp_all add: w1_def healthy_def)
  have names1: "fs_names fs1 = (fs_names fs)(fName \<mapsto> i, fw_Filename w := None)" "fs_data fs1 = fs_data fs" "fs_next fs1 = fs_next fs"
    using i by (simp_all add: fs1_def rename_file_def)
  have "\<forall>n j. fs_names fs1 n = Some j \<longrightarrow> j < fs_next fs1" using lt i names1 by (auto split: if_splits)
  moreover have "fs_names fs1 (fw_Filename w1) = None" by (simp add: names1 w1)
  ultimately have st: "fw_fileWriter w2 = Some (fs_next fs, True)" "fw_Filename w2 = fw_Filename w" "fw_Perm w2 = fw_Perm w"
      "fw_Level w2 = fw_Level w" "fw_Rotate w2 = fw_Rotate w" "fw_Daily w2 = fw_Daily w" "fw_dailyOpenDate w2 = tm_day (os_now env)"
      "fs_names fs2 = (fs_names fs)(fName \<mapsto> i, fw_Filename w \<mapsto> fs_next fs)" "fs_data fs2 = (fs_data fs)(fs_next fs := [])"
      "fs_next fs2 = fs_next fs + 1"
    using startLogger_healthy [OF w1(1) _ _ s] names1 w1 by (simp_all add: w1_def)
  have "w' = w2\<lparr>fw_cleaners := fw_cleaners w2 + 1\<rparr>" "fs' = fs2"
    using assms(2,3) i by (auto simp: doRotate_def f healthy_def Let_def w1_def [symmetric] w1(2) s [unfolded fs1_def] restart_logger_def)
  moreover have "file_wf (w2\<lparr>fw_cleaners := fw_cleaners w2 + 1\<rparr>) fs2"
    using inj lt i free by (auto simp: file_wf_def st split: if_splits) (fastforce dest: lt)+
  moreover have "content fs2 n = content fs n" if "n \<noteq> fName" "n \<noteq> fw_Filename w" for n
    using that lt [of n] by (cases "fs_names fs n") (auto simp: content_def st)
  moreover have "i < fs_next fs" using lt i .
  ultimately show ?thesis
    using f free ne assms(2,4) i by (auto simp: content_def st healthy_def same_settings_def)
qed

lemma write_healthy:
  assumes "file_wf w fs" "healthy env w" "content fs (fw_Filename w) = Some old"
  shows "\<exists>fs'. write_handle env (fw_fileWriter w) s fs = (None, fs') \<and> file_wf w fs'
     \<and> content fs' (fw_Filename w) = Some (old @ s) \<and> (\<forall>n. n \<noteq> fw_Filename w \<longrightarrow> content fs' n = content fs n)"
proof -
  obtain i where i: "fw_fileWriter w = Some (i, True)" "fs_names fs (fw_Filename w) = Some i"
    and inj: "\<And>n. fs_names fs n = Some i \<Longrightarrow> n = fw_Filename w"
    using assms(1) by (auto simp: file_wf_def)
  define fs' where "fs' = fs\<lparr>fs_data := (fs_data fs)(i := fs_data fs i @ s), fs_mtime := (fs_mtime fs)(i := os_now_ns env)\<rparr>"
  have "write_handle env (fw_fileWriter w) s fs = (None, fs')"
    using assms(2) by (simp add: write_handle_def i healthy_def fs'_def)
  moreover have "file_wf w fs'" using assms(1) by (simp add: file_wf_def fs'_def)
  moreover have "content fs' n = content fs n" if "n \<noteq> fw_Filename w" for n
    using that inj [of n] by (cases "fs_names fs n") (auto simp: content_def fs'_def)
  ultimately show ?thesis using assms(3) i by (auto simp: content_def fs'_def)
qed

text \<open>What one message does, with \<open>line\<close> its text in the file.\<close>

definition file_line :: "time \<Rightarrow> string \<Rightarrow> string" where
  "file_line when msg = header_text when @ msg @ [CHR 0x0A]"

definition rotates :: "time \<Rightarrow> string \<Rightarrow> fileLogWriter \<Rightarrow> files \<Rightarrow> bool" where
  "rotates when msg w fs \<longleftrightarrow>
     fw_Rotate w \<and> needRotate (length (file_line when msg)) (tm_day when) w \<and> \<not> snd (free_name w when fs)"

lemma content_report [simp]: "content (report n e fs) = content fs" "file_wf w (report n e fs) = file_wf w fs"
  by (auto simp: report_def content_def file_wf_def fun_eq_iff split: option.splits)

lemma file_wf_counters [simp]:
  "file_wf (w\<lparr>fw_maxLinesCurLines := a, fw_maxSizeCurSize := b\<rparr>) fs = file_wf w fs"
  by (simp add: file_wf_def)

lemma write_no_rotation:
  assumes "file_wf w fs" "healthy env w" "time_ok when" "int level \<le> fw_Level w" "content fs (fw_Filename w) = Some old"
    and "\<not> rotates when msg w fs"
  shows "\<exists>w' fs'. file_WriteMsg env when msg level w fs = Some (None, w', fs') \<and> file_wf w' fs' \<and> same_settings w w'
    \<and> content fs' (fw_Filename w) = Some (old @ file_line when msg)
    \<and> (\<forall>n. n \<noteq> fw_Filename w \<longrightarrow> content fs' n = content fs n)"
proof -
  define due where "due \<longleftrightarrow> fw_Rotate w \<and> needRotate (length (file_line when msg)) (tm_day when) w"
  obtain e w1 fs1 where r: "doRotate env when w fs = (e, w1, fs1)" by (cases "doRotate env when w fs")
  have "\<exists>fs1. (if due then case doRotate env when w fs of (e, w, fs) \<Rightarrow> (w, report (fw_Filename w) e fs) else (w, fs)) = (w, fs1)
      \<and> content fs1 = content fs \<and> file_wf w fs1"
  proof (cases due)
    case True
    then have "snd (free_name w when fs)" using assms(6) by (simp add: rotates_def due_def)
    then show ?thesis using doRotate_healthy [OF assms(1,2) r assms(5)] True r assms(1) by (auto simp: split_beta)
  next
    case False
    then show ?thesis using assms(1) by auto
  qed
  then obtain fs1 where fs1: "(if due then case doRotate env when w fs of (e, w, fs) \<Rightarrow> (w, report (fw_Filename w) e fs) else (w, fs)) = (w, fs1)"
      "content fs1 = content fs" "file_wf w fs1" by blast
  obtain fs2 where "write_handle env (fw_fileWriter w) (file_line when msg) fs1 = (None, fs2)" "file_wf w fs2"
      "content fs2 (fw_Filename w) = Some (old @ file_line when msg)" "\<forall>n. n \<noteq> fw_Filename w \<longrightarrow> content fs2 n = content fs n"
    using write_healthy [OF fs1(3) assms(2), of old "file_line when msg"] assms(5) fs1(2) by auto
  with fs1(1) show ?thesis using assms(3,4)
    by (simp add: file_WriteMsg_def formatTimeHeader_text due_def file_line_def Let_def same_settings_def)
qed

lemma write_rotation:
  assumes "file_wf w fs" "healthy env w" "time_ok when" "int level \<le> fw_Level w" "content fs (fw_Filename w) = Some old"
    and "rotates when msg w fs"
  shows "\<exists>w' fs' fName. file_WriteMsg env when msg level w fs = Some (None, w', fs') \<and> file_wf w' fs' \<and> same_settings w w'
    \<and> content fs fName = None \<and> content fs' fName = Some old \<and> content fs' (fw_Filename w) = Some (file_line when msg)
    \<and> (\<forall>n. n \<noteq> fName \<longrightarrow> n \<noteq> fw_Filename w \<longrightarrow> content fs' n = content fs n)
    \<and> fw_dailyOpenDate w' = tm_day (os_now env)"
proof -
  obtain e w1 fs1 where r: "doRotate env when w fs = (e, w1, fs1)" by (cases "doRotate env when w fs")
  have due: "fw_Rotate w" "needRotate (length (file_line when msg)) (tm_day when) w" "\<not> snd (free_name w when fs)"
    using assms(6) by (auto simp: rotates_def)
  with doRotate_healthy [OF assms(1,2) r assms(5)] obtain fName where
    f: "content fs fName = None" "file_wf w1 fs1" "healthy env w1" "same_settings w w1"
       "fw_dailyOpenDate w1 = tm_day (os_now env)" "content fs1 fName = Some old" "content fs1 (fw_Filename w) = Some []"
       "\<forall>n. n \<noteq> fName \<longrightarrow> n \<noteq> fw_Filename w \<longrightarrow> content fs1 n = content fs n"
    by auto
  then have fn: "fw_Filename w1 = fw_Filename w" by (simp add: same_settings_def)
  have "content (report (fw_Filename w1) e fs1) (fw_Filename w1) = Some []" "file_wf w1 (report (fw_Filename w1) e fs1)" using f fn by simp_all
  then obtain fs2 where w: "write_handle env (fw_fileWriter w1) (file_line when msg) (report (fw_Filename w1) e fs1) = (None, fs2)" "file_wf w1 fs2"
      "content fs2 (fw_Filename w) = Some (file_line when msg)" "\<forall>n. n \<noteq> fw_Filename w \<longrightarrow> content fs2 n = content fs1 n"
    using write_healthy [of w1 "report (fw_Filename w1) e fs1" env "[]" "file_line when msg"] f(3) fn by auto
  have "fName \<noteq> fw_Filename w" using f(1) assms(5) by auto
  moreover define w2 where "w2 = w1\<lparr>fw_maxLinesCurLines := fw_maxLinesCurLines w1 + 1,
      fw_maxSizeCurSize := fw_maxSizeCurSize w1 + int (length (file_line when msg))\<rparr>"
  moreover have "file_WriteMsg env when msg level w fs = Some (None, w2, fs2)"
    using due(1,2) r w(1) assms(3,4)
    by (simp add: file_WriteMsg_def formatTimeHeader_text file_line_def Let_def w2_def)
  ultimately show ?thesis using f w by (auto simp: w2_def same_settings_def intro!: exI [of _ fName])
qed

text \<open>The file writer as an adapter: a message comes with the answers of the system.\<close>

type_synonym file_msg = "os_env \<times> time \<times> string \<times> level"

definition file_write :: "file_msg \<Rightarrow> fileLogWriter \<times> files \<Rightarrow> (fileLogWriter \<times> files) option" where
  "file_write m s =
     (case m of (env, when, msg, l) \<Rightarrow> map_option snd (file_WriteMsg env when msg (level_num l) (fst s) (snd s)))"

definition file_ok :: "fileLogWriter \<Rightarrow> file_msg \<Rightarrow> bool" where
  "file_ok w m \<longleftrightarrow> healthy (fst m) w \<and> time_ok (fst (snd m))"

definition file_holds :: "fileLogWriter \<times> files \<Rightarrow> string \<Rightarrow> bool" where
  "file_holds s x \<longleftrightarrow> (\<exists>n c. content (snd s) n = Some c \<and> sublist x c)"

definition file_settings :: "fileLogWriter \<Rightarrow> string \<times> int \<times> bool \<times> bool \<times> string" where
  "file_settings w = (fw_Filename w, fw_Level w, fw_Rotate w, fw_Daily w, fw_Perm w)"

lemma same_settings_iff: "same_settings w w' \<longleftrightarrow> file_settings w' = file_settings w"
  by (auto simp: same_settings_def file_settings_def)

lemma file_wf_content: "file_wf w fs \<Longrightarrow> \<exists>old. content fs (fw_Filename w) = Some old"
  by (auto simp: file_wf_def content_def)

lemma file_holdsI: "content fs n = Some c \<Longrightarrow> sublist x c \<Longrightarrow> file_holds (w, fs) x"
  by (auto simp: file_holds_def)

lemma file_write_step:
  assumes "file_wf w fs" "file_ok w (env, when, msg, l)"
  shows "\<exists>w' fs'. file_write (env, when, msg, l) (w, fs) = Some (w', fs') \<and> file_wf w' fs' \<and> same_settings w w'
    \<and> (int (level_num l) \<le> fw_Level w \<longrightarrow> file_holds (w', fs') (file_line when msg))
    \<and> (\<forall>x. file_holds (w, fs) x \<longrightarrow> file_holds (w', fs') x)"
proof -
  obtain old where old: "content fs (fw_Filename w) = Some old" using file_wf_content [OF assms(1)] by blast
  have ok: "healthy env w" "time_ok when" using assms(2) by (simp_all add: file_ok_def)
  consider "int (level_num l) > fw_Level w" | "int (level_num l) \<le> fw_Level w" "\<not> rotates when msg w fs"
    | "int (level_num l) \<le> fw_Level w" "rotates when msg w fs" by linarith
  then show ?thesis
  proof cases
    case 1
    with assms(1) show ?thesis by (auto simp: file_write_def file_WriteMsg_def same_settings_def)
  next
    case 2
    from write_no_rotation [OF assms(1) ok 2(1) old 2(2)] obtain w' fs' where
      "file_WriteMsg env when msg (level_num l) w fs = Some (None, w', fs')" "file_wf w' fs'" "same_settings w w'"
      and c: "content fs' (fw_Filename w) = Some (old @ file_line when msg)" "\<And>n. n \<noteq> fw_Filename w \<Longrightarrow> content fs' n = content fs n"
      by blast
    moreover have "file_holds (w', fs') x" if h: "file_holds (w, fs) x" for x
    proof -
      obtain n s where n: "content fs n = Some s" "sublist x s" using h by (auto simp: file_holds_def)
      show ?thesis
      proof (cases "n = fw_Filename w")
        case True
        with n old show ?thesis by (auto intro: file_holdsI [OF c(1) sublist_grow])
      next
        case False
        with n show ?thesis using file_holdsI [of fs' n s] c(2) by simp
      qed
    qed
    moreover have "file_holds (w', fs') (file_line when msg)"
      by (rule file_holdsI [OF c(1)]) simp
    ultimately show ?thesis by (simp add: file_write_def)
  next
    case 3
    from write_rotation [OF assms(1) ok 3(1) old 3(2)] obtain w' fs' fName where
      "file_WriteMsg env when msg (level_num l) w fs = Some (None, w', fs')" "file_wf w' fs'" "same_settings w w'"
      and c: "content fs fName = None" "content fs' fName = Some old" "content fs' (fw_Filename w) = Some (file_line when msg)"
        "\<And>n. n \<noteq> fName \<Longrightarrow> n \<noteq> fw_Filename w \<Longrightarrow> content fs' n = content fs n"
      by blast
    moreover have "file_holds (w', fs') x" if h: "file_holds (w, fs) x" for x
    proof -
      obtain n s where n: "content fs n = Some s" "sublist x s" using h by (auto simp: file_holds_def)
      show ?thesis
      proof (cases "n = fw_Filename w")
        case True
        with n old show ?thesis using file_holdsI [OF c(2)] by simp
      next
        case False
        moreover have "n \<noteq> fName" using n(1) c(1) by auto
        ultimately show ?thesis using n file_holdsI [of fs' n s] c(4) by simp
      qed
    qed
    moreover have "file_holds (w', fs') (file_line when msg)"
      by (rule file_holdsI [OF c(3)]) simp
    ultimately show ?thesis by (simp add: file_write_def)
  qed
qed

interpretation file_log: log_adapter file_write "\<lambda>s. file_wf (fst s) (snd s)" "\<lambda>s. file_settings (fst s)"
    "\<lambda>c m. \<exists>w. file_settings w = c \<and> file_ok w m" "\<lambda>c m. int (level_num (snd (snd (snd m)))) \<le> fst (snd c)"
    "\<lambda>c m. file_line (fst (snd m)) (fst (snd (snd m)))" file_holds
proof unfold_locales
  have ok: "file_ok w m" if "file_settings v = file_settings w" "file_ok v m" for v w m
    using that by (simp add: file_ok_def healthy_def file_settings_def)
  fix s m
  assume i: "file_wf (fst s) (snd s)" and o: "\<exists>w. file_settings w = file_settings (fst s) \<and> file_ok w m"
  obtain env t msg l where m: "m = (env, t, msg, l)" by (cases m)
  from o ok have "file_ok (fst s) (env, t, msg, l)" unfolding m by blast
  from file_write_step [OF i this] obtain w' fs' where
    r: "file_write m s = Some (w', fs')" "file_wf w' fs'" "same_settings (fst s) w'"
      "int (level_num l) \<le> fw_Level (fst s) \<longrightarrow> file_holds (w', fs') (file_line t msg)"
      "\<forall>x. file_holds s x \<longrightarrow> file_holds (w', fs') x"
    by (auto simp: m)
  then show "\<exists>s'. file_write m s = Some s' \<and> file_wf (fst s') (snd s') \<and> file_settings (fst s') = file_settings (fst s)"
    by (auto simp: same_settings_iff)
  fix s'
  assume s': "file_write m s = Some s'"
  show "file_holds s' (file_line (fst (snd m)) (fst (snd (snd m))))"
    if "int (level_num (snd (snd (snd m)))) \<le> fst (snd (file_settings (fst s)))"
    using r s' that by (simp add: m file_settings_def)
  show "file_holds s' x" if "file_holds s x" for x
    using r s' that by simp
qed


text \<open>
  One message: without a rotation it is the end of the file, and with one the whole
  file gets a name that did not exist before, the new file has exactly the new line, and
  no other file changes. When the day of the message is not the day on which it is
  written, as for a message that waited in the queue over midnight, the new file is due
  for rotation again for the next message of that day.
\<close>

theorem file_rotation:
  assumes "file_wf w fs" and "healthy env w" and "time_ok when" and "int level \<le> fw_Level w"
    and "content fs (fw_Filename w) = Some old"
  shows "\<exists>w' fs'. file_WriteMsg env when msg level w fs = Some (None, w', fs') \<and> file_wf w' fs'
    \<and> (if rotates when msg w fs
       then (\<exists>fName. content fs fName = None
          \<and> content fs' = (content fs)(fName \<mapsto> old, fw_Filename w \<mapsto> file_line when msg))
          \<and> (\<forall>n. fw_Daily w \<longrightarrow> tm_day when \<noteq> tm_day (os_now env) \<longrightarrow> needRotate n (tm_day when) w')
       else content fs' = (content fs)(fw_Filename w \<mapsto> old @ file_line when msg))"
proof (cases "rotates when msg w fs")
  case True
  from write_rotation [OF assms True] obtain w' fs' fName where
    "file_WriteMsg env when msg level w fs = Some (None, w', fs')" "file_wf w' fs'" "same_settings w w'"
    "content fs fName = None" "fw_dailyOpenDate w' = tm_day (os_now env)"
    and c: "content fs' fName = Some old" "content fs' (fw_Filename w) = Some (file_line when msg)"
    "\<forall>n. n \<noteq> fName \<longrightarrow> n \<noteq> fw_Filename w \<longrightarrow> content fs' n = content fs n" by blast
  moreover from c have "content fs' = (content fs)(fName \<mapsto> old, fw_Filename w \<mapsto> file_line when msg)"
    by (auto simp: fun_eq_iff)
  ultimately show ?thesis using True by (auto simp: needRotate_def same_settings_def)
next
  case False
  from write_no_rotation [OF assms False] obtain w' fs' where
    "file_WriteMsg env when msg level w fs = Some (None, w', fs')" "file_wf w' fs'"
    and c: "content fs' (fw_Filename w) = Some (old @ file_line when msg)" "\<forall>n. n \<noteq> fw_Filename w \<longrightarrow> content fs' n = content fs n" by blast
  moreover from c have "content fs' = (content fs)(fw_Filename w \<mapsto> old @ file_line when msg)" by (auto simp: fun_eq_iff)
  ultimately show ?thesis using False by auto
qed

section \<open>What the removal removes\<close>

lemma deleteOldLog_names:
  "fs_names (deleteOldLog env w walk fs) p = (if p \<in> set walk \<and> old_log env w fs p then None else fs_names fs p)
    \<and> fs_data (deleteOldLog env w walk fs) = fs_data fs \<and> fs_mtime (deleteOldLog env w walk fs) = fs_mtime fs"
proof (induction walk arbitrary: fs)
  case (Cons q walk)
  have "old_log env w (fs\<lparr>fs_names := (fs_names fs)(q := None)\<rparr>) p \<longleftrightarrow> p \<noteq> q \<and> old_log env w fs p"
    by (auto simp: old_log_def split: option.splits)
  with Cons.IH show ?case by auto
qed simp

lemma path_base_plain: "p \<noteq> [] \<Longrightarrow> CHR ''/'' \<notin> set p \<Longrightarrow> path_base p = p"
proof -
  assume p: "p \<noteq> []" "CHR ''/'' \<notin> set p"
  then obtain q x where "p = q @ [x]" "x \<noteq> CHR ''/''" by (cases p rule: rev_cases) auto
  then have "dropWhile (\<lambda>c. c = CHR ''/'') (rev p) = rev p" by simp
  with p show ?thesis by (simp add: path_base_def file_base_def rcut_None [THEN iffD2])
qed

lemma has_suffix_append [simp]: "has_suffix (s @ t) t"
  by (simp add: has_suffix_def)


section \<open>A sample\<close>

definition sample_env :: os_env where
  "sample_env = \<lparr>os_now = sample_time, os_now_ns = 1000, os_open_ok = (\<lambda>n. True), os_read_ok = (\<lambda>n. True),
     os_stat_ok = True, os_rename_ok = True, os_chmod_ok = True, os_write = (\<lambda>s. None)\<rparr>"

definition no_files :: files where
  "no_files = \<lparr>fs_names = Map.empty, fs_data = (\<lambda>i. []), fs_mtime = (\<lambda>i. 0), fs_next = 0, fs_stderr = []\<rparr>"

lemma sample_config: "unmarshal_into member_fileLogWriter (bytes_of (Init_param ''a.log'' 0)) newFileWriter
   = (True, newFileWriter\<lparr>fw_Filename := ''a.log'', fw_MaxDays := 0\<rparr>)"
  by code_simp

definition sample_fw :: fileLogWriter where
  "sample_fw = newFileWriter\<lparr>fw_Filename := ''a.log'', fw_MaxDays := 0, fw_suffix := ''.log'', fw_fileNameOnly := ''a'',
     fw_fileWriter := Some (0, True), fw_dailyOpenTime := sample_time, fw_dailyOpenDate := 9, fw_timers := [sample_time]\<rparr>"

definition sample_files :: files where
  "sample_files = no_files\<lparr>fs_names := [''a.log'' \<mapsto> 0], fs_mtime := (fs_mtime no_files)(0 := 1000), fs_next := 1\<rparr>"

lemma perm_0660: "parse_oct ''0660'' = Some 432"
  by (simp add: parse_oct_def parse_oct_nat_def is_digit_def digit_val_def)

lemma sample_Init: "file_Init sample_env (Init_param ''a.log'' 0) newFileWriter no_files = (None, sample_fw, sample_files)"
proof -
  have e: "file_ext ''a.log'' = ''.log''" "trim_suffix ''a.log'' ''.log'' = ''a''" by code_simp+
  show ?thesis
    unfolding file_Init_def sample_config
    by (simp add: e file_startLogger_def createLogFile_def newFileWriter_def perm_0660 open_append_def
        sample_env_def no_files_def initFd_def sample_fw_def sample_files_def sample_time_def fun_eq_iff Let_def)
qed

lemma sample_wf: "file_wf sample_fw sample_files" "healthy sample_env sample_fw" "time_ok sample_time"
    "content sample_files (fw_Filename sample_fw) = Some []" "int 3 \<le> fw_Level sample_fw"
  by (simp_all add: file_wf_def sample_fw_def sample_files_def no_files_def newFileWriter_def healthy_def sample_env_def perm_0660
      time_ok_def sample_time_def content_def LevelTrace_def)


definition tomorrow_env :: os_env where
  "tomorrow_env = sample_env\<lparr>os_now := sample_time\<lparr>tm_day := 10\<rparr>\<rparr>"

theorem file_rotation_witness:
  "\<exists>w' fs'. file_WriteMsg tomorrow_env sample_time ''up'' 3 (sample_fw\<lparr>fw_dailyOpenDate := 10\<rparr>) sample_files = Some (None, w', fs')
     \<and> content fs' ''a.log'' = Some (file_line sample_time ''up'') \<and> needRotate 0 9 w'"
proof -
  let ?w = "sample_fw\<lparr>fw_dailyOpenDate := 10\<rparr>"
  have h: "file_wf ?w sample_files" "healthy tomorrow_env ?w" "content sample_files (fw_Filename ?w) = Some []" "int 3 \<le> fw_Level ?w"
    using sample_wf by (simp_all add: file_wf_def healthy_def tomorrow_env_def sample_env_def)
  have d: "fw_MaxLines ?w = 0" "fw_MaxSize ?w = 0" "fw_dailyOpenTime ?w = sample_time" "fw_Filename ?w = ''a.log''" "fw_Daily ?w"
      "fw_fileNameOnly ?w = ''a''" "fw_suffix ?w = ''.log''" "fw_Rotate ?w" "tm_day sample_time = 9" "tm_day (os_now tomorrow_env) = 10"
    by (simp_all add: sample_fw_def newFileWriter_def sample_time_def tomorrow_env_def)
  have "dated_name ?w sample_time \<noteq> ''a.log''"
  proof
    assume "dated_name ?w sample_time = ''a.log''"
    then have "length (dated_name ?w sample_time) = length ''a.log''" by (simp only:)
    then show False by (simp add: dated_name_def date_text_def d)
  qed
  then have "\<not> snd (free_name ?w sample_time sample_files)"
    using d by (simp add: free_name_def sample_files_def no_files_def free_loop.simps Let_def)
  then have "rotates sample_time ''up'' ?w sample_files" using d by (simp add: rotates_def needRotate_def)
  with file_rotation [OF h(1,2) sample_wf(3) h(4,3), of "''up''"] d show ?thesis by auto
qed


section \<open>A file for each level\<close>

text \<open>
  \<open>multiFileLogWriter\<close>: the last of the nine writers is the full one, to which
  \<open>fullLogWriter\<close> points.
\<close>

definition file_Flush :: "fileLogWriter \<Rightarrow> files \<Rightarrow> fileLogWriter \<times> files" where
  "file_Flush w fs = (w, fs)"

record multiFileLogWriter =
  mf_writers :: "fileLogWriter option list"
  mf_Separate :: "string list"

definition levelNames :: "string list" where
  "levelNames = [''emergency'', ''alert'', ''critical'', ''error'', ''warning'', ''notice'', ''info'', ''debug'']"

definition newFilesWriter :: multiFileLogWriter where
  "newFilesWriter = \<lparr>mf_writers = replicate 9 None, mf_Separate = []\<rparr>"

text \<open>An element that is not a string is left empty.\<close>

definition member_multiFile :: "multiFileLogWriter member_step" where
  "member_multiFile m st =
     (let (k, v) = m in
      if \<not> key_is ''separate'' k then st
      else case v of
        JArr vs \<Rightarrow>
          (fst st \<and> (\<forall>x \<in> set vs. case x of JStr s \<Rightarrow> True | JNull \<Rightarrow> True | _ \<Rightarrow> False),
           (snd st)\<lparr>mf_Separate := map (\<lambda>x. case x of JStr s \<Rightarrow> s | _ \<Rightarrow> []) vs\<rparr>)
      | JNull \<Rightarrow> (fst st, (snd st)\<lparr>mf_Separate := []\<rparr>)
      | _ \<Rightarrow> (False, snd st))"

text \<open>
  A document that goes through a \<open>map[string]interface{}\<close>: of equal keys the last one
  counts, the keys are sorted, and numbers become floating-point numbers; how these are
  printed is the parameter \<open>fl\<close>.
\<close>

definition sorted_members :: "(string \<times> json) list \<Rightarrow> (string \<times> json) list" where
  "sorted_members ms = map (\<lambda>k. (k, the (map_of (rev ms) k))) (sorted_list_of_set (set (map fst ms)))"

function renormal :: "(string \<Rightarrow> string) \<Rightarrow> json \<Rightarrow> json" where
  "renormal fl (JNum s) = JNum (fl s)"
| "renormal fl (JArr vs) = JArr (map (renormal fl) vs)"
| "renormal fl (JObj ms) = JObj (sorted_members (map (\<lambda>m. (fst m, renormal fl (snd m))) ms))"
| "renormal fl (JStr s) = JStr s"
| "renormal fl (JBool b) = JBool b"
| "renormal fl JNull = JNull"
  by pat_completeness auto
termination
  by (relation "measure (\<lambda>(fl, v). size v)")
     (auto simp: less_Suc_eq_le intro!: size_list_estimation' dest: size_list_estimation')

definition json_members :: "(string \<Rightarrow> string) \<Rightarrow> string \<Rightarrow> (string \<times> json) list" where
  "json_members fl config =
     (case json_parse config of
        Some (JObj ms) \<Rightarrow> (case renormal fl (JObj ms) of JObj ns \<Rightarrow> ns | _ \<Rightarrow> [])
      | _ \<Rightarrow> [])"

definition level_config :: "(string \<Rightarrow> string) \<Rightarrow> string \<Rightarrow> fileLogWriter \<Rightarrow> nat \<Rightarrow> string" where
  "level_config fl config full i =
     json_print (JObj (sorted_members (json_members fl config
       @ [(''filename'', JStr (fw_fileNameOnly full @ ''.'' @ (levelNames ! i) @ fw_suffix full)), (''level'', JNum (dec i))])))"

text \<open>The two loops of \<open>Init\<close>, as one over the pairs of a level and a name.\<close>

fun init_levels ::
  "os_env \<Rightarrow> (string \<Rightarrow> string) \<Rightarrow> string \<Rightarrow> fileLogWriter \<Rightarrow> (nat \<times> string) list
     \<Rightarrow> fileLogWriter option list \<Rightarrow> files \<Rightarrow> fileLogWriter option list \<times> files" where
  "init_levels env fl config full [] ws fs = (ws, fs)"
| "init_levels env fl config full ((i, v) # ivs) ws fs =
     (if v = levelNames ! i
      then (case file_Init env (level_config fl config full i) newFileWriter fs of
              (err, writer, fs) \<Rightarrow> init_levels env fl config full ivs (ws[i := Some writer]) fs)
      else init_levels env fl config full ivs ws fs)"

definition multi_Init ::
  "os_env \<Rightarrow> (string \<Rightarrow> string) \<Rightarrow> string \<Rightarrow> multiFileLogWriter \<Rightarrow> files \<Rightarrow> file_error option \<times> multiFileLogWriter \<times> files" where
  "multi_Init env fl config f fs =
     (case file_Init env config newFileWriter fs of
        (Some err, writer, fs) \<Rightarrow> (Some err, f, fs)
      | (None, writer, fs) \<Rightarrow>
          (let f = f\<lparr>mf_writers := (mf_writers f)[8 := Some writer]\<rparr>;
               f = snd (unmarshal_into member_multiFile (bytes_of config) f);
               (ws, fs) = init_levels env fl config writer (List.product [0..<8] (mf_Separate f)) (mf_writers f) fs
           in (None, f\<lparr>mf_writers := ws\<rparr>, fs)))"

text \<open>The writers of the levels from \<open>i\<close> on; an error of a writer is dropped.\<close>

fun write_levels ::
  "os_env \<Rightarrow> time \<Rightarrow> string \<Rightarrow> nat \<Rightarrow> fileLogWriter option list \<Rightarrow> files \<Rightarrow> (fileLogWriter option list \<times> files) option" where
  "write_levels env when msg level [] fs = Some ([], fs)"
| "write_levels env when msg level (w # ws) fs =
     Option.bind
       (case w of
          None \<Rightarrow> Some (w, fs)
        | Some w' \<Rightarrow>
            if int level = fw_Level w'
            then map_option (\<lambda>(err, w', fs). (Some w', fs)) (file_WriteMsg env when msg level w' fs)
            else Some (w, fs))
       (\<lambda>(w, fs). map_option (\<lambda>(ws, fs). (w # ws, fs)) (write_levels env when msg level ws fs))"

definition multi_WriteMsg ::
  "os_env \<Rightarrow> time \<Rightarrow> string \<Rightarrow> nat \<Rightarrow> multiFileLogWriter \<Rightarrow> files \<Rightarrow> (multiFileLogWriter \<times> files) option" where
  "multi_WriteMsg env when msg level f fs =
     Option.bind
       (case mf_writers f ! 8 of
          None \<Rightarrow> Some (None, fs)
        | Some w \<Rightarrow> map_option (\<lambda>(err, w, fs). (Some w, fs)) (file_WriteMsg env when msg level w fs))
       (\<lambda>(full, fs). map_option (\<lambda>(ws, fs). (f\<lparr>mf_writers := ws @ [full]\<rparr>, fs))
          (write_levels env when msg level (take 8 (mf_writers f)) fs))"

definition multi_Destroy :: "multiFileLogWriter \<Rightarrow> multiFileLogWriter" where
  "multi_Destroy f = f\<lparr>mf_writers := map (map_option file_Destroy) (mf_writers f)\<rparr>"

text \<open>Without separate levels it is a file writer whose errors are dropped.\<close>

lemma write_levels_none: "\<forall>w \<in> set ws. w = None \<Longrightarrow> write_levels env t msg l ws fs = Some (ws, fs)"
  by (induction ws) auto

lemma multi_single:
  "mf_writers f = replicate 8 None @ [Some w] \<Longrightarrow>
   multi_WriteMsg env t msg l f fs =
     map_option (\<lambda>(err, w, fs). (f\<lparr>mf_writers := replicate 8 None @ [Some w]\<rparr>, fs)) (file_WriteMsg env t msg l w fs)"
  by (cases "file_WriteMsg env t msg l w fs") (simp_all add: multi_WriteMsg_def write_levels_none nth_append split_beta)

end
