(* ===== verification/Startup.thy ===== *)
theory Startup
  imports Server Tcp_Forward Udp_Forward Log_File
begin

text \<open>
  The start of the server program (\<open>opennotrd/run.go\<close> and the configuration of
  \<open>opennotrd/core/config.go\<close>): the stages in their order, each of which ends the program
  when it fails, with what is logged about it.
\<close>

section \<open>Configuration\<close>

record DHCPConfig =
  dc_Cidr :: string
  dc_IP :: string

record ResolverConfig =
  rc_EtcdEndpoints :: "string list"

text \<open>The map of plugins is the list of its entries in the order of the iteration.\<close>

record Config =
  cfg_Server :: ServerConfig
  cfg_DHCP :: DHCPConfig
  cfg_Resolver :: ResolverConfig
  cfg_TCPForward :: TCPForwardConfig
  cfg_UDPForward :: UDPForwardConfig
  cfg_Plugins :: "(string \<times> string) list"

text \<open>
  What the program meets outside: the files, the YAML library, the etcd client, the
  network, the answer about the public address, and the system calls of the two
  forwarders.
\<close>

record host =
  ho_ReadFile :: "string \<Rightarrow> byte list option"
  ho_yaml :: "byte list \<Rightarrow> Config option"
  ho_NewResolve :: "string list \<Rightarrow> bool"
  ho_net :: network
  ho_answer :: "string option"
  ho_tcp :: "bool \<times> bool \<times> bool"
  ho_udp :: "bool list"

definition ParseConfig :: "host \<Rightarrow> string \<Rightarrow> Config option" where
  "ParseConfig h path =
     (case ho_ReadFile h path of
        None \<Rightarrow> None
      | Some cnt \<Rightarrow> ho_yaml h cnt)"

section \<open>The stages\<close>

text \<open>How \<open>Run\<close> ends; the last case is the server that is listening.\<close>

datatype run_end =
    ConfigFailed
  | DHCPFailed dhcp_error
  | SetupFailed plugin_error
  | ResolveFailed
  | TCPListenFailed
  | UDPListenFailed
  | PublicIPPanics
  | Running server TCPForward UDPForward

text \<open>The values that are formatted into messages.\<close>

datatype run_value = RV_Config Config | RV_DHCP dhcp_error | RV_Plugin plugin_error | RV_Other

text \<open>The logger with all that a call of it needs.\<close>

record ('a, 'w) logging =
  lo_Sprint :: "run_value \<Rightarrow> string"
  lo_Sprintf :: "string \<Rightarrow> run_value list \<Rightarrow> string"
  lo_ops :: "('a, 'w) Logger"
  lo_adapters :: "'a adapter_table"
  lo_site :: call_site

definition log_fail ::
  "('a, 'w) logging \<Rightarrow> string \<Rightarrow> run_value \<Rightarrow> run_end \<Rightarrow> ('a, 'w) BeeLogger \<Rightarrow> (run_end \<times> ('a, 'w) BeeLogger) outcome" where
  "log_fail lo msg v e bl =
     and_then (Error (lo_Sprint lo) (lo_Sprintf lo) (lo_ops lo) (lo_adapters lo) (lo_site lo) (FmtString msg) [v] bl)
       (\<lambda>bl. Done (e, bl))"

text \<open>What follows when the configuration has been read and logged.\<close>

definition run_forwarders ::
  "host \<Rightarrow> ('a, 'w) logging \<Rightarrow> Config \<Rightarrow> DHCP \<Rightarrow> world \<Rightarrow> ('a, 'w) BeeLogger \<Rightarrow> (run_end \<times> ('a, 'w) BeeLogger) outcome" where
  "run_forwarders h lo cfg dhcp w bl =
     (let tcpfw = NewTCPForward (cfg_TCPForward cfg) in
      case ho_tcp h of (listened, filed, transparent) \<Rightarrow>
      if \<not> fst (TCPForward_Listen listened filed transparent)
      then log_fail lo ''listen tproxy tcp fail: %v'' RV_Other TCPListenFailed bl
      else
        let udpfw = NewUDPForward (cfg_UDPForward cfg) in
        if \<not> fst (UDPForward_Listen (ho_udp h))
        then log_fail lo ''listen tproxy udp fail: %v'' RV_Other UDPListenFailed bl
        else
          (case NewServer (cfg_Server cfg) dhcp (length (rc_EtcdEndpoints (cfg_Resolver cfg)) > 0) (ho_net h) w (ho_answer h) of
             None \<Rightarrow> Done (PublicIPPanics, bl)
           | Some s \<Rightarrow> Done (Running s tcpfw udpfw, bl)))"

definition run_stages ::
  "host \<Rightarrow> ('a, 'w) logging \<Rightarrow> Config \<Rightarrow> ('a, 'w) BeeLogger \<Rightarrow> (run_end \<times> ('a, 'w) BeeLogger) outcome" where
  "run_stages h lo cfg bl =
     (case NewDHCP (dc_Cidr (cfg_DHCP cfg)) of
        Inl err \<Rightarrow> log_fail lo ''new dhcp module fail: %v'' (RV_DHCP err) (DHCPFailed err) bl
      | Inr dhcp \<Rightarrow>
          (case Setup (cfg_Plugins cfg) (registered (ho_net h)) initial_world of
             (Some err, w) \<Rightarrow> log_fail lo ''setup plugin fail: %v'' (RV_Plugin err) (SetupFailed err) bl
           | (None, w) \<Rightarrow>
               if length (rc_EtcdEndpoints (cfg_Resolver cfg)) > 0 \<and> \<not> ho_NewResolve h (rc_EtcdEndpoints (cfg_Resolver cfg))
               then log_fail lo ''new resolve fail: %v'' RV_Other ResolveFailed bl
               else run_forwarders h lo cfg dhcp w bl))"

definition Run ::
  "host \<Rightarrow> ('a, 'w) logging \<Rightarrow> string \<Rightarrow> ('a, 'w) BeeLogger \<Rightarrow> (run_end \<times> ('a, 'w) BeeLogger) outcome" where
  "Run h lo confpath beeLogger =
     (case ParseConfig h confpath of
        None \<Rightarrow> Done (ConfigFailed, beeLogger)
      | Some cfg \<Rightarrow>
          and_then (Info (lo_Sprint lo) (lo_Sprintf lo) (lo_ops lo) (lo_adapters lo) (lo_site lo) (FmtString ''config: %v'') [RV_Config cfg]
              (Init (lo_ops lo) (lo_adapters lo) ''opennotrd.log'' ''info'' 10 beeLogger))
            (run_stages h lo cfg))"

section \<open>What a started server is\<close>

lemma log_fail_end: "log_fail lo msg v e bl = Done (e', bl') \<Longrightarrow> e' = e"
  by (auto simp: log_fail_def)

lemma Setup_up: "Setup plugins (registered nw) initial_world = (e, w) \<Longrightarrow> w = plugins_up nw plugins"
  by (simp add: plugins_up_def)

lemma NewDHCP_inv: "NewDHCP cidr = Inr g \<Longrightarrow> dhcp_inv (set (dh_free g)) g \<and> dh_inuse g = []"
  by (auto simp: NewDHCP_def dhcp_inv_def fill_free_distinct split: sum.splits)

text \<open>A run that gets to the end has passed every stage.\<close>

lemma Run_Running:
  assumes "Run h lo confpath bl = Done (Running s tcpfw udpfw, bl')"
  shows "\<exists>cfg dhcp w. ParseConfig h confpath = Some cfg \<and> NewDHCP (dc_Cidr (cfg_DHCP cfg)) = Inr dhcp
    \<and> Setup (cfg_Plugins cfg) (registered (ho_net h)) initial_world = (None, w)
    \<and> tcpfw = NewTCPForward (cfg_TCPForward cfg) \<and> udpfw = NewUDPForward (cfg_UDPForward cfg)
    \<and> fst (UDPForward_Listen (ho_udp h))
    \<and> NewServer (cfg_Server cfg) dhcp (rc_EtcdEndpoints (cfg_Resolver cfg) \<noteq> []) (ho_net h) w (ho_answer h) = Some s"
  using assms
proof -
  obtain cfg bl1 where cfg: "ParseConfig h confpath = Some cfg" and st: "run_stages h lo cfg bl1 = Done (Running s tcpfw udpfw, bl')"
    using assms by (auto simp: Run_def split: option.splits)
  obtain dhcp where dhcp: "NewDHCP (dc_Cidr (cfg_DHCP cfg)) = Inr dhcp"
    using st by (auto simp: run_stages_def split: sum.splits dest: log_fail_end)
  obtain w where w: "Setup (cfg_Plugins cfg) (registered (ho_net h)) initial_world = (None, w)"
    using st dhcp by (auto simp: run_stages_def split: prod.splits option.splits dest: log_fail_end)
  have fw: "run_forwarders h lo cfg dhcp w bl1 = Done (Running s tcpfw udpfw, bl')"
    using st dhcp w by (auto simp: run_stages_def split: if_splits dest: log_fail_end)
  obtain a b c where t: "ho_tcp h = (a, b, c)" by (cases "ho_tcp h")
  have l: "fst (TCPForward_Listen a b c)" "fst (UDPForward_Listen (ho_udp h))"
    using fw by (auto simp: run_forwarders_def t Let_def split: if_splits dest: log_fail_end)
  then show ?thesis using cfg dhcp w fw
    by (auto simp: run_forwarders_def t Let_def split: option.splits)
qed


section \<open>A sample\<close>

definition sample_cfg :: Config where
  "sample_cfg = \<lparr>cfg_Server = sample_config, cfg_DHCP = \<lparr>dc_Cidr = ''10.0.0.1/29'', dc_IP = []\<rparr>,
     cfg_Resolver = \<lparr>rc_EtcdEndpoints = []\<rparr>,
     cfg_TCPForward = \<lparr>tc_ListenAddr = '':4398'', tc_ReadTimeout = 0, tc_WriteTimeout = 0\<rparr>,
     cfg_UDPForward = \<lparr>uc_ListenAddr = '':4399'', uc_ReadTimeout = 0, uc_WriteTimeout = 0, uc_SessionTimeout = 0\<rparr>,
     cfg_Plugins = [(''tcp'', []), (''dummy'', [])]\<rparr>"

definition sample_host :: host where
  "sample_host = \<lparr>ho_ReadFile = (\<lambda>p. Some []), ho_yaml = (\<lambda>b. Some sample_cfg), ho_NewResolve = (\<lambda>e. False),
     ho_net = sample_net, ho_answer = Some [CHR ''9'', CHR 0x0A], ho_tcp = (True, True, True),
     ho_udp = [True, True, True, True, True, True, True]\<rparr>"

definition sample_logging :: "(consoleWriter, unit) logging" where
  "sample_logging = \<lparr>lo_Sprint = (\<lambda>v. []), lo_Sprintf = (\<lambda>f v. f), lo_ops = console_Logger True,
     lo_adapters = console_adapters True, lo_site = sample_site\<rparr>"

text \<open>Without a file adapter the logger is left without outputs, and logging does nothing.\<close>

lemma sample_log:
  "Info (lo_Sprint sample_logging) (lo_Sprintf sample_logging) (lo_ops sample_logging) (lo_adapters sample_logging)
     (lo_site sample_logging) f v (Init (lo_ops sample_logging) (lo_adapters sample_logging) p ''info'' d sample_logger)
   = Done (Init (lo_ops sample_logging) (lo_adapters sample_logging) p ''info'' d sample_logger)"
proof -
  define bl where "bl = Init (lo_ops sample_logging) (lo_adapters sample_logging) p ''info'' d sample_logger"
  have b: "bl_init bl" "bl_outputs bl = []" "\<not> bl_asynchronous bl" "bl_level bl = 6"
    by (simp_all add: bl_def Init_def SetLogger_def setLogger_def sample_logger_eq sample_logging_def console_adapters_def
        AdapterConsole_def AdapterFile_def Level_def levelMap_def LevelInfo_def bl_SetLevel_def bl_SetLogFuncCallDepth_def
        bl_EnableFuncCallDepth_def)
  then have "writeToLoggers ops m bl = Done bl" for ops :: "(consoleWriter, unit) Logger" and m
    by (cases bl) (simp add: writeToLoggers_def)
  moreover obtain m where "message_of (lo_Sprintf sample_logging) (lo_site sample_logging) (int (level_num LevelInformational))
      (formatLog (lo_Sprint sample_logging) (lo_Sprintf sample_logging) f v) [] bl = Some m"
    using message_of_level by blast
  ultimately show ?thesis unfolding bl_def [symmetric]
    using b by (simp add: Info_def level_methods log_at_def ready_writeMsg ready_def)
qed


end
