(* ===== verification/Log_Conn.thy ===== *)
theory Log_Conn
  imports Log
begin

text \<open>
  Logging to a connection (\<open>internal/logs/conn.go\<close>): when it connects, and what becomes of
  a message. The peer is a parameter: whether a dial succeeds and whether a write to an
  open connection does.
\<close>

section \<open>The writer\<close>

text \<open>
  A connection is its number and whether it is open; \<open>cn_received\<close> holds what the peers got.
\<close>

record connWriter =
  cn_innerWriter :: "(nat \<times> bool) option"
  cn_ReconnectOnMsg :: bool
  cn_Reconnect :: bool
  cn_Net :: string
  cn_Addr :: string
  cn_Level :: int
  cn_dialled :: nat
  cn_received :: "(nat \<times> string) list"

record conn_env =
  ce_dial :: "string \<Rightarrow> string \<Rightarrow> bool"
  ce_write :: "string \<Rightarrow> bool"

definition NewConn :: connWriter where
  "NewConn = \<lparr>cn_innerWriter = None, cn_ReconnectOnMsg = False, cn_Reconnect = False, cn_Net = [], cn_Addr = [],
     cn_Level = int (level_num LevelTrace), cn_dialled = 0, cn_received = []\<rparr>"

definition member_connWriter :: "connWriter member_step" where
  "member_connWriter m st =
     (let (k, v) = m in
      if key_is ''reconnectOnMsg'' k then set_bool (\<lambda>b c. c\<lparr>cn_ReconnectOnMsg := b\<rparr>) v st
      else if key_is ''reconnect'' k then set_bool (\<lambda>b c. c\<lparr>cn_Reconnect := b\<rparr>) v st
      else if key_is ''net'' k then set_str (\<lambda>s c. c\<lparr>cn_Net := s\<rparr>) v st
      else if key_is ''addr'' k then set_str (\<lambda>s c. c\<lparr>cn_Addr := s\<rparr>) v st
      else if key_is ''level'' k then set_int (\<lambda>i c. c\<lparr>cn_Level := i\<rparr>) v st
      else st)"

definition conn_Init :: "string \<Rightarrow> connWriter \<Rightarrow> bool \<times> connWriter" where
  "conn_Init jsonConfig c = unmarshal_into member_connWriter (bytes_of jsonConfig) c"

text \<open>\<open>connect\<close>: a connection that is there is dropped first; the result says whether the dial succeeded.\<close>

definition connect :: "conn_env \<Rightarrow> connWriter \<Rightarrow> bool \<times> connWriter" where
  "connect env c =
     (if ce_dial env (cn_Net c) (cn_Addr c)
      then (True, c\<lparr>cn_innerWriter := Some (cn_dialled c, True), cn_dialled := cn_dialled c + 1\<rparr>)
      else (False, c\<lparr>cn_innerWriter := None\<rparr>))"

definition needToConnectOnMsg :: "connWriter \<Rightarrow> bool \<times> connWriter" where
  "needToConnectOnMsg c =
     (if cn_Reconnect c then (True, c\<lparr>cn_Reconnect := False\<rparr>)
      else if cn_innerWriter c = None then (True, c)
      else (cn_ReconnectOnMsg c, c))"

definition conn_close :: "connWriter \<Rightarrow> connWriter" where
  "conn_close c = c\<lparr>cn_innerWriter := map_option (\<lambda>(n, b). (n, False)) (cn_innerWriter c)\<rparr>"

text \<open>\<open>println\<close> on the connection; what the write returns is not looked at.\<close>

definition conn_println :: "conn_env \<Rightarrow> string \<Rightarrow> connWriter \<Rightarrow> connWriter" where
  "conn_println env s c =
     (case cn_innerWriter c of
        Some (n, True) \<Rightarrow> if ce_write env s then c\<lparr>cn_received := cn_received c @ [(n, s)]\<rparr> else c
      | _ \<Rightarrow> c)"

text \<open>\<open>WriteMsg\<close>, with whether it returns without an error; the outer \<open>None\<close> is a panic.\<close>

definition conn_WriteMsg :: "conn_env \<Rightarrow> time \<Rightarrow> string \<Rightarrow> nat \<Rightarrow> connWriter \<Rightarrow> (bool \<times> connWriter) option" where
  "conn_WriteMsg env when msg level c =
     (if int level > cn_Level c then Some (True, c)
      else
        let (need, c) = needToConnectOnMsg c;
            (ok, c) = (if need then connect env c else (True, c)) in
        if \<not> ok then Some (False, c)
        else map_option (\<lambda>s.
               let c = conn_println env s c
               in (True, if cn_ReconnectOnMsg c then conn_close c else c)) (logWriter_println when msg))"

definition conn_Destroy :: "connWriter \<Rightarrow> connWriter" where
  "conn_Destroy c = conn_close c"

section \<open>What becomes of a message\<close>

lemma println_text: "time_ok t \<Longrightarrow> logWriter_println t msg = Some (header_text t @ msg @ [CHR 0x0A])"
  by (simp add: logWriter_println_def formatTimeHeader_text)

text \<open>With \<open>reconnectOnMsg\<close> each message has its own connection, which is closed after it.\<close>

lemma conn_each:
  assumes "cn_ReconnectOnMsg c" "ce_dial env (cn_Net c) (cn_Addr c)" "ce_write env (header_text t @ msg @ [CHR 0x0A])"
    and "time_ok t" "int l \<le> cn_Level c"
  shows "\<exists>c'. conn_WriteMsg env t msg l c = Some (True, c')
    \<and> cn_received c' = cn_received c @ [(cn_dialled c, header_text t @ msg @ [CHR 0x0A])]
    \<and> cn_innerWriter c' = Some (cn_dialled c, False) \<and> cn_dialled c' = cn_dialled c + 1"
  using assms
  by (simp add: conn_WriteMsg_def needToConnectOnMsg_def connect_def conn_println_def conn_close_def println_text Let_def)

text \<open>
  Without it a connection that has broken is kept: every message is dropped, without an
  error and without a new dial, although the peer could be dialled.
\<close>

lemma conn_broken:
  assumes "\<not> cn_ReconnectOnMsg c" "\<not> cn_Reconnect c" "cn_innerWriter c = Some (n, True)" "\<forall>s. \<not> ce_write env s"
    and "time_ok t"
  shows "conn_WriteMsg env t msg l c = Some (True, c)"
  using assms by (simp add: conn_WriteMsg_def needToConnectOnMsg_def conn_println_def println_text Let_def)

text \<open>The connection as an adapter, when the peer does what is asked.\<close>

definition conn_write :: "conn_env \<times> time \<times> string \<times> level \<Rightarrow> connWriter \<Rightarrow> connWriter option" where
  "conn_write m c =
     (case m of (env, when, msg, l) \<Rightarrow> map_option snd (conn_WriteMsg env when msg (level_num l) c))"

definition conn_inv :: "connWriter \<Rightarrow> bool" where
  "conn_inv c \<longleftrightarrow> (\<forall>n. cn_innerWriter c = Some (n, False) \<longrightarrow> cn_ReconnectOnMsg c)"

definition conn_settings :: "connWriter \<Rightarrow> bool \<times> string \<times> string \<times> int" where
  "conn_settings c = (cn_ReconnectOnMsg c, cn_Net c, cn_Addr c, cn_Level c)"

lemma conn_write_step:
  assumes "conn_inv c" "ce_dial env (cn_Net c) (cn_Addr c)" "\<forall>s. ce_write env s" "time_ok t"
  shows "\<exists>c' n. conn_write (env, t, msg, l) c = Some c' \<and> conn_inv c' \<and> conn_settings c' = conn_settings c
    \<and> cn_received c' = cn_received c
        @ (if int (level_num l) \<le> cn_Level c then [(n, header_text t @ msg @ [CHR 0x0A])] else [])"
proof -
  note defs = conn_write_def conn_WriteMsg_def needToConnectOnMsg_def connect_def conn_println_def conn_close_def
    conn_inv_def conn_settings_def println_text Let_def
  consider "int (level_num l) > cn_Level c"
    | "int (level_num l) \<le> cn_Level c" "cn_Reconnect c \<or> cn_innerWriter c = None \<or> cn_ReconnectOnMsg c"
    | n where "int (level_num l) \<le> cn_Level c" "\<not> cn_Reconnect c" "cn_innerWriter c = Some (n, True)" "\<not> cn_ReconnectOnMsg c"
    using assms(1)
    by (cases "int (level_num l) > cn_Level c"; cases "cn_innerWriter c") (fastforce simp: conn_inv_def not_less)+
  then show ?thesis
  proof cases
    case 1
    with assms show ?thesis by (simp add: defs)
  next
    case 2
    with assms show ?thesis by (cases "cn_ReconnectOnMsg c"; cases "cn_Reconnect c") (auto simp: defs)
  next
    case 3
    with assms show ?thesis by (simp add: defs)
  qed
qed

interpretation conn_log: log_adapter conn_write conn_inv conn_settings
    "\<lambda>c m. ce_dial (fst m) (fst (snd c)) (fst (snd (snd c))) \<and> (\<forall>s. ce_write (fst m) s) \<and> time_ok (fst (snd m))"
    "\<lambda>c m. int (level_num (snd (snd (snd m)))) \<le> snd (snd (snd c))"
    "\<lambda>c m. header_text (fst (snd m)) @ fst (snd (snd m)) @ [CHR 0x0A]"
    "\<lambda>c x. x \<in> snd ` set (cn_received c)"
proof unfold_locales
  fix s :: connWriter and m :: "conn_env \<times> time \<times> string \<times> level"
  assume i: "conn_inv s"
    and o: "ce_dial (fst m) (fst (snd (conn_settings s))) (fst (snd (snd (conn_settings s)))) \<and> (\<forall>s. ce_write (fst m) s) \<and> time_ok (fst (snd m))"
  obtain env t msg l where m: "m = (env, t, msg, l)" by (cases m)
  from o have "ce_dial env (cn_Net s) (cn_Addr s)" "\<forall>s. ce_write env s" "time_ok t" by (simp_all add: m conn_settings_def)
  from conn_write_step [OF i this] obtain c' n where
    r: "conn_write m s = Some c'" "conn_inv c'" "conn_settings c' = conn_settings s"
      "cn_received c' = cn_received s @ (if int (level_num l) \<le> cn_Level s then [(n, header_text t @ msg @ [CHR 0x0A])] else [])"
    unfolding m by blast
  then show "\<exists>s'. conn_write m s = Some s' \<and> conn_inv s' \<and> conn_settings s' = conn_settings s" by blast
  fix s'
  assume "conn_write m s = Some s'"
  with r have s': "cn_received s' = cn_received s @ (if int (level_num l) \<le> cn_Level s then [(n, header_text t @ msg @ [CHR 0x0A])] else [])"
    by simp
  show "header_text (fst (snd m)) @ fst (snd (snd m)) @ [CHR 0x0A] \<in> snd ` set (cn_received s')"
    if "int (level_num (snd (snd (snd m)))) \<le> snd (snd (snd (conn_settings s)))"
    using that by (simp add: s' m conn_settings_def)
  show "x \<in> snd ` set (cn_received s')" if "x \<in> snd ` set (cn_received s)" for x
    using that by (auto simp: s')
qed

end
