(* ===== verification/Log_Services.thy ===== *)
theory Log_Services
  imports Log_File Hostport
begin

text \<open>
  Adapters that hand a line to a service: mail (\<open>internal/logs/smtp.go\<close>), Slack
  (\<open>slack.go\<close>) and JianLiao (\<open>jianliao.go\<close>). What the services answer is a parameter; the
  adapters' states hold what was sent.
\<close>

definition time_text :: "time \<Rightarrow> string" where
  "time_text t = date_text t @ '' '' @ padded 2 (tm_hour t) @ '':'' @ padded 2 (tm_min t) @ '':'' @ padded 2 (tm_sec t)"

section \<open>Mail\<close>

record SMTPWriter =
  sm_Username :: string
  sm_Password :: string
  sm_Host :: string
  sm_Subject :: string
  sm_FromAddress :: string
  sm_RecipientAddresses :: "string list"
  sm_Level :: int

definition newSMTPWriter :: SMTPWriter where
  "newSMTPWriter = \<lparr>sm_Username = [], sm_Password = [], sm_Host = [], sm_Subject = [], sm_FromAddress = [],
     sm_RecipientAddresses = [], sm_Level = int (level_num LevelTrace)\<rparr>"

definition set_strs :: "(string list \<Rightarrow> 'r \<Rightarrow> 'r) \<Rightarrow> json \<Rightarrow> bool \<times> 'r \<Rightarrow> bool \<times> 'r" where
  "set_strs upd v st =
     (case v of
        JArr vs \<Rightarrow>
          (fst st \<and> (\<forall>x \<in> set vs. case x of JStr s \<Rightarrow> True | JNull \<Rightarrow> True | _ \<Rightarrow> False),
           upd (map (\<lambda>x. case x of JStr s \<Rightarrow> s | _ \<Rightarrow> []) vs) (snd st))
      | JNull \<Rightarrow> (fst st, upd [] (snd st))
      | _ \<Rightarrow> (False, snd st))"

definition member_SMTPWriter :: "SMTPWriter member_step" where
  "member_SMTPWriter m st =
     (let (k, v) = m in
      if key_is ''username'' k then set_str (\<lambda>x s. s\<lparr>sm_Username := x\<rparr>) v st
      else if key_is ''password'' k then set_str (\<lambda>x s. s\<lparr>sm_Password := x\<rparr>) v st
      else if key_is ''host'' k then set_str (\<lambda>x s. s\<lparr>sm_Host := x\<rparr>) v st
      else if key_is ''subject'' k then set_str (\<lambda>x s. s\<lparr>sm_Subject := x\<rparr>) v st
      else if key_is ''fromAddress'' k then set_str (\<lambda>x s. s\<lparr>sm_FromAddress := x\<rparr>) v st
      else if key_is ''sendTos'' k then set_strs (\<lambda>x s. s\<lparr>sm_RecipientAddresses := x\<rparr>) v st
      else if key_is ''level'' k then set_int (\<lambda>x s. s\<lparr>sm_Level := x\<rparr>) v st
      else st)"

definition smtp_Init :: "string \<Rightarrow> SMTPWriter \<Rightarrow> bool \<times> SMTPWriter" where
  "smtp_Init jsonconfig s = unmarshal_into member_SMTPWriter (bytes_of jsonconfig) s"

text \<open>Plain authentication: the name, the password and the host.\<close>

definition getSMTPAuth :: "string \<Rightarrow> SMTPWriter \<Rightarrow> (string \<times> string \<times> string) option" where
  "getSMTPAuth host s =
     (if (\<forall>c \<in> set (sm_Username s). c = CHR '' '') \<and> (\<forall>c \<in> set (sm_Password s). c = CHR '' '') then None
      else Some (sm_Username s, sm_Password s, host))"

text \<open>The commands of a session; the server's answer to each of them is a parameter.\<close>

datatype smtp_command =
    Dial string
  | StartTLS string
  | Auth "string \<times> string \<times> string"
  | Mail string
  | Rcpt string
  | Data
  | Content string
  | CloseData
  | Quit

fun smtp_session :: "(smtp_command \<Rightarrow> bool) \<Rightarrow> smtp_command list \<Rightarrow> bool \<times> smtp_command list" where
  "smtp_session server [] = (True, [])"
| "smtp_session server (c # cs) =
     (if server c then (case smtp_session server cs of (ok, sent) \<Rightarrow> (ok, c # sent)) else (False, [c]))"

definition mail_commands :: "string \<Rightarrow> (string \<times> string \<times> string) option \<Rightarrow> string \<Rightarrow> string list \<Rightarrow> string \<Rightarrow> smtp_command list" where
  "mail_commands addr auth fromAddress recipients msgContent =
     (let host = (case SplitHostPort addr of Inl e \<Rightarrow> [] | Inr (h, p) \<Rightarrow> h) in
      [Dial addr, StartTLS host] @ (case auth of None \<Rightarrow> [] | Some a \<Rightarrow> [Auth a])
        @ [Mail fromAddress] @ map Rcpt recipients @ [Data, Content msgContent, CloseData, Quit])"

definition sendMail ::
  "(smtp_command \<Rightarrow> bool) \<Rightarrow> string \<Rightarrow> (string \<times> string \<times> string) option \<Rightarrow> string \<Rightarrow> string list \<Rightarrow> string \<Rightarrow> bool \<times> smtp_command list" where
  "sendMail server addr auth fromAddress recipients msgContent =
     smtp_session server (mail_commands addr auth fromAddress recipients msgContent)"

definition crlf :: string where "crlf = [CHR 0x0D, CHR 0x0A]"

definition mail_text :: "time \<Rightarrow> string \<Rightarrow> SMTPWriter \<Rightarrow> string" where
  "mail_text when msg s =
     ''To: '' @ join '';'' (sm_RecipientAddresses s) @ crlf @ ''From: '' @ sm_FromAddress s @ ''<'' @ sm_FromAddress s @ ''>''
     @ crlf @ ''Subject: '' @ sm_Subject s @ crlf @ ''Content-Type: text/plain; charset=UTF-8'' @ crlf @ crlf
     @ ''.'' @ time_text when @ msg"

definition smtp_WriteMsg :: "(smtp_command \<Rightarrow> bool) \<Rightarrow> time \<Rightarrow> string \<Rightarrow> nat \<Rightarrow> SMTPWriter \<Rightarrow> bool \<times> smtp_command list" where
  "smtp_WriteMsg server when msg level s =
     (if int level > sm_Level s then (True, [])
      else
        let hp = split_on (CHR '':'') (sm_Host s);
            auth = getSMTPAuth (hd hp) s
        in sendMail server (sm_Host s) auth (sm_FromAddress s) (sm_RecipientAddresses s) (mail_text when msg s))"

text \<open>
  A session ends with the last command exactly when the server takes every one; otherwise
  it ends with the one that was refused, and then the connection is not closed.
\<close>

lemma session_outcome:
  "smtp_session server cs = (ok, sent) \<Longrightarrow>
   (if ok then sent = cs \<and> (\<forall>c \<in> set cs. server c)
    else \<exists>pre c post. cs = pre @ c # post \<and> sent = pre @ [c] \<and> (\<forall>d \<in> set pre. server d) \<and> \<not> server c)"
proof (induction cs arbitrary: ok sent)
  case (Cons c cs)
  show ?case
  proof (cases "server c")
    case True
    then obtain sent' where s: "smtp_session server cs = (ok, sent')" "sent = c # sent'"
      using Cons.prems by (auto split: prod.splits)
    show ?thesis
    proof (cases ok)
      case True
      with Cons.IH [OF s(1)] \<open>server c\<close> s(2) show ?thesis by simp
    next
      case False
      then obtain pre d post where "cs = pre @ d # post" "sent' = pre @ [d]" "\<forall>x \<in> set pre. server x" "\<not> server d"
        using Cons.IH [OF s(1)] by auto
      with False \<open>server c\<close> s(2) show ?thesis by (auto intro!: exI [of _ "c # pre"] exI [of _ d] exI [of _ post])
    qed
  next
    case False
    with Cons.prems show ?thesis by fastforce
  qed
qed simp

lemma mail_commands_facts:
  "[c \<leftarrow> mail_commands addr auth from rcpts text. \<exists>r. c = Rcpt r] = map Rcpt rcpts"
  "Content text \<in> set (mail_commands addr auth from rcpts text)"
  "\<exists>cs. mail_commands addr auth from rcpts text = Dial addr # cs @ [Quit] \<and> Quit \<notin> set cs"
proof -
  have f: "filter (\<lambda>c. \<exists>r. c = Rcpt r) (map Rcpt rs) = map Rcpt rs" for rs by (induction rs) auto
  show "[c \<leftarrow> mail_commands addr auth from rcpts text. \<exists>r. c = Rcpt r] = map Rcpt rcpts"
    by (simp add: mail_commands_def Let_def f split: option.splits)
  show "Content text \<in> set (mail_commands addr auth from rcpts text)" by (simp add: mail_commands_def Let_def)
  show "\<exists>cs. mail_commands addr auth from rcpts text = Dial addr # cs @ [Quit] \<and> Quit \<notin> set cs"
    by (intro exI [of _ "butlast (tl (mail_commands addr auth from rcpts text))"])
       (auto simp: mail_commands_def Let_def butlast_append split: option.splits)
qed

text \<open>A message without an error has gone to every recipient in one session that was ended.\<close>

lemma mail_delivered:
  assumes "smtp_WriteMsg server t msg l s = (True, sent)" "int l \<le> sm_Level s"
  shows "[c \<leftarrow> sent. \<exists>r. c = Rcpt r] = map Rcpt (sm_RecipientAddresses s) \<and> Content (mail_text t msg s) \<in> set sent \<and> last sent = Quit"
proof -
  let ?cs = "mail_commands (sm_Host s) (getSMTPAuth (hd (split_on (CHR '':'') (sm_Host s))) s) (sm_FromAddress s)
      (sm_RecipientAddresses s) (mail_text t msg s)"
  have "smtp_session server ?cs = (True, sent)" using assms by (simp add: smtp_WriteMsg_def sendMail_def Let_def)
  then have "sent = ?cs" using session_outcome [of server ?cs True sent] by simp
  moreover have "last ?cs = Quit" by (simp add: mail_commands_def Let_def)
  ultimately show ?thesis by (simp only: mail_commands_facts)
qed

text \<open>
  An error leaves the connection without an end; when only the end was refused, the mail
  has gone out although an error is reported.
\<close>

lemma mail_error:
  assumes "smtp_WriteMsg server t msg l s = (False, sent)"
  shows "\<not> server (last sent) \<and> (Quit \<in> set sent \<longrightarrow> Content (mail_text t msg s) \<in> set sent \<and> server (Content (mail_text t msg s)))"
proof -
  let ?cs = "mail_commands (sm_Host s) (getSMTPAuth (hd (split_on (CHR '':'') (sm_Host s))) s) (sm_FromAddress s)
      (sm_RecipientAddresses s) (mail_text t msg s)"
  have "smtp_session server ?cs = (False, sent)"
    using assms by (auto simp: smtp_WriteMsg_def sendMail_def Let_def split: if_splits)
  then obtain pre c post where p: "?cs = pre @ c # post" "sent = pre @ [c]" "\<forall>d \<in> set pre. server d" "\<not> server c"
    using session_outcome [of server ?cs False sent] by auto
  obtain mid where m: "?cs = Dial (sm_Host s) # mid @ [Quit]" "Quit \<notin> set mid" using mail_commands_facts(3) by blast
  have "Content (mail_text t msg s) \<in> set sent \<and> server (Content (mail_text t msg s))" if "Quit \<in> set sent"
  proof -
    have "post = []"
    proof (rule ccontr)
      assume "post \<noteq> []"
      then have "?cs = (pre @ c # butlast post) @ [last post]" using p(1) by simp
      then have "pre @ c # butlast post = Dial (sm_Host s) # mid" using m(1) by (metis append_Cons butlast_snoc)
      then have "set (pre @ [c]) \<subseteq> insert (Dial (sm_Host s)) (set mid)" by (metis Un_iff list.set_intros list.simps(15) set_append subsetI append.assoc append_Cons append_Nil)
      then show False using that p(2) m(2) by auto
    qed
    then have s: "sent = ?cs" using p by simp
    then have "c = Quit" using p(2) m(1) by (metis append_Cons last_snoc)
    moreover have "Content (mail_text t msg s) \<in> set sent" unfolding s by (rule mail_commands_facts(2))
    ultimately show ?thesis using p(2,3) by auto
  qed
  then show ?thesis using p by simp
qed

section \<open>Webhooks\<close>

text \<open>
  A form that is posted, in the order in which its fields are added, and the answer: no
  answer, or a status.
\<close>

type_synonym form = "(string \<times> string) list"

type_synonym webhook = "string \<Rightarrow> form \<Rightarrow> nat option"

datatype hook_error = PostFailed | BadStatus nat

definition PostForm :: "webhook \<Rightarrow> string \<Rightarrow> form \<Rightarrow> hook_error option" where
  "PostForm hook url form =
     (case hook url form of
        None \<Rightarrow> Some PostFailed
      | Some status \<Rightarrow> if status \<noteq> 200 then Some (BadStatus status) else None)"

text \<open>Slack. The message is put into a JSON text as it is.\<close>

record SLACKWriter =
  sl_WebhookURL :: string
  sl_Level :: int

definition newSLACKWriter :: SLACKWriter where
  "newSLACKWriter = \<lparr>sl_WebhookURL = [], sl_Level = int (level_num LevelTrace)\<rparr>"

definition member_SLACKWriter :: "SLACKWriter member_step" where
  "member_SLACKWriter m st =
     (let (k, v) = m in
      if key_is ''webhookurl'' k then set_str (\<lambda>x s. s\<lparr>sl_WebhookURL := x\<rparr>) v st
      else if key_is ''level'' k then set_int (\<lambda>x s. s\<lparr>sl_Level := x\<rparr>) v st
      else st)"

definition slack_Init :: "string \<Rightarrow> SLACKWriter \<Rightarrow> bool \<times> SLACKWriter" where
  "slack_Init jsonconfig s = unmarshal_into member_SLACKWriter (bytes_of jsonconfig) s"

definition dquote :: string where "dquote = [CHR 0x22]"

definition slack_text :: "time \<Rightarrow> string \<Rightarrow> string" where
  "slack_text when msg =
     ''{'' @ dquote @ ''text'' @ dquote @ '': '' @ dquote @ time_text when @ '' '' @ msg @ dquote @ ''}''"

text \<open>What is posted, if anything, and the error.\<close>

definition slack_WriteMsg ::
  "webhook \<Rightarrow> time \<Rightarrow> string \<Rightarrow> nat \<Rightarrow> SLACKWriter \<Rightarrow> (string \<times> form) list \<times> hook_error option" where
  "slack_WriteMsg hook when msg level s =
     (if int level > sl_Level s then ([], None)
      else
        let form = [(''payload'', slack_text when msg)]
        in ([(sl_WebhookURL s, form)], PostForm hook (sl_WebhookURL s) form))"

text \<open>JianLiao.\<close>

record JLWriter =
  jl_AuthorName :: string
  jl_Title :: string
  jl_WebhookURL :: string
  jl_RedirectURL :: string
  jl_ImageURL :: string
  jl_Level :: int

definition newJLWriter :: JLWriter where
  "newJLWriter = \<lparr>jl_AuthorName = [], jl_Title = [], jl_WebhookURL = [], jl_RedirectURL = [], jl_ImageURL = [],
     jl_Level = int (level_num LevelTrace)\<rparr>"

definition member_JLWriter :: "JLWriter member_step" where
  "member_JLWriter m st =
     (let (k, v) = m in
      if key_is ''authorname'' k then set_str (\<lambda>x s. s\<lparr>jl_AuthorName := x\<rparr>) v st
      else if key_is ''title'' k then set_str (\<lambda>x s. s\<lparr>jl_Title := x\<rparr>) v st
      else if key_is ''webhookurl'' k then set_str (\<lambda>x s. s\<lparr>jl_WebhookURL := x\<rparr>) v st
      else if key_is ''redirecturl'' k then set_str (\<lambda>x s. s\<lparr>jl_RedirectURL := x\<rparr>) v st
      else if key_is ''imageurl'' k then set_str (\<lambda>x s. s\<lparr>jl_ImageURL := x\<rparr>) v st
      else if key_is ''level'' k then set_int (\<lambda>x s. s\<lparr>jl_Level := x\<rparr>) v st
      else st)"

definition jl_Init :: "string \<Rightarrow> JLWriter \<Rightarrow> bool \<times> JLWriter" where
  "jl_Init jsonconfig s = unmarshal_into member_JLWriter (bytes_of jsonconfig) s"

definition jl_WriteMsg ::
  "webhook \<Rightarrow> time \<Rightarrow> string \<Rightarrow> nat \<Rightarrow> JLWriter \<Rightarrow> (string \<times> form) list \<times> hook_error option" where
  "jl_WriteMsg hook when msg level s =
     (if int level > jl_Level s then ([], None)
      else
        let form = [(''authorName'', jl_AuthorName s), (''title'', jl_Title s), (''text'', time_text when @ '' '' @ msg)]
              @ (if jl_RedirectURL s \<noteq> [] then [(''redirectUrl'', jl_RedirectURL s)] else [])
              @ (if jl_ImageURL s \<noteq> [] then [(''imageUrl'', jl_ImageURL s)] else [])
        in ([(jl_WebhookURL s, form)], PostForm hook (jl_WebhookURL s) form))"

lemma jl_fields:
  assumes "int level \<le> jl_Level s" "jl_WriteMsg hook t msg level s = (posts, e)"
  shows "\<exists>form. posts = [(jl_WebhookURL s, form)] \<and> map_of form ''text'' = Some (time_text t @ '' '' @ msg)
    \<and> distinct (map fst form) \<and> (e = None \<longleftrightarrow> hook (jl_WebhookURL s) form = Some 200)"
  using assms by (auto simp: jl_WriteMsg_def PostForm_def Let_def split: option.splits)

text \<open>
  A message of harmless characters is the value of \<open>text\<close> in what Slack gets; a message
  with a quotation mark can add members of its own.
\<close>

lemma time_text_chars: "c \<in> set (time_text t) \<Longrightarrow> is_digit c \<or> c \<in> {CHR ''-'', CHR '':'', CHR '' ''}"
proof -
  have p: "is_digit c" if "c \<in> set (padded w i)" for w i
    using that by (induction w arbitrary: i) auto
  assume "c \<in> set (time_text t)"
  then show ?thesis using p by (auto simp: time_text_def date_text_def)
qed

lemma parse_str_safe:
  assumes "\<forall>c \<in> set s. json_safe c"
  shows "parse_str (s @ CHR 0x22 # r) = Some (s, r)"
proof -
  have "concat (map escape_char s) = s" using assms by (induction s) (auto simp: escape_char_def)
  with parse_str_quote [of s r] show ?thesis by simp
qed

lemma time_text_safe: "c \<in> set (time_text t) \<Longrightarrow> json_safe c"
  by (drule time_text_chars) (auto simp: json_safe_def is_digit_def)

lemma safe_texts: "\<forall>c \<in> set ''text''. json_safe c" "\<forall>c \<in> set ''channel''. json_safe c"
    "\<forall>c \<in> set msg. json_safe c \<Longrightarrow> \<forall>c \<in> set (time_text t @ '' '' @ msg). json_safe c"
proof -
  have "json_safe (CHR '' '')" by (simp add: json_safe_def)
  then show "\<forall>c \<in> set (time_text t @ '' '' @ msg). json_safe c" if "\<forall>c \<in> set msg. json_safe c"
    using that time_text_safe by fastforce
qed (simp_all add: json_safe_def)

definition text_member :: "string \<Rightarrow> string \<Rightarrow> string" where
  "text_member k v = dquote @ k @ dquote @ '': '' @ dquote @ v @ dquote"

lemma parse_text_member:
  assumes "\<forall>c \<in> set k. json_safe c" "\<forall>c \<in> set v. json_safe c"
  shows "parse_members (Suc (Suc n)) (text_member k v @ CHR ''}'' # r) = Some ([(k, JStr v)], r)"
    and "parse_members (Suc (Suc n)) (text_member k v @ '', '' @ r) = map_option (\<lambda>(ms, r). ((k, JStr v) # ms, r)) (parse_members (Suc n) r)"
proof -
  note p = parse_str_safe [OF assms(1)] parse_str_safe [OF assms(2)]
  have sp: "parse_members (Suc n) (CHR '' '' # r) = parse_members (Suc n) r" by simp
  show "parse_members (Suc (Suc n)) (text_member k v @ CHR ''}'' # r) = Some ([(k, JStr v)], r)"
    by (simp add: text_member_def dquote_def p del: parse_str.simps)
  show "parse_members (Suc (Suc n)) (text_member k v @ '', '' @ r) = map_option (\<lambda>(ms, r). ((k, JStr v) # ms, r)) (parse_members (Suc n) r)"
    by (simp add: text_member_def dquote_def p sp del: parse_str.simps parse_members.simps(2))
       (simp add: text_member_def dquote_def p del: parse_str.simps)
qed

lemma parse_object:
  assumes "parse_members (Suc (length s)) s = Some (ms, [])" "take 1 (skip_ws s) \<noteq> ''}''"
  shows "json_parse (CHR ''{'' # s) = Some (JObj ms)"
  using assms by (simp add: json_parse_def del: parse_members.simps)

lemma slack_text_member: "slack_text t msg = CHR ''{'' # text_member ''text'' (time_text t @ '' '' @ msg) @ ''}''"
  by (simp add: slack_text_def text_member_def)

lemma slack_plain:
  assumes "\<forall>c \<in> set msg. json_safe c"
  shows "json_parse (slack_text t msg) = Some (JObj [(''text'', JStr (time_text t @ '' '' @ msg))])"
proof -
  note s = safe_texts(3) [OF assms, of t] safe_texts(1)
  let ?s = "text_member ''text'' (time_text t @ '' '' @ msg) @ ''}''"
  obtain n where n: "Suc (length ?s) = Suc (Suc n)" by (simp add: text_member_def dquote_def)
  have "parse_members (Suc (length ?s)) ?s = Some ([(''text'', JStr (time_text t @ '' '' @ msg))], [])"
    unfolding n by (rule parse_text_member(1) [OF s(2,1)])
  moreover have "take 1 (skip_ws ?s) \<noteq> ''}''" by (simp add: text_member_def dquote_def)
  ultimately show ?thesis unfolding slack_text_member by (rule parse_object)
qed

lemma slack_injection:
  assumes "\<forall>c \<in> set a. json_safe c" "\<forall>c \<in> set b. json_safe c"
  shows "json_parse (slack_text t (a @ dquote @ '', '' @ dquote @ ''channel'' @ dquote @ '': '' @ dquote @ b))
    = Some (JObj [(''text'', JStr (time_text t @ '' '' @ a)), (''channel'', JStr b)])"
proof -
  note s = safe_texts(3) [OF assms(1), of t] safe_texts(1,2)
  let ?s = "text_member ''text'' (time_text t @ '' '' @ a) @ '', '' @ text_member ''channel'' b @ ''}''"
  have t: "slack_text t (a @ dquote @ '', '' @ dquote @ ''channel'' @ dquote @ '': '' @ dquote @ b) = CHR ''{'' # ?s"
    by (simp add: slack_text_def text_member_def)
  obtain n where n: "Suc (length ?s) = Suc (Suc (Suc n))" by (simp add: text_member_def dquote_def)
  have "parse_members (Suc (length ?s)) ?s = Some ([(''text'', JStr (time_text t @ '' '' @ a)), (''channel'', JStr b)], [])"
    unfolding n parse_text_member(2) [OF s(2,1)]
    using parse_text_member(1) [OF s(3) assms(2), of n "[]"] by (simp del: parse_members.simps)
  moreover have "take 1 (skip_ws ?s) \<noteq> ''}''" by (simp add: text_member_def dquote_def)
  ultimately show ?thesis unfolding t by (rule parse_object)
qed


section \<open>Elasticsearch\<close>

text \<open>
  The adapter of \<open>internal/logs/es/es.go\<close>. Arguments are what \<open>url.Parse\<close> makes of an
  address (its host and its path), the time in RFC 3339, and whether the library that
  speaks to the service takes a document.
\<close>

record esLogger =
  es_Connection :: "(string \<times> string) option"
  es_DSN :: string
  es_Level :: int

record es_document =
  ed_Index :: string
  ed_Type :: string
  ed_Fields :: "string \<rightharpoonup> string"

datatype es_error = EsBadJson | EsEmptyDSN | EsBadURL | EsMissingPrefix | EsBadHost

definition NewES :: esLogger where
  "NewES = \<lparr>es_Connection = None, es_DSN = [], es_Level = int (level_num LevelDebug)\<rparr>"

definition member_esLogger :: "esLogger member_step" where
  "member_esLogger m st =
     (let (k, v) = m in
      if key_is ''dsn'' k then set_str (\<lambda>x s. s\<lparr>es_DSN := x\<rparr>) v st
      else if key_is ''level'' k then set_int (\<lambda>x s. s\<lparr>es_Level := x\<rparr>) v st
      else st)"

definition es_Init :: "(string \<Rightarrow> (string \<times> string) option) \<Rightarrow> string \<Rightarrow> esLogger \<Rightarrow> es_error option \<times> esLogger" where
  "es_Init url_Parse jsonconfig el =
     (case unmarshal_into member_esLogger (bytes_of jsonconfig) el of
        (ok, el) \<Rightarrow>
          if \<not> ok then (Some EsBadJson, el)
          else if es_DSN el = [] then (Some EsEmptyDSN, el)
          else
            (case url_Parse (es_DSN el) of
               None \<Rightarrow> (Some EsBadURL, el)
             | Some (host, path) \<Rightarrow>
                 if path = [] then (Some EsMissingPrefix, el)
                 else
                   (case SplitHostPort host of
                      Inl e \<Rightarrow> (Some EsBadHost, el)
                    | Inr (h, p) \<Rightarrow> (None, el\<lparr>es_Connection := Some (h, p)\<rparr>))))"

text \<open>\<open>%04d\<close> and \<open>%02d\<close> write at least so many digits.\<close>

definition at_least :: "nat \<Rightarrow> nat \<Rightarrow> string" where
  "at_least w n = (if n < 10 ^ w then padded w n else dec n)"

definition es_document_of :: "string \<Rightarrow> time \<Rightarrow> string \<Rightarrow> es_document" where
  "es_document_of rfc3339 when msg =
     \<lparr>ed_Index = at_least 4 (tm_year when) @ ''.'' @ at_least 2 (tm_month when) @ ''.'' @ at_least 2 (tm_day when),
      ed_Type = ''logs'', ed_Fields = [''@timestamp'' \<mapsto> rfc3339, ''@msg'' \<mapsto> msg]\<rparr>"

text \<open>The document that is handed over, if any, and whether there is no error.\<close>

definition es_WriteMsg ::
  "(es_document \<Rightarrow> bool) \<Rightarrow> string \<Rightarrow> time \<Rightarrow> string \<Rightarrow> nat \<Rightarrow> esLogger \<Rightarrow> bool \<times> es_document option" where
  "es_WriteMsg takes_document rfc3339 when msg level el =
     (if int level > es_Level el then (True, None)
      else let d = es_document_of rfc3339 when msg in (takes_document d, Some d))"

text \<open>A successful \<open>Init\<close> has a host and a port of the address in the configuration.\<close>

lemma es_Init_ok:
  assumes "es_Init parse json el = (None, el')"
  shows "\<exists>host path h p. parse (es_DSN el') = Some (host, path) \<and> path \<noteq> [] \<and> SplitHostPort host = Inr (h, p)
    \<and> es_Connection el' = Some (h, p)"
  using assms by (auto simp: es_Init_def split: prod.splits if_splits option.splits sum.splits)

text \<open>Documents of the same day, and only those, go to the same index.\<close>

lemma es_index_days:
  assumes "time_ok t" and "time_ok u"
  shows "ed_Index (es_document_of r t m) = ed_Index (es_document_of s u n)
    \<longleftrightarrow> tm_year t = tm_year u \<and> tm_month t = tm_month u \<and> tm_day t = tm_day u"
proof -
  have b: "tm_year t < 10 ^ 4" "tm_month t < 10 ^ 2" "tm_day t < 10 ^ 2"
      "tm_year u < 10 ^ 4" "tm_month u < 10 ^ 2" "tm_day u < 10 ^ 2"
    using assms by (auto simp: time_ok_def)
  have split: "a @ s = b @ t \<longleftrightarrow> a = b \<and> s = t" if "length a = length b" for a b s t :: string
    using that by simp
  show ?thesis
    using b padded_eq [OF b(1,4)] padded_eq [OF b(2,5)] padded_eq [OF b(3,6)]
    by (simp add: es_document_of_def at_least_def split)
qed

end
