(* ===== verification/Ansi.thy ===== *)
theory Ansi
  imports Log_Format
begin

text \<open>
  Colours on a Windows console (\<open>internal/logs/color_windows.go\<close> and the modes of
  \<open>internal/logs/logger.go\<close>): the escape sequences in what is written are taken out and
  become attributes of the console, which the kernel keeps and which are 16-bit words. The
  debug output of \<open>logger.go\<close> goes through this writer.
\<close>

section \<open>Attributes\<close>

definition foregroundBlue :: u16 where "foregroundBlue = 0x0001"
definition foregroundGreen :: u16 where "foregroundGreen = 0x0002"
definition foregroundRed :: u16 where "foregroundRed = 0x0004"
definition foregroundIntensity :: u16 where "foregroundIntensity = 0x0008"
definition backgroundBlue :: u16 where "backgroundBlue = 0x0010"
definition backgroundGreen :: u16 where "backgroundGreen = 0x0020"
definition backgroundRed :: u16 where "backgroundRed = 0x0040"
definition backgroundIntensity :: u16 where "backgroundIntensity = 0x0080"
definition underscore :: u16 where "underscore = 0x8000"

definition foregroundMask :: u16 where
  "foregroundMask = foregroundBlue OR foregroundGreen OR foregroundRed OR foregroundIntensity"

definition backgroundMask :: u16 where
  "backgroundMask = backgroundBlue OR backgroundGreen OR backgroundRed OR backgroundIntensity"

named_theorems attr_simps \<open>the words of the attributes\<close>

lemmas [attr_simps] = foregroundBlue_def foregroundGreen_def foregroundRed_def foregroundIntensity_def
  backgroundBlue_def backgroundGreen_def backgroundRed_def backgroundIntensity_def underscore_def
  foregroundMask_def backgroundMask_def

text \<open>The codes of a colour sequence.\<close>

definition ansiReset :: string where [simp]: "ansiReset = ''0''"
definition ansiIntensityOn :: string where [simp]: "ansiIntensityOn = ''1''"
definition ansiIntensityOff :: string where [simp]: "ansiIntensityOff = ''21''"
definition ansiUnderlineOn :: string where [simp]: "ansiUnderlineOn = ''4''"
definition ansiUnderlineOff :: string where [simp]: "ansiUnderlineOff = ''24''"
definition ansiBlinkOn :: string where [simp]: "ansiBlinkOn = ''5''"
definition ansiBlinkOff :: string where [simp]: "ansiBlinkOff = ''25''"
definition ansiForegroundBlack :: string where [simp]: "ansiForegroundBlack = ''30''"
definition ansiForegroundRed :: string where [simp]: "ansiForegroundRed = ''31''"
definition ansiForegroundGreen :: string where [simp]: "ansiForegroundGreen = ''32''"
definition ansiForegroundYellow :: string where [simp]: "ansiForegroundYellow = ''33''"
definition ansiForegroundBlue :: string where [simp]: "ansiForegroundBlue = ''34''"
definition ansiForegroundMagenta :: string where [simp]: "ansiForegroundMagenta = ''35''"
definition ansiForegroundCyan :: string where [simp]: "ansiForegroundCyan = ''36''"
definition ansiForegroundWhite :: string where [simp]: "ansiForegroundWhite = ''37''"
definition ansiForegroundDefault :: string where [simp]: "ansiForegroundDefault = ''39''"
definition ansiBackgroundBlack :: string where [simp]: "ansiBackgroundBlack = ''40''"
definition ansiBackgroundRed :: string where [simp]: "ansiBackgroundRed = ''41''"
definition ansiBackgroundGreen :: string where [simp]: "ansiBackgroundGreen = ''42''"
definition ansiBackgroundYellow :: string where [simp]: "ansiBackgroundYellow = ''43''"
definition ansiBackgroundBlue :: string where [simp]: "ansiBackgroundBlue = ''44''"
definition ansiBackgroundMagenta :: string where [simp]: "ansiBackgroundMagenta = ''45''"
definition ansiBackgroundCyan :: string where [simp]: "ansiBackgroundCyan = ''46''"
definition ansiBackgroundWhite :: string where [simp]: "ansiBackgroundWhite = ''47''"
definition ansiBackgroundDefault :: string where [simp]: "ansiBackgroundDefault = ''49''"
definition ansiLightForegroundGray :: string where [simp]: "ansiLightForegroundGray = ''90''"
definition ansiLightForegroundRed :: string where [simp]: "ansiLightForegroundRed = ''91''"
definition ansiLightForegroundGreen :: string where [simp]: "ansiLightForegroundGreen = ''92''"
definition ansiLightForegroundYellow :: string where [simp]: "ansiLightForegroundYellow = ''93''"
definition ansiLightForegroundBlue :: string where [simp]: "ansiLightForegroundBlue = ''94''"
definition ansiLightForegroundMagenta :: string where [simp]: "ansiLightForegroundMagenta = ''95''"
definition ansiLightForegroundCyan :: string where [simp]: "ansiLightForegroundCyan = ''96''"
definition ansiLightForegroundWhite :: string where [simp]: "ansiLightForegroundWhite = ''97''"
definition ansiLightBackgroundGray :: string where [simp]: "ansiLightBackgroundGray = ''100''"
definition ansiLightBackgroundRed :: string where [simp]: "ansiLightBackgroundRed = ''101''"
definition ansiLightBackgroundGreen :: string where [simp]: "ansiLightBackgroundGreen = ''102''"
definition ansiLightBackgroundYellow :: string where [simp]: "ansiLightBackgroundYellow = ''103''"
definition ansiLightBackgroundBlue :: string where [simp]: "ansiLightBackgroundBlue = ''104''"
definition ansiLightBackgroundMagenta :: string where [simp]: "ansiLightBackgroundMagenta = ''105''"
definition ansiLightBackgroundCyan :: string where [simp]: "ansiLightBackgroundCyan = ''106''"
definition ansiLightBackgroundWhite :: string where [simp]: "ansiLightBackgroundWhite = ''107''"

definition firstCsiChar :: char where [simp]: "firstCsiChar = CHR 0x1B"
definition secondeCsiChar :: char where [simp]: "secondeCsiChar = CHR ''[''"
definition separatorChar :: char where [simp]: "separatorChar = CHR '';''"
definition sgrCode :: char where [simp]: "sgrCode = CHR ''m''"

datatype drawType = foreground | background

record winColor =
  wcl_code :: u16
  wcl_drawType :: drawType

definition fg :: "u16 \<Rightarrow> winColor" where "fg c = \<lparr>wcl_code = c, wcl_drawType = foreground\<rparr>"
definition bg :: "u16 \<Rightarrow> winColor" where "bg c = \<lparr>wcl_code = c, wcl_drawType = background\<rparr>"

definition colorTable :: "(string \<times> winColor) list" where
  "colorTable = [
     (ansiForegroundBlack, fg 0),
     (ansiForegroundRed, fg foregroundRed),
     (ansiForegroundGreen, fg foregroundGreen),
     (ansiForegroundYellow, fg (foregroundRed OR foregroundGreen)),
     (ansiForegroundBlue, fg foregroundBlue),
     (ansiForegroundMagenta, fg (foregroundRed OR foregroundBlue)),
     (ansiForegroundCyan, fg (foregroundGreen OR foregroundBlue)),
     (ansiForegroundWhite, fg (foregroundRed OR foregroundGreen OR foregroundBlue)),
     (ansiForegroundDefault, fg (foregroundRed OR foregroundGreen OR foregroundBlue)),
     (ansiBackgroundBlack, bg 0),
     (ansiBackgroundRed, bg backgroundRed),
     (ansiBackgroundGreen, bg backgroundGreen),
     (ansiBackgroundYellow, bg (backgroundRed OR backgroundGreen)),
     (ansiBackgroundBlue, bg backgroundBlue),
     (ansiBackgroundMagenta, bg (backgroundRed OR backgroundBlue)),
     (ansiBackgroundCyan, bg (backgroundGreen OR backgroundBlue)),
     (ansiBackgroundWhite, bg (backgroundRed OR backgroundGreen OR backgroundBlue)),
     (ansiBackgroundDefault, bg 0),
     (ansiLightForegroundGray, fg foregroundIntensity),
     (ansiLightForegroundRed, fg (foregroundIntensity OR foregroundRed)),
     (ansiLightForegroundGreen, fg (foregroundIntensity OR foregroundGreen)),
     (ansiLightForegroundYellow, fg (foregroundIntensity OR foregroundRed OR foregroundGreen)),
     (ansiLightForegroundBlue, fg (foregroundIntensity OR foregroundBlue)),
     (ansiLightForegroundMagenta, fg (foregroundIntensity OR foregroundRed OR foregroundBlue)),
     (ansiLightForegroundCyan, fg (foregroundIntensity OR foregroundGreen OR foregroundBlue)),
     (ansiLightForegroundWhite, fg (foregroundIntensity OR foregroundRed OR foregroundGreen OR foregroundBlue)),
     (ansiLightBackgroundGray, bg backgroundIntensity),
     (ansiLightBackgroundRed, bg (backgroundIntensity OR backgroundRed)),
     (ansiLightBackgroundGreen, bg (backgroundIntensity OR backgroundGreen)),
     (ansiLightBackgroundYellow, bg (backgroundIntensity OR backgroundRed OR backgroundGreen)),
     (ansiLightBackgroundBlue, bg (backgroundIntensity OR backgroundBlue)),
     (ansiLightBackgroundMagenta, bg (backgroundIntensity OR backgroundRed OR backgroundBlue)),
     (ansiLightBackgroundCyan, bg (backgroundIntensity OR backgroundGreen OR backgroundBlue)),
     (ansiLightBackgroundWhite, bg (backgroundIntensity OR backgroundRed OR backgroundGreen OR backgroundBlue))]"

record textAttributes =
  ta_foregroundColor :: u16
  ta_backgroundColor :: u16
  ta_foregroundIntensity :: u16
  ta_backgroundIntensity :: u16
  ta_underscore :: u16
  ta_otherAttributes :: u16

definition convertTextAttr :: "u16 \<Rightarrow> textAttributes" where
  "convertTextAttr winAttr = \<lparr>
     ta_foregroundColor = winAttr AND (foregroundRed OR foregroundGreen OR foregroundBlue),
     ta_backgroundColor = winAttr AND (backgroundRed OR backgroundGreen OR backgroundBlue),
     ta_foregroundIntensity = winAttr AND foregroundIntensity,
     ta_backgroundIntensity = winAttr AND backgroundIntensity,
     ta_underscore = winAttr AND underscore,
     ta_otherAttributes = winAttr AND NOT (foregroundMask OR backgroundMask OR underscore)\<rparr>"

definition convertWinAttr :: "textAttributes \<Rightarrow> u16" where
  "convertWinAttr t =
     ta_foregroundColor t OR ta_backgroundColor t OR ta_foregroundIntensity t OR ta_backgroundIntensity t
     OR ta_underscore t OR ta_otherAttributes t"

lemma convert_roundtrip: "convertWinAttr (convertTextAttr a) = a"
proof -
  have "convertWinAttr (convertTextAttr a) = a AND (foregroundMask OR backgroundMask OR underscore)
      OR a AND NOT (foregroundMask OR backgroundMask OR underscore)"
    by (simp add: convertWinAttr_def convertTextAttr_def foregroundMask_def backgroundMask_def
        bit.conj_disj_distrib ac_simps or.assoc)
  also have "\<dots> = a" by (rule bit_eqI) (auto simp: bit_simps)
  finally show ?thesis .
qed

section \<open>Changing the colours\<close>

text \<open>
  What the console had when the program started (\<open>None\<close> without a console) sets the
  default attributes and two entries of the table.
\<close>

definition defaultAttr :: "u16 option \<Rightarrow> textAttributes option" where
  "defaultAttr start = map_option convertTextAttr start"

definition colorMap :: "u16 option \<Rightarrow> string \<Rightarrow> winColor option" where
  "colorMap start p =
     (case start of
        None \<Rightarrow> map_of colorTable p
      | Some a \<Rightarrow>
          if p = ansiForegroundDefault then Some (fg (a AND (foregroundRed OR foregroundGreen OR foregroundBlue)))
          else if p = ansiBackgroundDefault then Some (bg (a AND (backgroundRed OR backgroundGreen OR backgroundBlue)))
          else map_of colorTable p)"

datatype parseResult = noConsole | changedColor | unknown_seq

text \<open>One code of a sequence.\<close>

definition apply_code :: "u16 option \<Rightarrow> textAttributes \<Rightarrow> string \<Rightarrow> textAttributes \<Rightarrow> textAttributes" where
  "apply_code start dflt p a =
     (case colorMap start p of
        None \<Rightarrow>
          if p = ansiReset then
            a\<lparr>ta_foregroundColor := ta_foregroundColor dflt, ta_backgroundColor := ta_backgroundColor dflt,
              ta_foregroundIntensity := ta_foregroundIntensity dflt, ta_backgroundIntensity := ta_backgroundIntensity dflt,
              ta_underscore := 0, ta_otherAttributes := 0\<rparr>
          else if p = ansiIntensityOn then a\<lparr>ta_foregroundIntensity := foregroundIntensity\<rparr>
          else if p = ansiIntensityOff then a\<lparr>ta_foregroundIntensity := 0\<rparr>
          else if p = ansiUnderlineOn then a\<lparr>ta_underscore := underscore\<rparr>
          else if p = ansiUnderlineOff then a\<lparr>ta_underscore := 0\<rparr>
          else if p = ansiBlinkOn then a\<lparr>ta_backgroundIntensity := backgroundIntensity\<rparr>
          else if p = ansiBlinkOff then a\<lparr>ta_backgroundIntensity := 0\<rparr>
          else a
      | Some c \<Rightarrow>
          (case wcl_drawType c of
             foreground \<Rightarrow> a\<lparr>ta_foregroundColor := wcl_code c\<rparr>
           | background \<Rightarrow> a\<lparr>ta_backgroundColor := wcl_code c\<rparr>))"

text \<open>The screen is its attributes now, or \<open>None\<close> when they cannot be had. Setting them is taken
  to succeed; the code does not look at the result.\<close>

definition changeColor :: "u16 option \<Rightarrow> textAttributes \<Rightarrow> string \<Rightarrow> u16 option \<Rightarrow> parseResult \<times> u16 option" where
  "changeColor start dflt param screen =
     (case screen of
        None \<Rightarrow> (noConsole, screen)
      | Some attr \<Rightarrow>
          (let strParam = (if length param \<le> 0 then ''0'' else param);
               winAttr = fold (apply_code start dflt) (split_on separatorChar strParam) (convertTextAttr attr)
           in (changedColor, Some (convertWinAttr winAttr))))"

definition parseEscapeSequence :: "u16 option \<Rightarrow> char \<Rightarrow> string \<Rightarrow> u16 option \<Rightarrow> parseResult \<times> u16 option" where
  "parseEscapeSequence start command param screen =
     (case defaultAttr start of
        None \<Rightarrow> (noConsole, screen)
      | Some dflt \<Rightarrow>
          if command = sgrCode then changeColor start dflt param screen else (unknown_seq, screen))"

section \<open>The writer\<close>

datatype outputMode = DiscardNonColorEscSeq | OutputNonColorEscSeq

datatype csiState = outsideCsiCode | firstCsiCode | secondCsiCode

text \<open>\<open>ac_out\<close> is what has been written to the writer inside.\<close>

record ansiColorWriter =
  ac_mode :: outputMode
  ac_state :: csiState
  ac_paramStartBuf :: string
  ac_paramBuf :: string
  ac_out :: string

text \<open>The argument is the writer to wrap when it is itself of this kind; it is then returned.\<close>

definition NewModeAnsiColorWriter :: "ansiColorWriter option \<Rightarrow> outputMode \<Rightarrow> ansiColorWriter" where
  "NewModeAnsiColorWriter w mode =
     (case w of
        None \<Rightarrow> \<lparr>ac_mode = mode, ac_state = outsideCsiCode, ac_paramStartBuf = [], ac_paramBuf = [], ac_out = []\<rparr>
      | Some cw \<Rightarrow> cw)"

definition NewAnsiColorWriter :: "ansiColorWriter option \<Rightarrow> ansiColorWriter" where
  "NewAnsiColorWriter w = NewModeAnsiColorWriter w DiscardNonColorEscSeq"

text \<open>
  A write to the inner writer: the count, whether there is an error, and the new state;
  \<open>short s = Some k\<close> says that it fails after \<open>k\<close> bytes of \<open>s\<close>.
\<close>

type_synonym shortness = "string \<Rightarrow> nat option"

definition inner_Write :: "shortness \<Rightarrow> string \<Rightarrow> ansiColorWriter \<Rightarrow> nat \<times> bool \<times> ansiColorWriter" where
  "inner_Write short s cw =
     (case short s of
        None \<Rightarrow> (length s, False, cw\<lparr>ac_out := ac_out cw @ s\<rparr>)
      | Some k \<Rightarrow> (length (take k s), True, cw\<lparr>ac_out := ac_out cw @ take k s\<rparr>))"

definition flushBuffer :: "shortness \<Rightarrow> ansiColorWriter \<Rightarrow> nat \<times> bool \<times> ansiColorWriter" where
  "flushBuffer short cw =
     (case inner_Write short (ac_paramStartBuf cw) (cw\<lparr>ac_paramStartBuf := []\<rparr>) of
        (n1, True, cw) \<Rightarrow> (n1, True, cw)
      | (n1, False, cw) \<Rightarrow>
          (case inner_Write short (ac_paramBuf cw) (cw\<lparr>ac_paramBuf := []\<rparr>) of
             (n2, err, cw) \<Rightarrow> (n1 + n2, err, cw)))"

definition resetBuffer :: "ansiColorWriter \<Rightarrow> nat \<times> ansiColorWriter" where
  "resetBuffer cw =
     (length (ac_paramStartBuf cw) + length (ac_paramBuf cw), cw\<lparr>ac_paramStartBuf := [], ac_paramBuf := []\<rparr>)"

definition isParameterChar :: "char \<Rightarrow> bool" where
  "isParameterChar b \<longleftrightarrow> is_digit b \<or> b = separatorChar"

text \<open>A slice \<open>p[a:b]\<close>; \<open>None\<close> is the panic of bounds out of range.\<close>

definition slice :: "string \<Rightarrow> int \<Rightarrow> int \<Rightarrow> string option" where
  "slice p a b = (if 0 \<le> a \<and> a \<le> b \<and> b \<le> int (length p) then Some (take (nat (b - a)) (drop (nat a) p)) else None)"

text \<open>What \<open>Write\<close> returns, with the writer and the screen after it.\<close>

type_synonym ansi_result = "(nat \<times> bool) \<times> ansiColorWriter \<times> u16 option"

text \<open>The end of \<open>Write\<close>.\<close>

definition ansi_finish :: "shortness \<Rightarrow> string \<Rightarrow> nat \<Rightarrow> int \<Rightarrow> ansiColorWriter \<Rightarrow> u16 option \<Rightarrow> ansi_result option" where
  "ansi_finish short p r first cw screen =
     (if ac_mode cw \<noteq> DiscardNonColorEscSeq \<or> ac_state cw = outsideCsiCode
      then map_option (\<lambda>s. case inner_Write short s cw of (nw, err, cw) \<Rightarrow> ((r + nw, err), cw, screen))
             (slice p first (int (length p)))
      else Some ((r, False), cw, screen))"

text \<open>The byte that ends a sequence: \<open>Inl\<close> is a return with an error.\<close>

definition ansi_command ::
  "u16 option \<Rightarrow> shortness \<Rightarrow> char \<Rightarrow> string \<Rightarrow> nat \<Rightarrow> ansiColorWriter \<Rightarrow> u16 option
     \<Rightarrow> ansi_result + nat \<times> ansiColorWriter \<times> u16 option" where
  "ansi_command start short ch text r cw screen =
     (case inner_Write short text cw of
        (nw, True, cw) \<Rightarrow> Inl ((r + nw, True), cw, screen)
      | (nw, False, cw) \<Rightarrow>
          (let r = r + nw;
               (result, screen) = parseEscapeSequence start ch (ac_paramBuf cw) screen in
           if result = noConsole \<or> ac_mode cw = OutputNonColorEscSeq \<and> result = unknown_seq
           then (case flushBuffer short (cw\<lparr>ac_paramBuf := ac_paramBuf cw @ [ch]\<rparr>) of
                   (nw, True, cw) \<Rightarrow> Inl ((r, True), cw, screen)
                 | (nw, False, cw) \<Rightarrow> Inr (r + nw, cw\<lparr>ac_state := outsideCsiCode\<rparr>, screen))
           else (case resetBuffer cw of
                   (n, cw) \<Rightarrow> Inr (r + n + 1, cw\<lparr>ac_state := outsideCsiCode\<rparr>, screen))))"

text \<open>The loop over the bytes from index \<open>i\<close> on, with the counters of the code.\<close>

fun ansi_loop ::
  "u16 option \<Rightarrow> shortness \<Rightarrow> string \<Rightarrow> nat \<Rightarrow> string \<Rightarrow> nat \<Rightarrow> int \<Rightarrow> int \<Rightarrow> ansiColorWriter \<Rightarrow> u16 option \<Rightarrow> ansi_result option" where
  "ansi_loop start short p i [] r first last' cw screen = ansi_finish short p r first cw screen"
| "ansi_loop start short p i (ch # rest) r first last' cw screen =
     (case ac_state cw of
        outsideCsiCode \<Rightarrow>
          ansi_loop start short p (i + 1) rest r first last'
            (if ch = firstCsiChar then cw\<lparr>ac_paramStartBuf := ac_paramStartBuf cw @ [ch], ac_state := firstCsiCode\<rparr> else cw) screen
      | firstCsiCode \<Rightarrow>
          if ch = firstCsiChar then
            ansi_loop start short p (i + 1) rest r first last' (cw\<lparr>ac_paramStartBuf := ac_paramStartBuf cw @ [ch]\<rparr>) screen
          else if ch = secondeCsiChar then
            ansi_loop start short p (i + 1) rest r first (int i - 1)
              (cw\<lparr>ac_paramStartBuf := ac_paramStartBuf cw @ [ch], ac_state := secondCsiCode\<rparr>) screen
          else ansi_loop start short p (i + 1) rest r first last' ((snd (resetBuffer cw))\<lparr>ac_state := outsideCsiCode\<rparr>) screen
      | secondCsiCode \<Rightarrow>
          if isParameterChar ch then
            ansi_loop start short p (i + 1) rest r first last' (cw\<lparr>ac_paramBuf := ac_paramBuf cw @ [ch]\<rparr>) screen
          else
            (case slice p first last' of
               None \<Rightarrow> None
             | Some text \<Rightarrow>
                 (case ansi_command start short ch text r cw screen of
                    Inl res \<Rightarrow> Some res
                  | Inr (r, cw, screen) \<Rightarrow> ansi_loop start short p (i + 1) rest r (int i + 1) last' cw screen)))"

definition ansi_Write :: "u16 option \<Rightarrow> shortness \<Rightarrow> string \<Rightarrow> ansiColorWriter \<Rightarrow> u16 option \<Rightarrow> ansi_result option" where
  "ansi_Write start short p cw screen =
     (let cw = (if ac_mode cw \<noteq> DiscardNonColorEscSeq
                then snd (resetBuffer (cw\<lparr>ac_state := outsideCsiCode\<rparr>)) else cw)
      in ansi_loop start short p 0 p 0 0 0 cw screen)"

section \<open>Complete sequences\<close>

text \<open>A text made of plain parts and of sequences that set colours.\<close>

datatype segment = Plain string | Colour string

fun segment_ok :: "segment \<Rightarrow> bool" where
  "segment_ok (Plain s) \<longleftrightarrow> CHR 0x1B \<notin> set s"
| "segment_ok (Colour a) \<longleftrightarrow> (\<forall>c \<in> set a. isParameterChar c)"

fun render :: "segment \<Rightarrow> string" where
  "render (Plain s) = s"
| "render (Colour a) = CHR 0x1B # CHR ''['' # a @ ''m''"

text \<open>What the inner writer gets of a part, and what the screen becomes.\<close>

fun shown :: "bool \<Rightarrow> segment \<Rightarrow> string" where
  "shown console (Plain s) = s"
| "shown console (Colour a) = (if console then [] else render (Colour a))"

fun recolour :: "u16 option \<Rightarrow> segment \<Rightarrow> u16 option \<Rightarrow> u16 option" where
  "recolour start (Plain s) screen = screen"
| "recolour start (Colour a) screen = snd (parseEscapeSequence start (CHR ''m'') a screen)"

definition has_console :: "u16 option \<Rightarrow> u16 option \<Rightarrow> bool" where
  "has_console start screen \<longleftrightarrow> start \<noteq> None \<and> screen \<noteq> None"

lemma has_console_recolour [simp]: "has_console start (recolour start seg screen) = has_console start screen"
  by (cases seg; cases start; cases screen)
     (simp_all add: has_console_def parseEscapeSequence_def changeColor_def defaultAttr_def Let_def)

lemma parse_m:
  "parseEscapeSequence start (CHR ''m'') a screen
     = (if has_console start screen then changedColor else noConsole, recolour start (Colour a) screen)"
  by (cases start; cases screen)
     (simp_all add: has_console_def parseEscapeSequence_def changeColor_def defaultAttr_def Let_def)

declare recolour.simps(2) [simp del]

abbreviation all_written :: shortness where
  "all_written \<equiv> (\<lambda>s. None)"

definition fresh :: "ansiColorWriter \<Rightarrow> bool" where
  "fresh cw \<longleftrightarrow> ac_state cw = outsideCsiCode \<and> ac_paramStartBuf cw = [] \<and> ac_paramBuf cw = []"

lemma fresh_out [simp]: "fresh (cw\<lparr>ac_out := s\<rparr>) = fresh cw"
  by (simp add: fresh_def)

lemma fresh_again:
  "fresh cw \<Longrightarrow> cw\<lparr>ac_out := s, ac_paramStartBuf := [], ac_paramBuf := [], ac_state := outsideCsiCode\<rparr> = cw\<lparr>ac_out := s\<rparr>"
  "fresh cw \<Longrightarrow> cw\<lparr>ac_paramStartBuf := [], ac_paramBuf := [], ac_out := s, ac_state := outsideCsiCode\<rparr> = cw\<lparr>ac_out := s\<rparr>"
  by (cases cw; simp add: fresh_def)+

lemma loop_plain:
  "ac_state cw = outsideCsiCode \<Longrightarrow> CHR 0x1B \<notin> set s \<Longrightarrow>
   ansi_loop start short p i (s @ rest) r f l cw screen = ansi_loop start short p (i + length s) rest r f l cw screen"
  by (induction s arbitrary: i) auto

lemma loop_params:
  "ac_state cw = secondCsiCode \<Longrightarrow> \<forall>c \<in> set a. isParameterChar c \<Longrightarrow>
   ansi_loop start short p i (a @ rest) r f l cw screen
     = ansi_loop start short p (i + length a) rest r f l (cw\<lparr>ac_paramBuf := ac_paramBuf cw @ a\<rparr>) screen"
  by (induction a arbitrary: i cw) auto

lemma no_parameter [simp]: "\<not> isParameterChar (CHR ''m'')" "CHR ''['' \<noteq> CHR 0x1B"
  by (simp_all add: isParameterChar_def is_digit_def)

lemma slice_between: "f \<le> length q \<Longrightarrow> slice (q @ s) (int f) (int (length q)) = Some (drop f q)"
  by (simp add: slice_def nat_diff_distrib' of_nat_diff [symmetric] del: of_nat_diff)

lemma loop_colour:
  assumes "fresh cw" "\<forall>c \<in> set a. isParameterChar c" "f \<le> length q" "p = q @ render (Colour a) @ rest"
  shows "ansi_loop start all_written p (length q) (render (Colour a) @ rest) r (int f) l cw screen
    = ansi_loop start all_written p (length (q @ render (Colour a))) rest (r + (length q - f) + length (render (Colour a)))
        (int (length (q @ render (Colour a)))) (int (length q))
        (cw\<lparr>ac_out := ac_out cw @ drop f q @ shown (has_console start screen) (Colour a)\<rparr>)
        (recolour start (Colour a) screen)"
proof -
  let ?cw = "cw\<lparr>ac_paramStartBuf := [CHR 0x1B, CHR ''['']  , ac_state := secondCsiCode\<rparr>"
  have "ansi_loop start all_written p (length q) (render (Colour a) @ rest) r (int f) l cw screen
      = ansi_loop start all_written p (length q + 2 + length a) (CHR ''m'' # rest) r (int f) (int (length q))
          (?cw\<lparr>ac_paramBuf := a\<rparr>) screen"
    using assms(1,2) by (simp add: fresh_def loop_params)
  moreover have "slice p (int f) (int (length q)) = Some (drop f q)"
    using slice_between assms(3,4) by simp
  ultimately show ?thesis
    using assms(1)
    by (simp add: ansi_command_def inner_Write_def parse_m resetBuffer_def flushBuffer_def fresh_again)
qed

lemma loop_segments:
  assumes "\<forall>seg \<in> set segs. segment_ok seg" "fresh cw" "f \<le> length q" "p = q @ concat (map render segs)"
  shows "ansi_loop start all_written p (length q) (concat (map render segs)) r (int f) l cw screen
    = Some ((r + (length p - f), False),
        cw\<lparr>ac_out := ac_out cw @ drop f q @ concat (map (shown (has_console start screen)) segs)\<rparr>,
        fold (recolour start) segs screen)"
  using assms
proof (induction segs arbitrary: q f r l cw screen)
  case Nil
  have "slice p (int f) (int (length p)) = Some (drop f q)" using slice_between [of f q "[]"] Nil by simp
  with Nil show ?case by (simp add: ansi_finish_def fresh_def inner_Write_def)
next
  case (Cons seg segs)
  show ?case
  proof (cases seg)
    case (Plain s)
    with Cons.prems have "ansi_loop start all_written p (length q) (concat (map render (seg # segs))) r (int f) l cw screen
        = ansi_loop start all_written p (length (q @ s)) (concat (map render segs)) r (int f) l cw screen"
      by (simp add: loop_plain fresh_def)
    also have "\<dots> = Some ((r + (length p - f), False),
        cw\<lparr>ac_out := ac_out cw @ drop f (q @ s) @ concat (map (shown (has_console start screen)) segs)\<rparr>,
        fold (recolour start) segs screen)"
      using Cons.prems Plain by (intro Cons.IH) auto
    finally show ?thesis using Plain Cons.prems by simp
  next
    case (Colour a)
    let ?q = "q @ render (Colour a)" and ?cw = "cw\<lparr>ac_out := ac_out cw @ drop f q @ shown (has_console start screen) (Colour a)\<rparr>"
    have "ansi_loop start all_written p (length q) (concat (map render (seg # segs))) r (int f) l cw screen
        = ansi_loop start all_written p (length ?q) (concat (map render segs)) (r + (length q - f) + length (render (Colour a)))
            (int (length ?q)) (int (length q)) ?cw (recolour start (Colour a) screen)"
      using loop_colour [of cw a f q p "concat (map render segs)" start r l screen] Cons.prems Colour by (simp del: render.simps)
    also have "\<dots> = Some ((r + (length q - f) + length (render (Colour a)) + (length p - length ?q), False),
        ?cw\<lparr>ac_out := ac_out ?cw @ drop (length ?q) ?q @ concat (map (shown (has_console start (recolour start (Colour a) screen))) segs)\<rparr>,
        fold (recolour start) segs (recolour start (Colour a) screen))"
      using Cons.prems Colour by (intro Cons.IH) auto
    finally show ?thesis using Colour Cons.prems by simp
  qed
qed

lemma ansi_Write_segments:
  assumes "\<forall>seg \<in> set segs. segment_ok seg" and "fresh cw"
  shows "ansi_Write start all_written (concat (map render segs)) cw screen
    = Some ((length (concat (map render segs)), False),
        cw\<lparr>ac_out := ac_out cw @ concat (map (shown (has_console start screen)) segs)\<rparr>,
        fold (recolour start) segs screen)"
proof -
  have "snd (resetBuffer (cw\<lparr>ac_state := outsideCsiCode\<rparr>)) = cw"
    using assms(2) by (cases cw) (simp add: resetBuffer_def fresh_def)
  then have "ansi_Write start all_written (concat (map render segs)) cw screen
      = ansi_loop start all_written (concat (map render segs)) (length ([] :: string)) (concat (map render segs)) 0 (int 0) 0 cw screen"
    by (simp add: ansi_Write_def)
  also have "\<dots> = Some ((length (concat (map render segs)), False),
        cw\<lparr>ac_out := ac_out cw @ concat (map (shown (has_console start screen)) segs)\<rparr>, fold (recolour start) segs screen)"
    using loop_segments [OF assms, of 0 "[]" "concat (map render segs)" start 0 0 screen] by simp
  finally show ?thesis .
qed


section \<open>Divided sequences\<close>

text \<open>
  A sequence that is divided between two calls: the first call writes nothing at all and
  reports zero bytes without an error, so that \<open>s\<close>, what came before the sequence, is lost;
  the second call does the rest. When the first call ends with the escape character, the
  second one panics on a slice with a negative bound.
\<close>

theorem ansi_divided:
  assumes "fresh cw" and "ac_mode cw = DiscardNonColorEscSeq" and "CHR 0x1B \<notin> set s" and "CHR 0x1B \<notin> set t"
    and "\<forall>c \<in> set a. isParameterChar c" and "\<forall>c \<in> set b. isParameterChar c" and "has_console start screen"
  shows "(\<exists>cw1. ansi_Write start all_written (s @ CHR 0x1B # CHR ''['' # a) cw screen = Some ((0, False), cw1, screen)
      \<and> ac_out cw1 = ac_out cw
      \<and> (\<exists>r. ansi_Write start all_written (b @ ''m'' @ t) cw1 screen
           = Some ((r, False), cw\<lparr>ac_out := ac_out cw @ t\<rparr>, recolour start (Colour (a @ b)) screen)))
    \<and> (\<exists>cw2. ansi_Write start all_written (s @ [CHR 0x1B]) cw screen = Some ((0, False), cw2, screen)
      \<and> ac_out cw2 = ac_out cw \<and> ansi_Write start all_written (CHR ''['' # a @ ''m'' @ t) cw2 screen = None)"
proof
  let ?cw1 = "cw\<lparr>ac_paramStartBuf := [CHR 0x1B, CHR ''['']  , ac_state := secondCsiCode, ac_paramBuf := a\<rparr>"
  have "ansi_Write start all_written (s @ CHR 0x1B # CHR ''['' # a) cw screen = Some ((0, False), ?cw1, screen)"
    using assms loop_params [of _ a start all_written _ _ "[]"]
    by (simp add: ansi_Write_def loop_plain fresh_def ansi_finish_def)
  moreover have "\<exists>r. ansi_Write start all_written (b @ ''m'' @ t) ?cw1 screen
      = Some ((r, False), cw\<lparr>ac_out := ac_out cw @ t\<rparr>, recolour start (Colour (a @ b)) screen)"
  proof -
    let ?p = "b @ ''m'' @ t" and ?cw2 = "?cw1\<lparr>ac_paramBuf := a @ b\<rparr>"
    have "ansi_Write start all_written ?p ?cw1 screen
        = ansi_loop start all_written ?p (length b) (''m'' @ t) 0 0 0 ?cw2 screen"
      using assms(2,6) by (simp add: ansi_Write_def loop_params)
    also have "\<dots> = ansi_loop start all_written ?p (length (b @ ''m'')) (t @ []) (length (a @ b) + 3) (int (length (b @ ''m''))) 0 cw
        (recolour start (Colour (a @ b)) screen)"
    proof -
      have "cw\<lparr>ac_paramStartBuf := [], ac_paramBuf := [], ac_state := outsideCsiCode\<rparr> = cw"
        using assms(1) by (cases cw) (simp add: fresh_def)
      then show ?thesis using assms(2,7)
        by (simp add: slice_def ansi_command_def inner_Write_def parse_m resetBuffer_def eval_nat_numeral add.commute)
    qed
    also have "\<dots> = ansi_finish all_written ?p (length (a @ b) + 3) (int (length (b @ ''m''))) cw (recolour start (Colour (a @ b)) screen)"
      using assms(1,4) loop_plain [of cw t start all_written ?p "length (b @ ''m'')" "[]"] by (simp add: fresh_def)
    finally show ?thesis using assms(1) slice_between [of "length (b @ ''m'')" "?p" "[]"]
      by (simp add: ansi_finish_def fresh_def inner_Write_def)
  qed
  ultimately show "\<exists>cw1. ansi_Write start all_written (s @ CHR 0x1B # CHR ''['' # a) cw screen = Some ((0, False), cw1, screen)
      \<and> ac_out cw1 = ac_out cw
      \<and> (\<exists>r. ansi_Write start all_written (b @ ''m'' @ t) cw1 screen
           = Some ((r, False), cw\<lparr>ac_out := ac_out cw @ t\<rparr>, recolour start (Colour (a @ b)) screen))"
    by (intro exI [of _ ?cw1]) simp
next
  let ?cw2 = "cw\<lparr>ac_paramStartBuf := [CHR 0x1B], ac_state := firstCsiCode\<rparr>"
  have "ansi_Write start all_written (s @ [CHR 0x1B]) cw screen = Some ((0, False), ?cw2, screen)"
    using assms by (simp add: ansi_Write_def loop_plain fresh_def ansi_finish_def)
  moreover have "ansi_Write start all_written (CHR ''['' # a @ ''m'' @ t) ?cw2 screen = None"
    using assms by (simp add: ansi_Write_def loop_params slice_def)
  ultimately show "\<exists>cw2. ansi_Write start all_written (s @ [CHR 0x1B]) cw screen = Some ((0, False), cw2, screen)
      \<and> ac_out cw2 = ac_out cw \<and> ansi_Write start all_written (CHR ''['' # a @ ''m'' @ t) cw2 screen = None"
    by (intro exI [of _ ?cw2]) simp
qed

section \<open>Debug output\<close>

text \<open>\<open>W32Debug\<close> of \<open>logger.go\<close>: one write to a new writer over the standard output.\<close>

definition debug_time :: "time \<Rightarrow> string" where
  "debug_time t = padded 4 (tm_year t) @ ''/'' @ padded 2 (tm_month t) @ ''/'' @ padded 2 (tm_day t) @ '' - ''
     @ padded 2 (tm_hour t) @ '':'' @ padded 2 (tm_min t) @ '':'' @ padded 2 (tm_sec t)"

definition W32Debug :: "u16 option \<Rightarrow> shortness \<Rightarrow> time \<Rightarrow> string \<Rightarrow> u16 option \<Rightarrow> ansi_result option" where
  "W32Debug start short current msg screen =
     ansi_Write start short (''[beego] '' @ debug_time current @ '' '' @ msg @ [CHR 0x0A]) (NewAnsiColorWriter None) screen"

lemma padded_digits: "c \<in> set (padded w i) \<Longrightarrow> is_digit c"
  by (induction w arbitrary: i) auto

lemma esc_padded: "CHR 0x1B \<notin> set (padded w i)"
  using padded_digits [of "CHR 0x1B" w i] by (auto simp: is_digit_def)

text \<open>A message of complete sequences reaches the output as one line with its plain parts.\<close>

lemma W32Debug_line:
  assumes "\<forall>seg \<in> set segs. segment_ok seg"
  shows "\<exists>cw n. W32Debug start all_written t (concat (map render segs)) screen = Some ((n, False), cw, fold (recolour start) segs screen)
    \<and> ac_out cw = ''[beego] '' @ debug_time t @ '' '' @ concat (map (shown (has_console start screen)) segs) @ [CHR 0x0A]"
proof -
  let ?segs = "Plain (''[beego] '' @ debug_time t @ '' '') # segs @ [Plain [CHR 0x0A]]"
  have "\<forall>seg \<in> set ?segs. segment_ok seg" using assms by (auto simp: debug_time_def esc_padded)
  from ansi_Write_segments [OF this, of "NewAnsiColorWriter None" start screen] show ?thesis
    by (simp add: W32Debug_def NewAnsiColorWriter_def NewModeAnsiColorWriter_def fresh_def)
qed

section \<open>A sample\<close>

definition sample_ansi :: ansiColorWriter where
  "sample_ansi = NewAnsiColorWriter None"

lemma sample_ansi_fresh: "fresh sample_ansi" "ac_mode sample_ansi = DiscardNonColorEscSeq" "ac_out sample_ansi = []"
  by (simp_all add: sample_ansi_def NewAnsiColorWriter_def NewModeAnsiColorWriter_def fresh_def)


theorem ansi_divided_witness:
  "\<exists>cw1. ansi_Write (Some 7) all_written (''hello'' @ CHR 0x1B # ''['' @ ''3'') sample_ansi (Some 7) = Some ((0, False), cw1, Some 7)
     \<and> (\<exists>r cw2. ansi_Write (Some 7) all_written (''1'' @ ''m'' @ ''world'') cw1 (Some 7) = Some ((r, False), cw2, recolour (Some 7) (Colour ''31'') (Some 7))
         \<and> ac_out cw2 = ''world'')"
proof -
  have "CHR 0x1B \<notin> set ''hello''" "CHR 0x1B \<notin> set ''world''" "\<forall>c \<in> set ''3''. isParameterChar c" "\<forall>c \<in> set ''1''. isParameterChar c"
      "has_console (Some 7) (Some 7)"
    by (simp_all add: isParameterChar_def is_digit_def has_console_def)
  from conjunct1 [OF ansi_divided [OF sample_ansi_fresh(1,2) this]] show ?thesis
    by (auto simp: sample_ansi_fresh)
qed

text \<open>A sequence after two escape characters reports more bytes than it was given.\<close>

lemma ansi_overcount:
  "\<exists>cw. ansi_Write (Some 7) all_written [CHR 0x1B, CHR 0x1B, CHR ''['', CHR ''m''] sample_ansi (Some 7) = Some ((5, False), cw, Some 7)"
  by (simp add: ansi_Write_def sample_ansi_def NewAnsiColorWriter_def NewModeAnsiColorWriter_def slice_def ansi_command_def
      inner_Write_def parse_m resetBuffer_def has_console_def recolour.simps(2) parseEscapeSequence_def changeColor_def defaultAttr_def
      apply_code_def colorMap_def colorTable_def convertTextAttr_def convertWinAttr_def attr_simps ansi_finish_def)


section \<open>Elsewhere\<close>

text \<open>
  On other systems (\<open>internal/logs/color.go\<close>) the writer hands the bytes on: the same call of
  the writer inside, with its result.
\<close>

record 'w plainColorWriter =
  pcw_w :: 'w
  pcw_mode :: outputMode

definition plain_Write :: "('w \<Rightarrow> byte list \<Rightarrow> ('r \<times> 'w)) \<Rightarrow> byte list \<Rightarrow> 'w plainColorWriter \<Rightarrow> 'r \<times> 'w plainColorWriter" where
  "plain_Write inner p cw = (case inner (pcw_w cw) p of (r, w) \<Rightarrow> (r, cw\<lparr>pcw_w := w\<rparr>))"

text \<open>So writing two texts is what the writer inside makes of them, in order.\<close>

lemma plain_Write_passes:
  "plain_Write inner p cw = (r, cw') \<Longrightarrow> inner (pcw_w cw) p = (r, pcw_w cw') \<and> pcw_mode cw' = pcw_mode cw"
  by (auto simp: plain_Write_def split: prod.splits)

end
