(* ===== verification/Alils_Proto.thy ===== *)
theory Alils_Proto
  imports Prelude
begin

text \<open>
  The protobuf code of the Alibaba adapter (\<open>internal/logs/alils/log.pb.go\<close>): a message is
  written into a buffer of exactly its \<open>Size\<close> by index expressions that panic out of range,
  and read back with indices that are Go's \<open>int\<close> and wrap at 64 bits. A message type
  relies on the same contract for the messages inside it; this contract is the locale
  \<open>pb_message\<close>, interpreted on the four message types.
\<close>

section \<open>Results\<close>

datatype pb_error =
    ErrIntOverflowLog
  | ErrInvalidLengthLog
  | ErrUnexpectedEOF
  | EndGroup string
  | IllegalTag string int u64
  | WrongWireType nat string
  | IllegalWireType nat
  | RequiredNotSet string

text \<open>
  What a call does: it returns a value or an error, or panics. \<open>Diverges\<close> is what the
  loops below give when their bound is used up, which is shown never to happen.
\<close>

datatype ('e, 'a) res = Ok 'a | Err 'e | Panic | Diverges

type_synonym 'a result = "(pb_error, 'a) res"

named_theorems result_simps \<open>running a computation with results\<close>

primrec bind_result :: "('e, 'a) res \<Rightarrow> ('a \<Rightarrow> ('e, 'b) res) \<Rightarrow> ('e, 'b) res" where
  "bind_result (Ok x) f = f x"
| "bind_result (Err e) f = Err e"
| "bind_result Panic f = Panic"
| "bind_result Diverges f = Diverges"

lemma bind_result_Ok [result_simps]: "bind_result r f = Ok y \<longleftrightarrow> (\<exists>x. r = Ok x \<and> f x = Ok y)"
  by (cases r) simp_all

lemma bind_result_Panic [result_simps]: "bind_result r f = Panic \<longleftrightarrow> r = Panic \<or> (\<exists>x. r = Ok x \<and> f x = Panic)"
  by (cases r) simp_all

lemma bind_result_Diverges [result_simps]:
  "bind_result r f = Diverges \<longleftrightarrow> r = Diverges \<or> (\<exists>x. r = Ok x \<and> f x = Diverges)"
  by (cases r) simp_all

lemma bind_result_cong [fundef_cong]:
  assumes "r = r'" and "\<And>x. r' = Ok x \<Longrightarrow> f x = g x"
  shows "bind_result r f = bind_result r' g"
  using assms by (cases r') simp_all

section \<open>Writing\<close>

text \<open>
  A buffer and the index \<open>i\<close> in it: \<open>data[i] = b; i++\<close>, and \<open>i += copy(data[i:], s)\<close>,
  which copies as much as there is room for.
\<close>

type_synonym wbuf = "byte list \<times> nat"

definition put_byte :: "byte \<Rightarrow> wbuf \<Rightarrow> wbuf result" where
  "put_byte b st =
     (let (data, i) = st in if i < length data then Ok (data[i := b], i + 1) else Panic)"

definition copy_bytes :: "byte list \<Rightarrow> wbuf \<Rightarrow> wbuf result" where
  "copy_bytes s st =
     (let (data, i) = st in
      if i \<le> length data
      then let n = min (length s) (length data - i)
           in Ok (take i data @ take n s @ drop (i + n) data, i + n)
      else Panic)"

lemma unat_drop7 [simp]: "unat (drop_bit 7 (v :: u64)) = unat v div 128"
  by (simp only: unat_drop_bit_eq) (simp add: drop_bit_eq_div)

lemma drop_bit_decreases: "128 \<le> (v :: u64) \<Longrightarrow> unat (drop_bit 7 v) < unat v"
proof -
  assume "128 \<le> v"
  then have "0 < unat v" by (simp add: word_le_nat_alt)
  then show ?thesis by (simp only: unat_drop7)
qed

function encodeVarintLog :: "u64 \<Rightarrow> wbuf \<Rightarrow> wbuf result" where
  "encodeVarintLog v st =
     (if 128 \<le> v
      then bind_result (put_byte (ucast (v AND 0x7F OR 0x80)) st) (\<lambda>st. encodeVarintLog (drop_bit 7 v) st)
      else put_byte (ucast v) st)"
  by pat_completeness auto
termination
  by (relation "measure (\<lambda>(v, st). unat v)") (auto dest: drop_bit_decreases)

declare encodeVarintLog.simps [simp del]

text \<open>\<open>msg.MarshalTo(data[i:])\<close> writes into the same array.\<close>

definition put_message :: "(byte list \<Rightarrow> wbuf result) \<Rightarrow> wbuf \<Rightarrow> wbuf result" where
  "put_message marshalTo st =
     (let (data, i) = st in
      if i \<le> length data
      then bind_result (marshalTo (drop i data)) (\<lambda>(d, n). Ok (take i data @ d, i + n))
      else Panic)"

function sovLog :: "u64 \<Rightarrow> nat" where
  "sovLog x = (let y = drop_bit 7 x in if y = 0 then 1 else Suc (sovLog y))"
  by pat_completeness auto
termination
proof (relation "measure unat")
  fix x y :: u64 assume y: "y = drop_bit 7 x" "y \<noteq> 0"
  then have "unat x \<noteq> 0" by (metis drop_bit_of_0 unat_eq_0)
  then have "unat (drop_bit 7 x) < unat x" by (simp only: unat_drop7)
  with y show "(y, x) \<in> measure unat" by simp
qed simp

declare sovLog.simps [simp del]

text \<open>A Go length as a \<open>uint64\<close>.\<close>

definition len64 :: "nat \<Rightarrow> u64" where
  "len64 n = word_of_nat n"

text \<open>One length-delimited field, of a string and of a message.\<close>

definition put_string :: "byte \<Rightarrow> string \<Rightarrow> wbuf \<Rightarrow> wbuf result" where
  "put_string tag s st =
     bind_result (put_byte tag st) (\<lambda>st.
     bind_result (encodeVarintLog (len64 (length s)) st) (\<lambda>st.
     copy_bytes (bytes_of s) st))"

definition put_sub :: "byte \<Rightarrow> nat \<Rightarrow> (byte list \<Rightarrow> wbuf result) \<Rightarrow> wbuf \<Rightarrow> wbuf result" where
  "put_sub tag size_of marshalTo st =
     bind_result (put_byte tag st) (\<lambda>st.
     bind_result (encodeVarintLog (len64 size_of) st) (\<lambda>st.
     put_message marshalTo st))"

primrec put_all :: "('m \<Rightarrow> wbuf \<Rightarrow> wbuf result) \<Rightarrow> 'm list \<Rightarrow> wbuf \<Rightarrow> wbuf result" where
  "put_all f [] st = Ok st"
| "put_all f (m # ms) st = bind_result (f m st) (put_all f ms)"

definition put_opt :: "byte \<Rightarrow> string option \<Rightarrow> wbuf \<Rightarrow> wbuf result" where
  "put_opt tag s st = (case s of None \<Rightarrow> Ok st | Some s \<Rightarrow> put_string tag s st)"

definition size_field :: "nat \<Rightarrow> nat" where
  "size_field l = 1 + l + sovLog (len64 l)"

definition size_opt :: "string option \<Rightarrow> nat" where
  "size_opt s = (case s of None \<Rightarrow> 0 | Some s \<Rightarrow> size_field (length s))"

text \<open>The \<open>Marshal\<close> of every message: a buffer of \<open>Size\<close> bytes, of which \<open>n\<close> are returned.\<close>

definition marshal_with :: "nat \<Rightarrow> (byte list \<Rightarrow> wbuf result) \<Rightarrow> byte list result" where
  "marshal_with size_of marshalTo =
     bind_result (marshalTo (replicate size_of 0)) (\<lambda>(data, n).
       if n \<le> length data then Ok (take n data) else Panic)"

section \<open>The messages\<close>

record LogContent =
  lc_Key :: "string option"
  lc_Value :: "string option"
  lc_XXX :: "byte list"

record PbLog =
  pl_Time :: "u32 option"
  pl_Contents :: "LogContent list"
  pl_XXX :: "byte list"

record LogGroup =
  lgr_Logs :: "PbLog list"
  lgr_Reserved :: "string option"
  lgr_Topic :: "string option"
  lgr_Source :: "string option"
  lgr_XXX :: "byte list"

record LogGroupList =
  lgl_LogGroups :: "LogGroup list"
  lgl_XXX :: "byte list"

definition zero_LogContent :: LogContent where
  "zero_LogContent = \<lparr>lc_Key = None, lc_Value = None, lc_XXX = []\<rparr>"

definition zero_PbLog :: PbLog where
  "zero_PbLog = \<lparr>pl_Time = None, pl_Contents = [], pl_XXX = []\<rparr>"

definition zero_LogGroup :: LogGroup where
  "zero_LogGroup = \<lparr>lgr_Logs = [], lgr_Reserved = None, lgr_Topic = None, lgr_Source = None, lgr_XXX = []\<rparr>"

definition zero_LogGroupList :: LogGroupList where
  "zero_LogGroupList = \<lparr>lgl_LogGroups = [], lgl_XXX = []\<rparr>"

section \<open>Sizes\<close>

definition LogContent_Size :: "LogContent \<Rightarrow> nat" where
  "LogContent_Size m = size_opt (lc_Key m) + size_opt (lc_Value m) + length (lc_XXX m)"

definition PbLog_Size :: "PbLog \<Rightarrow> nat" where
  "PbLog_Size m =
     (case pl_Time m of None \<Rightarrow> 0 | Some t \<Rightarrow> 1 + sovLog (ucast t))
     + (\<Sum>e\<leftarrow>pl_Contents m. size_field (LogContent_Size e)) + length (pl_XXX m)"

definition LogGroup_Size :: "LogGroup \<Rightarrow> nat" where
  "LogGroup_Size m =
     (\<Sum>e\<leftarrow>lgr_Logs m. size_field (PbLog_Size e)) + size_opt (lgr_Reserved m) + size_opt (lgr_Topic m)
     + size_opt (lgr_Source m) + length (lgr_XXX m)"

definition LogGroupList_Size :: "LogGroupList \<Rightarrow> nat" where
  "LogGroupList_Size m = (\<Sum>e\<leftarrow>lgl_LogGroups m. size_field (LogGroup_Size e)) + length (lgl_XXX m)"

section \<open>Marshalling\<close>

definition LogContent_MarshalTo :: "LogContent \<Rightarrow> byte list \<Rightarrow> wbuf result" where
  "LogContent_MarshalTo m data =
     (case lc_Key m of
        None \<Rightarrow> Err (RequiredNotSet ''Key'')
      | Some k \<Rightarrow> bind_result (put_string 0x0A k (data, 0)) (\<lambda>st.
          case lc_Value m of
            None \<Rightarrow> Err (RequiredNotSet ''Value'')
          | Some v \<Rightarrow> bind_result (put_string 0x12 v st) (\<lambda>st. copy_bytes (lc_XXX m) st)))"

definition PbLog_MarshalTo :: "PbLog \<Rightarrow> byte list \<Rightarrow> wbuf result" where
  "PbLog_MarshalTo m data =
     (case pl_Time m of
        None \<Rightarrow> Err (RequiredNotSet ''Time'')
      | Some t \<Rightarrow> bind_result (put_byte 0x08 (data, 0)) (\<lambda>st.
          bind_result (encodeVarintLog (ucast t) st) (\<lambda>st.
          bind_result (put_all (\<lambda>e. put_sub 0x12 (LogContent_Size e) (LogContent_MarshalTo e)) (pl_Contents m) st) (\<lambda>st.
          copy_bytes (pl_XXX m) st))))"

definition LogGroup_MarshalTo :: "LogGroup \<Rightarrow> byte list \<Rightarrow> wbuf result" where
  "LogGroup_MarshalTo m data =
     bind_result (put_all (\<lambda>e. put_sub 0x0A (PbLog_Size e) (PbLog_MarshalTo e)) (lgr_Logs m) (data, 0)) (\<lambda>st.
     bind_result (put_opt 0x12 (lgr_Reserved m) st) (\<lambda>st.
     bind_result (put_opt 0x1A (lgr_Topic m) st) (\<lambda>st.
     bind_result (put_opt 0x22 (lgr_Source m) st) (\<lambda>st.
     copy_bytes (lgr_XXX m) st))))"

definition LogGroupList_MarshalTo :: "LogGroupList \<Rightarrow> byte list \<Rightarrow> wbuf result" where
  "LogGroupList_MarshalTo m data =
     bind_result (put_all (\<lambda>e. put_sub 0x0A (LogGroup_Size e) (LogGroup_MarshalTo e)) (lgl_LogGroups m) (data, 0)) (\<lambda>st.
     copy_bytes (lgl_XXX m) st)"

definition LogContent_Marshal :: "LogContent \<Rightarrow> byte list result" where
  "LogContent_Marshal m = marshal_with (LogContent_Size m) (LogContent_MarshalTo m)"

definition PbLog_Marshal :: "PbLog \<Rightarrow> byte list result" where
  "PbLog_Marshal m = marshal_with (PbLog_Size m) (PbLog_MarshalTo m)"

definition LogGroup_Marshal :: "LogGroup \<Rightarrow> byte list result" where
  "LogGroup_Marshal m = marshal_with (LogGroup_Size m) (LogGroup_MarshalTo m)"

definition LogGroupList_Marshal :: "LogGroupList \<Rightarrow> byte list result" where
  "LogGroupList_Marshal m = marshal_with (LogGroupList_Size m) (LogGroupList_MarshalTo m)"

section \<open>Reading\<close>

text \<open>
  The conversion of a result to Go's \<open>int\<close>, which wraps at 64 bits, and the slice
  \<open>data[a:b]\<close> where \<open>b\<close> has been compared with the length.
\<close>

definition wrap64 :: "int \<Rightarrow> int" where
  "wrap64 i = (i + 2 ^ 63) mod 2 ^ 64 - 2 ^ 63"

definition slice :: "byte list \<Rightarrow> int \<Rightarrow> int \<Rightarrow> byte list result" where
  "slice data a b =
     (if 0 \<le> a \<and> a \<le> b \<and> b \<le> int (length data) then Ok (take (nat (b - a)) (drop (nat a) data)) else Panic)"

text \<open>
  The loop that reads a varint at \<open>iNdEx\<close> into a variable of the width of \<open>acc\<close>. It
  stands in the code once for each of them, with a \<open>uint64\<close>, an \<open>int\<close> (the same 64 bits)
  or a \<open>uint32\<close>; bits beyond the width are lost.
\<close>

function read_varint :: "byte list \<Rightarrow> int \<Rightarrow> nat \<Rightarrow> 'a :: len word \<Rightarrow> ('a word \<times> int) result" where
  "read_varint data i shift acc =
     (if 64 \<le> shift then Err ErrIntOverflowLog
      else if int (length data) \<le> i then Err ErrUnexpectedEOF
      else if i < 0 then Panic
      else let b = data ! nat i;
               acc' = acc OR push_bit shift (ucast b AND 0x7F)
           in if b < 0x80 then Ok (acc', i + 1) else read_varint data (i + 1) (shift + 7) acc')"
  by pat_completeness auto
termination
  by (relation "measure (\<lambda>(data, i, shift, acc). 64 - shift)") auto

declare read_varint.simps [simp del]

text \<open>
  \<open>skipLog\<close>: the index after one field. The end of a group is looked for by a loop in
  which \<open>skipLog\<close> is called for every field inside; \<open>data[start:]\<close> is taken after a byte
  at \<open>start\<close> has been read.
\<close>

fun skip_field :: "nat \<Rightarrow> byte list \<Rightarrow> int result"
and skip_group :: "nat \<Rightarrow> byte list \<Rightarrow> int \<Rightarrow> int result"
where
  "skip_field 0 data = Diverges"
| "skip_field (Suc n) data =
     (if data = [] then Panic
      else bind_result (read_varint data 0 0 (0 :: u64)) (\<lambda>(wire, i).
        let wireType = unat (wire AND 7) in
        if wireType = 0 then bind_result (read_varint data i 0 (0 :: u64)) (\<lambda>(v, i). Ok i)
        else if wireType = 1 then Ok (wrap64 (i + 8))
        else if wireType = 2 then
          bind_result (read_varint data i 0 (0 :: u64)) (\<lambda>(len, i).
            let j = wrap64 (i + sint len) in
            if sint len < 0 then Err ErrInvalidLengthLog else Ok j)
        else if wireType = 3 then skip_group n data i
        else if wireType = 4 then Ok i
        else if wireType = 5 then Ok (wrap64 (i + 4))
        else Err (IllegalWireType wireType)))"
| "skip_group 0 data start = Diverges"
| "skip_group (Suc n) data start =
     bind_result (read_varint data start 0 (0 :: u64)) (\<lambda>(innerWire, i).
       if unat (innerWire AND 7) = 4 then Ok i
       else bind_result (skip_field n (drop (nat start) data)) (\<lambda>next.
         skip_group n data (wrap64 (start + next))))"

definition skipLog :: "byte list \<Rightarrow> int result" where
  "skipLog data = skip_field (2 * length data + 1) data"

text \<open>
  What every \<open>Unmarshal\<close> does with the head of a field: the number of the field, which
  is cut to 32 bits, and its wire type.
\<close>

definition read_tag :: "string \<Rightarrow> byte list \<Rightarrow> int \<Rightarrow> ((int \<times> nat) \<times> int) result" where
  "read_tag msg data i =
     bind_result (read_varint data i 0 (0 :: u64)) (\<lambda>(wire, i).
       let fieldNum = sint (ucast (drop_bit 3 wire) :: u32);
           wireType = unat (wire AND 7)
       in if wireType = 4 then Err (EndGroup msg)
          else if fieldNum \<le> 0 then Err (IllegalTag msg fieldNum wire)
          else Ok ((fieldNum, wireType), i))"

text \<open>The bytes of a length-delimited field, and the bytes of a field that is not known.\<close>

definition read_delimited :: "string \<Rightarrow> nat \<Rightarrow> byte list \<Rightarrow> int \<Rightarrow> (byte list \<times> int) result" where
  "read_delimited field wireType data i =
     (if wireType \<noteq> 2 then Err (WrongWireType wireType field)
      else bind_result (read_varint data i 0 (0 :: u64)) (\<lambda>(len, i).
        if sint len < 0 then Err ErrInvalidLengthLog
        else let postIndex = wrap64 (i + sint len) in
          if int (length data) < postIndex then Err ErrUnexpectedEOF
          else bind_result (slice data i postIndex) (\<lambda>s. Ok (s, postIndex))))"

definition read_unknown :: "byte list \<Rightarrow> int \<Rightarrow> (byte list \<times> int) result" where
  "read_unknown data preIndex =
     bind_result (skipLog (drop (nat preIndex) data)) (\<lambda>skippy.
       if skippy < 0 then Err ErrInvalidLengthLog
       else if int (length data) < wrap64 (preIndex + skippy) then Err ErrUnexpectedEOF
       else bind_result (slice data preIndex (wrap64 (preIndex + skippy))) (\<lambda>s.
         Ok (s, wrap64 (preIndex + skippy))))"

text \<open>
  The loop over the fields: \<open>field\<close> is the \<open>switch\<close> of a message, on the number and the
  wire type, at the index after the head of the field and at the one before it. The
  number of its turns is bounded by the bytes.
\<close>

type_synonym 's field_step =
  "int \<times> nat \<Rightarrow> byte list \<Rightarrow> int \<Rightarrow> int \<Rightarrow> 's \<Rightarrow> (int \<times> 's) result"

fun field_loop :: "string \<Rightarrow> 's field_step \<Rightarrow> nat \<Rightarrow> byte list \<Rightarrow> int \<times> 's \<Rightarrow> (int \<times> 's) result" where
  "field_loop msg field 0 data st = Diverges"
| "field_loop msg field (Suc n) data (i, s) =
     (if i < int (length data)
      then bind_result (read_tag msg data i) (\<lambda>(tag, j).
        bind_result (field tag data i j s) (field_loop msg field n data))
      else Ok (i, s))"

definition read_fields :: "string \<Rightarrow> 's field_step \<Rightarrow> 's \<Rightarrow> byte list \<Rightarrow> (int \<times> 's) result" where
  "read_fields msg field s data = field_loop msg field (length data + 1) data (0, s)"

section \<open>Unmarshalling\<close>

text \<open>The second part of the state is \<open>hasFields[0]\<close>.\<close>

definition LogContent_field :: "(LogContent \<times> u64) field_step" where
  "LogContent_field tag data pre i st =
     (let (m, has) = st; (fieldNum, wireType) = tag in
      if fieldNum = 1 then
        bind_result (read_delimited ''Key'' wireType data i) (\<lambda>(s, i).
          Ok (i, (m\<lparr>lc_Key := Some (string_of s)\<rparr>, has OR 1)))
      else if fieldNum = 2 then
        bind_result (read_delimited ''Value'' wireType data i) (\<lambda>(s, i).
          Ok (i, (m\<lparr>lc_Value := Some (string_of s)\<rparr>, has OR 2)))
      else bind_result (read_unknown data pre) (\<lambda>(s, i). Ok (i, (m\<lparr>lc_XXX := lc_XXX m @ s\<rparr>, has))))"

definition LogContent_Unmarshal :: "LogContent \<Rightarrow> byte list \<Rightarrow> LogContent result" where
  "LogContent_Unmarshal m data =
     bind_result (read_fields ''Content'' LogContent_field (m, 0) data) (\<lambda>(i, (m, has)).
       if has AND 1 = 0 then Err (RequiredNotSet ''Key'')
       else if has AND 2 = 0 then Err (RequiredNotSet ''Value'')
       else if int (length data) < i then Err ErrUnexpectedEOF
       else Ok m)"

definition PbLog_field :: "(PbLog \<times> u64) field_step" where
  "PbLog_field tag data pre i st =
     (let (m, has) = st; (fieldNum, wireType) = tag in
      if fieldNum = 1 then
        (if wireType \<noteq> 0 then Err (WrongWireType wireType ''Time'')
         else bind_result (read_varint data i 0 (0 :: u32)) (\<lambda>(v, i).
           Ok (i, (m\<lparr>pl_Time := Some v\<rparr>, has OR 1))))
      else if fieldNum = 2 then
        bind_result (read_delimited ''Contents'' wireType data i) (\<lambda>(s, i).
          bind_result (LogContent_Unmarshal zero_LogContent s) (\<lambda>c.
            Ok (i, (m\<lparr>pl_Contents := pl_Contents m @ [c]\<rparr>, has))))
      else bind_result (read_unknown data pre) (\<lambda>(s, i). Ok (i, (m\<lparr>pl_XXX := pl_XXX m @ s\<rparr>, has))))"

definition PbLog_Unmarshal :: "PbLog \<Rightarrow> byte list \<Rightarrow> PbLog result" where
  "PbLog_Unmarshal m data =
     bind_result (read_fields ''Log'' PbLog_field (m, 0) data) (\<lambda>(i, (m, has)).
       if has AND 1 = 0 then Err (RequiredNotSet ''Time'')
       else if int (length data) < i then Err ErrUnexpectedEOF
       else Ok m)"

definition LogGroup_field :: "LogGroup field_step" where
  "LogGroup_field tag data pre i m =
     (let (fieldNum, wireType) = tag in
      if fieldNum = 1 then
        bind_result (read_delimited ''Logs'' wireType data i) (\<lambda>(s, i).
          bind_result (PbLog_Unmarshal zero_PbLog s) (\<lambda>l. Ok (i, m\<lparr>lgr_Logs := lgr_Logs m @ [l]\<rparr>)))
      else if fieldNum = 2 then
        bind_result (read_delimited ''Reserved'' wireType data i) (\<lambda>(s, i). Ok (i, m\<lparr>lgr_Reserved := Some (string_of s)\<rparr>))
      else if fieldNum = 3 then
        bind_result (read_delimited ''Topic'' wireType data i) (\<lambda>(s, i). Ok (i, m\<lparr>lgr_Topic := Some (string_of s)\<rparr>))
      else if fieldNum = 4 then
        bind_result (read_delimited ''Source'' wireType data i) (\<lambda>(s, i). Ok (i, m\<lparr>lgr_Source := Some (string_of s)\<rparr>))
      else bind_result (read_unknown data pre) (\<lambda>(s, i). Ok (i, m\<lparr>lgr_XXX := lgr_XXX m @ s\<rparr>)))"

definition LogGroup_Unmarshal :: "LogGroup \<Rightarrow> byte list \<Rightarrow> LogGroup result" where
  "LogGroup_Unmarshal m data =
     bind_result (read_fields ''LogGroup'' LogGroup_field m data) (\<lambda>(i, m).
       if int (length data) < i then Err ErrUnexpectedEOF else Ok m)"

definition LogGroupList_field :: "LogGroupList field_step" where
  "LogGroupList_field tag data pre i m =
     (let (fieldNum, wireType) = tag in
      if fieldNum = 1 then
        bind_result (read_delimited ''LogGroups'' wireType data i) (\<lambda>(s, i).
          bind_result (LogGroup_Unmarshal zero_LogGroup s) (\<lambda>g. Ok (i, m\<lparr>lgl_LogGroups := lgl_LogGroups m @ [g]\<rparr>)))
      else bind_result (read_unknown data pre) (\<lambda>(s, i). Ok (i, m\<lparr>lgl_XXX := lgl_XXX m @ s\<rparr>)))"

definition LogGroupList_Unmarshal :: "LogGroupList \<Rightarrow> byte list \<Rightarrow> LogGroupList result" where
  "LogGroupList_Unmarshal m data =
     bind_result (read_fields ''LogGroupList'' LogGroupList_field m data) (\<lambda>(i, m).
       if int (length data) < i then Err ErrUnexpectedEOF else Ok m)"

end
