(* ===== verification/Alils_Request.thy ===== *)
theory Alils_Request
  imports Alils_Proto Log_Format
begin

text \<open>
  Requests of the Alibaba adapter (\<open>internal/logs/alils/signature.go\<close>, \<open>request.go\<close>,
  \<open>config.go\<close>): the text that is signed, its signature and the headers that are sent. What
  is outside is one record: the date, the hash functions, the order in which a loop visits
  a map, and the answer that a request gets. \<open>net/url\<close> is modelled for paths that begin
  with a single slash, which all that the code asks for do.
\<close>

section \<open>Texts of \<open>net/url\<close>, \<open>strings\<close> and \<open>encoding/base64\<close>\<close>

definition hex_upper :: "nat \<Rightarrow> char" where
  "hex_upper n = (if n < 10 then char_of (48 + n) else char_of (55 + n))"

definition hex_byte :: "byte \<Rightarrow> string" where
  "hex_byte b = [hex_upper (unat b div 16), hex_upper (unat b mod 16)]"

text \<open>\<open>unescape\<close>: in a query a plus is a blank.\<close>

fun unescape :: "bool \<Rightarrow> string \<Rightarrow> string option" where
  "unescape inQuery [] = Some []"
| "unescape inQuery (c # s) =
     (if c = CHR ''%'' then
        (case s of
           a # b # r \<Rightarrow>
             (case (hex_val a, hex_val b) of
                (Some x, Some y) \<Rightarrow> map_option (\<lambda>t. char_of (16 * x + y) # t) (unescape inQuery r)
              | _ \<Rightarrow> None)
         | _ \<Rightarrow> None)
      else map_option (\<lambda>t. (if inQuery \<and> c = CHR ''+'' then CHR '' '' else c) # t) (unescape inQuery s))"

definition unreserved :: "char \<Rightarrow> bool" where
  "unreserved c \<longleftrightarrow> is_digit c \<or> (let n = of_char c :: nat in 65 \<le> n \<and> n \<le> 90 \<or> 97 \<le> n \<and> n \<le> 122)
     \<or> c \<in> {CHR ''-'', CHR ''_'', CHR ''.'', CHR ''~''}"

definition QueryEscape :: "string \<Rightarrow> string" where
  "QueryEscape s =
     concat (map (\<lambda>c. if c = CHR '' '' then ''+'' else if unreserved c then [c] else CHR ''%'' # hex_byte (byte_of_char c)) s)"

definition cut_or_all :: "char \<Rightarrow> string \<Rightarrow> string \<times> string" where
  "cut_or_all c s = (case cut c s of None \<Rightarrow> (s, []) | Some p \<Rightarrow> p)"

text \<open>\<open>url.Parse\<close> of a path, with the unescaped path and the raw query.\<close>

definition url_Parse :: "string \<Rightarrow> (string \<times> string) option" where
  "url_Parse rawurl =
     (let (u, frag) = cut_or_all (CHR ''#'') rawurl;
          (rest, query) = cut_or_all (CHR ''?'') u
      in if (\<exists>c \<in> set u. (of_char c :: nat) < 32 \<or> (of_char c :: nat) = 127) then None
         else if unescape False frag = None then None
         else map_option (\<lambda>path. (path, query)) (unescape False rest))"

text \<open>\<open>u.Query()\<close>: pieces that cannot be unescaped are left out.\<close>

definition split_query :: "string \<Rightarrow> string list" where
  "split_query q = split_on (CHR ''&'') (map (\<lambda>c. if c = CHR '';'' then CHR ''&'' else c) q)"

definition query_pair :: "string \<Rightarrow> (string \<times> string) option" where
  "query_pair piece =
     (let (k, v) = cut_or_all (CHR ''='') piece in
      if piece = [] then None
      else case (unescape True k, unescape True v) of (Some k, Some v) \<Rightarrow> Some (k, v) | _ \<Rightarrow> None)"

definition url_Query :: "string \<Rightarrow> (string \<times> string) list" where
  "url_Query q = List.map_filter query_pair (split_query q)"

definition is_space :: "char \<Rightarrow> bool" where
  "is_space c \<longleftrightarrow> (of_char c :: nat) \<in> {9, 10, 11, 12, 13, 32}"

definition TrimSpace :: "string \<Rightarrow> string" where
  "TrimSpace s = rev (dropWhile is_space (rev (dropWhile is_space s)))"

definition base64_char :: "nat \<Rightarrow> char" where
  "base64_char n =
     (if n < 26 then char_of (65 + n) else if n < 52 then char_of (71 + n)
      else if n < 62 then char_of (n - 4) else if n = 62 then CHR ''+'' else CHR ''/'')"

fun EncodeToString :: "byte list \<Rightarrow> string" where
  "EncodeToString [] = []"
| "EncodeToString [a] =
     [base64_char (unat a div 4), base64_char (unat a mod 4 * 16), CHR ''='', CHR ''='']"
| "EncodeToString [a, b] =
     [base64_char (unat a div 4), base64_char (unat a mod 4 * 16 + unat b div 16),
      base64_char (unat b mod 16 * 4), CHR ''='']"
| "EncodeToString (a # b # c # r) =
     [base64_char (unat a div 4), base64_char (unat a mod 4 * 16 + unat b div 16),
      base64_char (unat b mod 16 * 4 + unat c div 64), base64_char (unat c mod 64)] @ EncodeToString r"

section \<open>The outside\<close>

record LogProject =
  lp_Name :: string
  lp_Endpoint :: string
  lp_AccessKeyID :: string
  lp_AccessKeySecret :: string

definition NewLogProject :: "string \<Rightarrow> string \<Rightarrow> string \<Rightarrow> string \<Rightarrow> LogProject" where
  "NewLogProject name endpoint keyID keySecret =
     \<lparr>lp_Name = name, lp_Endpoint = endpoint, lp_AccessKeyID = keyID, lp_AccessKeySecret = keySecret\<rparr>"

type_synonym headers = "string \<rightharpoonup> string"

record http_request =
  rq_method :: string
  rq_url :: string
  rq_headers :: "(string \<times> string) list"
  rq_body :: "byte list"

text \<open>
  The request is refused before it is sent, there is no answer, or the answer has a
  status, headers and a body, which may break off.
\<close>

datatype http_answer =
    NotARequest
  | NoAnswer
  | Answer nat "string \<rightharpoonup> string list" "byte list option"

record outside =
  out_date :: string
  out_hmac_sha1 :: "string \<Rightarrow> string \<Rightarrow> byte list"
  out_md5 :: "byte list \<Rightarrow> byte list"
  out_visit :: "headers \<Rightarrow> string list"
  out_http :: "http_request \<Rightarrow> http_answer"

datatype sls_error =
    NoBodyRawSize
  | NoContentType
  | NoDate
  | BadURI
  | RequestRefused
  | RequestUnanswered
  | BodyBroken
  | ErrorText string
  | JsonError json_error
  | Lz4Error
  | ProtoError pb_error
  | NotANumber

definition sls_version :: string where "sls_version = ''0.5.0''"

definition signatureMethod :: string where "signatureMethod = ''hmac-sha1''"

section \<open>The signature\<close>

definition newline :: string where "newline = [CHR 0x0A]"

text \<open>
  The first loop of \<open>signature\<close> visits the headers in the order of the map's iteration;
  it collects the keys, a key again for another one that is the same in lower case, and
  the value that was visited last.
\<close>

definition sls_prefix :: string where "sls_prefix = ''x-sls-''"

definition low_key :: "string \<Rightarrow> string" where
  "low_key k = TrimSpace (map lower k)"

definition collect_header :: "headers \<Rightarrow> string \<Rightarrow> headers \<times> string list \<Rightarrow> headers \<times> string list" where
  "collect_header headers k acc =
     (let (slsHeaders, keys) = acc; l = low_key k in
      if take (length sls_prefix) l = sls_prefix
      then (slsHeaders(l \<mapsto> TrimSpace (the (headers k))), keys @ [l])
      else acc)"

definition canoHeaders :: "headers \<Rightarrow> string list \<Rightarrow> string" where
  "canoHeaders headers order =
     (let (slsHeaders, keys) = fold (collect_header headers) order (Map.empty, []) in
      join newline (map (\<lambda>k. k @ '':'' @ the (slsHeaders k)) (sort keys)))"

definition canoQuery :: "string \<Rightarrow> string" where
  "canoQuery q =
     (let vals = url_Query q in
      join ''&'' (map (\<lambda>k. concat (map (\<lambda>(k', v). if k' = k then k @ ''='' @ v else []) vals)) (sort (remdups (map fst vals)))))"

definition canoResource :: "string \<Rightarrow> string option" where
  "canoResource uri =
     map_option (\<lambda>(path, query). QueryEscape path @ (if query \<noteq> [] then ''?'' @ canoQuery query else []))
       (url_Parse uri)"

definition signStr :: "string \<Rightarrow> string \<Rightarrow> headers \<Rightarrow> string list \<Rightarrow> (sls_error, string) res" where
  "signStr method uri headers order =
     (let contentMD5 = (case headers ''Content-MD5'' of Some v \<Rightarrow> v | None \<Rightarrow> []);
          contentType = (case headers ''Content-Type'' of Some v \<Rightarrow> v | None \<Rightarrow> [])
      in case headers ''Date'' of
           None \<Rightarrow> Err NoDate
         | Some date \<Rightarrow>
             (case canoResource uri of
                None \<Rightarrow> Err BadURI
              | Some resource \<Rightarrow>
                  Ok (method @ newline @ contentMD5 @ newline @ contentType @ newline @ date @ newline
                      @ canoHeaders headers order @ newline @ resource)))"

definition signature :: "outside \<Rightarrow> LogProject \<Rightarrow> string \<Rightarrow> string \<Rightarrow> headers \<Rightarrow> (sls_error, string) res" where
  "signature w project method uri headers =
     bind_result (signStr method uri headers (out_visit w headers)) (\<lambda>s.
       Ok (EncodeToString (out_hmac_sha1 w (lp_AccessKeySecret project) s)))"

section \<open>A request\<close>

definition md5_text :: "outside \<Rightarrow> byte list \<Rightarrow> string" where
  "md5_text w body = concat (map hex_byte (out_md5 w body))"

definition public_headers :: "outside \<Rightarrow> LogProject \<Rightarrow> headers \<Rightarrow> headers" where
  "public_headers w project headers =
     headers(''Host'' \<mapsto> lp_Name project @ ''.'' @ lp_Endpoint project,
             ''Date'' \<mapsto> out_date w,
             ''x-sls-apiversion'' \<mapsto> sls_version,
             ''x-sls-signaturemethod'' \<mapsto> signatureMethod)"

text \<open>What \<open>request\<close> does up to the request itself; the body may be \<open>nil\<close>.\<close>

definition new_request ::
  "outside \<Rightarrow> LogProject \<Rightarrow> string \<Rightarrow> string \<Rightarrow> headers \<Rightarrow> byte list option \<Rightarrow> (sls_error, http_request) res" where
  "new_request w project method uri headers body =
     (if headers ''x-sls-bodyrawsize'' = None then Err NoBodyRawSize
      else
        let headers = public_headers w project headers;
            headers = (case body of None \<Rightarrow> headers | Some b \<Rightarrow> headers(''Content-MD5'' \<mapsto> md5_text w b))
        in if body \<noteq> None \<and> headers ''Content-Type'' = None then Err NoContentType
           else bind_result (signature w project method uri headers) (\<lambda>digest.
             let headers = headers(''Authorization'' \<mapsto> ''SLS '' @ lp_AccessKeyID project @ '':'' @ digest)
             in Ok \<lparr>rq_method = method,
                    rq_url = ''http://'' @ lp_Name project @ ''.'' @ lp_Endpoint project @ uri,
                    rq_headers = map (\<lambda>k. (k, the (headers k))) (out_visit w headers),
                    rq_body = (case body of None \<Rightarrow> [] | Some b \<Rightarrow> b)\<rparr>))"

definition request ::
  "outside \<Rightarrow> LogProject \<Rightarrow> string \<Rightarrow> string \<Rightarrow> headers \<Rightarrow> byte list option
    \<Rightarrow> (sls_error, nat \<times> (string \<rightharpoonup> string list) \<times> byte list option) res" where
  "request w project method uri headers body =
     bind_result (new_request w project method uri headers body) (\<lambda>req.
       case out_http w req of
         NotARequest \<Rightarrow> Err RequestRefused
       | NoAnswer \<Rightarrow> Err RequestUnanswered
       | Answer status hs b \<Rightarrow> Ok (status, hs, b))"

lemma new_request_exists:
  assumes "h ''x-sls-bodyrawsize'' \<noteq> None" and "body = None \<or> h ''Content-Type'' \<noteq> None" and "canoResource uri \<noteq> None"
  shows "\<exists>r. new_request w p method uri h body = Ok r \<and> rq_method r = method"
proof -
  define h1 where "h1 = (case body of None \<Rightarrow> public_headers w p h | Some b \<Rightarrow> (public_headers w p h)(''Content-MD5'' \<mapsto> md5_text w b))"
  have "h1 ''Date'' = Some (out_date w)" by (simp add: h1_def public_headers_def split: option.split)
  then obtain d where d: "signature w p method uri h1 = Ok d"
    using assms(3) by (auto simp: signature_def signStr_def)
  have ct: "\<not> (body \<noteq> None \<and> h1 ''Content-Type'' = None)"
    using assms(2) by (auto simp: h1_def public_headers_def split: option.splits)
  show ?thesis
    unfolding new_request_def Let_def h1_def [symmetric] using assms(1) ct d by simp
qed

section \<open>The order of an iteration\<close>

text \<open>
  A loop over a map visits each key once, in any order. The text that is signed does not
  depend on it when no two keys are the same in lower case, and can otherwise.
\<close>

definition visits :: "headers \<Rightarrow> string list \<Rightarrow> bool" where
  "visits headers order \<longleftrightarrow> distinct order \<and> set order = dom headers"

definition sls_key :: "string \<Rightarrow> bool" where
  "sls_key k \<longleftrightarrow> take (length sls_prefix) (low_key k) = sls_prefix"

lemma collect_keys:
  "snd (fold (collect_header h) order (m, ks)) = ks @ map low_key (filter sls_key order)"
  by (induction order arbitrary: m ks) (auto simp: collect_header_def sls_key_def Let_def)

lemma collect_other:
  "l \<notin> low_key ` set (filter sls_key order) \<Longrightarrow> fst (fold (collect_header h) order (m, ks)) l = m l"
  by (induction order arbitrary: m ks) (auto simp: collect_header_def sls_key_def Let_def)

lemma collect_header_sls:
  "sls_key k \<Longrightarrow> collect_header h k (m, ks) = (m(low_key k \<mapsto> TrimSpace (the (h k))), ks @ [low_key k])"
  by (simp add: collect_header_def sls_key_def Let_def)

lemma collect_value:
  assumes "distinct order" and "inj_on low_key (set (filter sls_key order))" and "k \<in> set order" and "sls_key k"
  shows "fst (fold (collect_header h) order (m, ks)) (low_key k) = Some (TrimSpace (the (h k)))"
  using assms
proof (induction order arbitrary: m ks)
  case (Cons x xs)
  have inj: "inj_on low_key (set (filter sls_key xs))" using Cons.prems(2) by (auto simp: inj_on_def)
  show ?case
  proof (cases "x = k")
    case True
    have "low_key k \<notin> low_key ` set (filter sls_key xs)"
    proof
      assume "low_key k \<in> low_key ` set (filter sls_key xs)"
      then obtain y where "y \<in> set xs" "sls_key y" "low_key y = low_key k" by auto
      with Cons.prems(1,2,4) True show False by (auto simp: inj_on_def)
    qed
    then show ?thesis using True collect_other [of "low_key k" xs h]
      by (simp add: collect_header_sls [OF Cons.prems(4)])
  next
    case False
    obtain m' ks' where "collect_header h x (m, ks) = (m', ks')" by fastforce
    with Cons.IH [OF _ inj _ Cons.prems(4), of m' ks'] Cons.prems(1,3) False show ?thesis by simp
  qed
qed simp

text \<open>The specification: one line for each key with the prefix, in the order of the keys.\<close>

lemma canoHeaders_lines:
  assumes "visits h order" and "inj_on low_key {k \<in> dom h. sls_key k}"
  shows "canoHeaders h order = join newline
    (map (\<lambda>l. l @ '':'' @ TrimSpace (the (h (the_inv_into {k \<in> dom h. sls_key k} low_key l))))
      (sorted_list_of_set (low_key ` {k \<in> dom h. sls_key k})))"
proof -
  let ?K = "{k \<in> dom h. sls_key k}"
  obtain m ks where f: "fold (collect_header h) order (Map.empty, []) = (m, ks)" by fastforce
  have K: "set (filter sls_key order) = ?K" "distinct order" using assms(1) by (auto simp: visits_def)
  have ks: "ks = map low_key (filter sls_key order)" using collect_keys [of h order Map.empty "[]"] f by simp
  then have "distinct ks" "set ks = low_key ` ?K" using K assms(2) by (simp_all add: distinct_map)
  then have s: "sort ks = sorted_list_of_set (low_key ` ?K)"
    by (metis List.finite_set sorted_list_of_set.idem_if_sorted_distinct sorted_list_of_set_sort_remdups distinct_remdups_id)
  have v: "the (m (low_key k)) = TrimSpace (the (h (the_inv_into ?K low_key (low_key k))))" if "k \<in> ?K" for k
  proof -
    have "m (low_key k) = Some (TrimSpace (the (h k)))"
      using collect_value [of order k h Map.empty "[]"] that K assms(2) f by auto
    then show ?thesis using the_inv_into_f_f [OF assms(2) that] by simp
  qed
  have eq: "map (\<lambda>k. k @ '':'' @ the (m k)) (sort ks)
      = map (\<lambda>l. l @ '':'' @ TrimSpace (the (h (the_inv_into ?K low_key l)))) (sort ks)"
    using v \<open>set ks = low_key ` ?K\<close> by auto
  show ?thesis unfolding canoHeaders_def f Let_def prod.case eq unfolding s ..
qed

lemma canoHeaders_same:
  assumes "visits h o1" and "visits h' o2" and "inj_on low_key {k \<in> dom h. sls_key k}"
    and "\<And>k. sls_key k \<Longrightarrow> h' k = h k"
  shows "canoHeaders h' o2 = canoHeaders h o1"
proof -
  let ?K = "{k \<in> dom h. sls_key k}"
  have K: "{k \<in> dom h'. sls_key k} = ?K" using assms(4) by (auto simp: dom_def)
  have inv: "h' (the_inv_into ?K low_key l) = h (the_inv_into ?K low_key l)" if "l \<in> low_key ` ?K" for l
    using the_inv_into_into [OF assms(3) that order_refl] assms(4) by simp
  have fin: "finite (low_key ` ?K)" using assms(1) by (auto simp: visits_def intro!: finite_imageI intro: finite_subset [of _ "set o1"])
  show ?thesis
    unfolding canoHeaders_lines [OF assms(1,3)] canoHeaders_lines [OF assms(2) assms(3) [folded K]] K
    using inv fin by (intro arg_cong [where f = "join newline"] map_cong) auto
qed

section \<open>A request as it is received\<close>

text \<open>The headers that the operations of the adapter set.\<close>

definition api_keys :: "string set" where
  "api_keys = {''x-sls-bodyrawsize'', ''x-sls-compresstype'', ''Content-Type'', ''Accept'', ''Accept-Encoding''}"

definition all_keys :: "string set" where
  "all_keys = api_keys \<union> {''Host'', ''Date'', ''x-sls-apiversion'', ''x-sls-signaturemethod'', ''Content-MD5'', ''Authorization''}"

lemma api_other:
  "k \<in> api_keys \<Longrightarrow>
    k \<notin> {''Host'', ''Date'', ''x-sls-apiversion'', ''x-sls-signaturemethod'', ''Content-MD5'', ''Authorization''}"
  by (auto simp: api_keys_def)

lemma sls_keys: "k \<in> all_keys \<Longrightarrow> sls_key k \<Longrightarrow> low_key k = k"
  by (auto simp: all_keys_def api_keys_def sls_key_def low_key_def sls_prefix_def lower_def TrimSpace_def is_space_def)

lemma sls_inj: "dom h \<subseteq> all_keys \<Longrightarrow> inj_on low_key {k \<in> dom h. sls_key k}"
proof (rule inj_onI)
  fix x y assume a: "dom h \<subseteq> all_keys" "x \<in> {k \<in> dom h. sls_key k}" "y \<in> {k \<in> dom h. sls_key k}" "low_key x = low_key y"
  then have "x \<in> all_keys" "y \<in> all_keys" "sls_key x" "sls_key y" by blast+
  then have "low_key x = x" "low_key y = y" by (simp_all add: sls_keys)
  with a(4) show "x = y" by simp
qed

lemma not_sls: "\<not> sls_key ''Authorization''"
  by (simp add: sls_key_def low_key_def sls_prefix_def lower_def TrimSpace_def is_space_def)

lemma map_of_visit: "visits h order \<Longrightarrow> map_of (map (\<lambda>k. (k, the (h k))) order) = h"
proof
  fix k assume v: "visits h order"
  show "map_of (map (\<lambda>k. (k, the (h k))) order) k = h k"
  proof (cases "k \<in> dom h")
    case True
    with v have "k \<in> set order" by (simp add: visits_def)
    with True show ?thesis by (auto simp: map_of_map_restrict restrict_map_def)
  next
    case False
    with v have "k \<notin> set order" by (simp add: visits_def)
    with False show ?thesis by (auto simp: map_of_map_restrict restrict_map_def domIff)
  qed
qed


definition ordered_outside :: outside where
  "ordered_outside = \<lparr>out_date = ''now'', out_hmac_sha1 = (\<lambda>k s. [1, 2, 3]), out_md5 = (\<lambda>b. []),
     out_visit = (\<lambda>h. sorted_list_of_set (dom h)), out_http = (\<lambda>r. NoAnswer)\<rparr>"


end
