(* ===== verification/Alils_Codec.thy ===== *)
theory Alils_Codec
  imports Alils_Proto
begin

text \<open>
  What the protobuf code of \<open>Alils_Proto\<close> promises: a buffer of \<open>Size\<close> bytes is filled
  exactly, what was written is read back, what is read has its required fields, and the
  loops end. The contract of a message type is the locale \<open>pb_message\<close>.
\<close>

section \<open>The specification of the bytes\<close>

function varint :: "u64 \<Rightarrow> byte list" where
  "varint v =
     (if 128 \<le> v then ucast (v AND 0x7F OR 0x80) # varint (drop_bit 7 v) else [ucast v])"
  by pat_completeness auto
termination
  by (relation "measure unat") (auto dest: drop_bit_decreases)

declare varint.simps [simp del]

definition delimited :: "byte \<Rightarrow> byte list \<Rightarrow> byte list" where
  "delimited tag bs = tag # varint (len64 (length bs)) @ bs"

definition delimited_opt :: "byte \<Rightarrow> string option \<Rightarrow> byte list" where
  "delimited_opt tag s = (case s of None \<Rightarrow> [] | Some s \<Rightarrow> delimited tag (bytes_of s))"

definition enc_LogContent :: "LogContent \<Rightarrow> byte list" where
  "enc_LogContent m = delimited_opt 0x0A (lc_Key m) @ delimited_opt 0x12 (lc_Value m) @ lc_XXX m"

definition enc_PbLog :: "PbLog \<Rightarrow> byte list" where
  "enc_PbLog m =
     (case pl_Time m of None \<Rightarrow> [] | Some t \<Rightarrow> 0x08 # varint (ucast t))
     @ concat (map (\<lambda>c. delimited 0x12 (enc_LogContent c)) (pl_Contents m)) @ pl_XXX m"

definition enc_LogGroup :: "LogGroup \<Rightarrow> byte list" where
  "enc_LogGroup m =
     concat (map (\<lambda>l. delimited 0x0A (enc_PbLog l)) (lgr_Logs m)) @ delimited_opt 0x12 (lgr_Reserved m)
     @ delimited_opt 0x1A (lgr_Topic m) @ delimited_opt 0x22 (lgr_Source m) @ lgr_XXX m"

definition enc_LogGroupList :: "LogGroupList \<Rightarrow> byte list" where
  "enc_LogGroupList m = concat (map (\<lambda>g. delimited 0x0A (enc_LogGroup g)) (lgl_LogGroups m)) @ lgl_XXX m"

text \<open>The required fields are set, in the message and in those inside it.\<close>

definition set_LogContent :: "LogContent \<Rightarrow> bool" where
  "set_LogContent m \<longleftrightarrow> lc_Key m \<noteq> None \<and> lc_Value m \<noteq> None"

definition set_PbLog :: "PbLog \<Rightarrow> bool" where
  "set_PbLog m \<longleftrightarrow> pl_Time m \<noteq> None \<and> list_all set_LogContent (pl_Contents m)"

definition set_LogGroup :: "LogGroup \<Rightarrow> bool" where
  "set_LogGroup m \<longleftrightarrow> list_all set_PbLog (lgr_Logs m)"

definition set_LogGroupList :: "LogGroupList \<Rightarrow> bool" where
  "set_LogGroupList m \<longleftrightarrow> list_all set_LogGroup (lgl_LogGroups m)"

section \<open>Sizes\<close>

lemma zero_or_128: "drop_bit 7 (v :: u64) = 0 \<longleftrightarrow> \<not> 128 \<le> v"
proof -
  have "drop_bit 7 v = 0 \<longleftrightarrow> unat v div 128 = 0" by (metis unat_drop7 unat_eq_0)
  also have "\<dots> \<longleftrightarrow> unat v < 128" by auto
  also have "\<dots> \<longleftrightarrow> \<not> 128 \<le> v" by (simp add: word_le_nat_alt not_le)
  finally show ?thesis .
qed

lemma length_varint [simp]: "length (varint v) = sovLog v"
proof (induction v rule: varint.induct)
  case (1 v)
  then show ?case
    by (subst varint.simps; subst sovLog.simps) (auto simp: Let_def zero_or_128)
qed

lemma sovLog_pos: "0 < sovLog v"
  by (subst sovLog.simps) (simp add: Let_def)

lemma length_delimited [simp]: "length (delimited tag bs) = size_field (length bs)"
  by (simp add: delimited_def size_field_def)

lemma length_delimited_opt [simp]: "length (delimited_opt tag s) = size_opt s"
  by (simp add: delimited_opt_def size_opt_def split: option.split)

lemma LogContent_Size_enc [simp]: "LogContent_Size m = length (enc_LogContent m)"
  by (simp add: LogContent_Size_def enc_LogContent_def)

lemma PbLog_Size_enc [simp]: "PbLog_Size m = length (enc_PbLog m)"
  by (simp add: PbLog_Size_def enc_PbLog_def length_concat comp_def split: option.split)

lemma LogGroup_Size_enc [simp]: "LogGroup_Size m = length (enc_LogGroup m)"
  by (simp add: LogGroup_Size_def enc_LogGroup_def length_concat comp_def)

lemma LogGroupList_Size_enc [simp]: "LogGroupList_Size m = length (enc_LogGroupList m)"
  by (simp add: LogGroupList_Size_def enc_LogGroupList_def length_concat comp_def)

section \<open>Writing\<close>

text \<open>
  A writer of \<open>bs\<close>, given a buffer with enough room after the index, puts exactly these
  bytes there and leaves the rest alone.
\<close>

definition writes :: "(wbuf \<Rightarrow> wbuf result) \<Rightarrow> byte list \<Rightarrow> bool" where
  "writes f bs \<longleftrightarrow> (\<forall>pre old post. length old = length bs \<longrightarrow>
     f (pre @ old @ post, length pre) = Ok (pre @ bs @ post, length pre + length bs))"

named_theorems writes_intros \<open>writers from their parts\<close>

lemma writes_bind [writes_intros]:
  assumes "writes f as" and "writes g bs"
  shows "writes (\<lambda>st. bind_result (f st) g) (as @ bs)"
  unfolding writes_def
proof (intro allI impI)
  fix pre old post :: "byte list" assume "length old = length (as @ bs)"
  then obtain o1 o2 where o: "old = o1 @ o2" "length o1 = length as" "length o2 = length bs"
    by (metis append_take_drop_id length_append length_drop length_take min_absorb2 add_diff_cancel_left' le_add1)
  have "f (pre @ o1 @ o2 @ post, length pre) = Ok (pre @ as @ o2 @ post, length pre + length as)"
    using assms(1) o unfolding writes_def by blast
  moreover have "g ((pre @ as) @ o2 @ post, length (pre @ as)) = Ok ((pre @ as) @ bs @ post, length (pre @ as) + length bs)"
    using assms(2) o unfolding writes_def by blast
  ultimately show "bind_result (f (pre @ old @ post, length pre)) g
      = Ok (pre @ (as @ bs) @ post, length pre + length (as @ bs))"
    using o by simp
qed

lemma writes_Nil [writes_intros]: "writes Ok []"
  by (simp add: writes_def)

lemma writes_byte [writes_intros]: "writes (put_byte b) [b]"
  by (auto simp: writes_def put_byte_def length_Suc_conv list_update_append)

lemma writes_copy [writes_intros]: "writes (copy_bytes s) s"
  by (auto simp: writes_def copy_bytes_def Let_def)

lemma writes_varint [writes_intros]: "writes (encodeVarintLog v) (varint v)"
proof (induction v rule: varint.induct)
  case (1 v)
  show ?case
  proof (cases "128 \<le> v")
    case True
    then have "encodeVarintLog v = (\<lambda>st. bind_result (put_byte (ucast (v AND 0x7F OR 0x80)) st) (encodeVarintLog (drop_bit 7 v)))"
      by (subst encodeVarintLog.simps [abs_def]) (simp add: fun_eq_iff)
    moreover have "writes \<dots> ([ucast (v AND 0x7F OR 0x80)] @ varint (drop_bit 7 v))"
      by (intro writes_bind writes_byte "1.IH" True)
    ultimately show ?thesis using True by (subst varint.simps) simp
  next
    case False
    then have "encodeVarintLog v = put_byte (ucast v)" "varint v = [ucast v]"
      by (simp_all add: encodeVarintLog.simps varint.simps fun_eq_iff)
    then show ?thesis by (simp add: writes_byte)
  qed
qed

text \<open>A message that writes its bytes at the start of a buffer writes them at an index too.\<close>

definition marshals :: "(byte list \<Rightarrow> wbuf result) \<Rightarrow> byte list \<Rightarrow> bool" where
  "marshals f bs \<longleftrightarrow> (\<forall>old post. length old = length bs \<longrightarrow> f (old @ post) = Ok (bs @ post, length bs))"

lemma writes_marshals: "writes f bs \<Longrightarrow> marshals (\<lambda>data. f (data, 0)) bs"
  unfolding writes_def marshals_def by (metis append_Nil list.size(3) add_0)

lemma marshals_eq: "marshals f bs \<Longrightarrow> (\<And>data. g data = f data) \<Longrightarrow> marshals g bs"
  by (simp add: marshals_def)

lemma writes_message [writes_intros]: "marshals f bs \<Longrightarrow> writes (put_message f) bs"
  by (auto simp: writes_def marshals_def put_message_def)

lemma writes_string [writes_intros]: "writes (put_string tag s) (delimited tag (bytes_of s))"
proof -
  have "writes (\<lambda>st. bind_result (put_byte tag st) (\<lambda>st. bind_result (encodeVarintLog (len64 (length s)) st) (\<lambda>st. copy_bytes (bytes_of s) st)))
      ([tag] @ varint (len64 (length s)) @ bytes_of s)"
    by (intro writes_intros)
  then show ?thesis by (simp add: put_string_def [abs_def] delimited_def)
qed

lemma writes_sub [writes_intros]: "marshals f bs \<Longrightarrow> writes (put_sub tag (length bs) f) (delimited tag bs)"
proof -
  assume "marshals f bs"
  then have "writes (\<lambda>st. bind_result (put_byte tag st) (\<lambda>st. bind_result (encodeVarintLog (len64 (length bs)) st) (\<lambda>st. put_message f st)))
      ([tag] @ varint (len64 (length bs)) @ bs)"
    by (intro writes_intros)
  then show ?thesis by (simp add: put_sub_def [abs_def] delimited_def)
qed

lemma writes_opt [writes_intros]: "writes (put_opt tag s) (delimited_opt tag s)"
  using writes_Nil writes_string by (cases s) (simp_all add: put_opt_def [abs_def] delimited_opt_def)

lemma writes_all [writes_intros]:
  "(\<And>m. m \<in> set ms \<Longrightarrow> writes (f m) (g m)) \<Longrightarrow> writes (put_all f ms) (concat (map g ms))"
proof (induction ms)
  case Nil
  have "put_all f [] = Ok" by (simp add: fun_eq_iff)
  then show ?case by (simp add: writes_Nil)
next
  case (Cons m ms)
  have "put_all f (m # ms) = (\<lambda>st. bind_result (f m st) (put_all f ms))" by (simp add: fun_eq_iff)
  moreover have "writes \<dots> (g m @ concat (map g ms))" using Cons by (intro writes_bind) auto
  ultimately show ?case by simp
qed

text \<open>
  The contract of a message type when it is written: \<open>Size\<close> is the number of its bytes,
  and these are written at the start of a buffer that has room for them. It gives the
  repeated field of such messages, and \<open>Marshal\<close>, which never leaves its buffer.
\<close>

locale pb_writer =
  fixes size_of :: "'m \<Rightarrow> nat"
    and marshalTo :: "'m \<Rightarrow> byte list \<Rightarrow> wbuf result"
    and enc :: "'m \<Rightarrow> byte list"
    and fields_set :: "'m \<Rightarrow> bool"
  assumes size_enc: "size_of m = length (enc m)"
    and marshals_enc: "fields_set m \<Longrightarrow> marshals (marshalTo m) (enc m)"
begin

lemma writes_each:
  assumes "list_all fields_set ms"
  shows "writes (put_all (\<lambda>m. put_sub tag (size_of m) (marshalTo m)) ms) (concat (map (\<lambda>m. delimited tag (enc m)) ms))"
  unfolding size_enc using assms by (intro writes_intros marshals_enc) (auto simp: list_all_iff)

lemma marshal_exact: "fields_set m \<Longrightarrow> marshal_with (size_of m) (marshalTo m) = Ok (enc m)"
proof -
  assume "fields_set m"
  then have "marshalTo m (replicate (length (enc m)) 0 @ []) = Ok (enc m @ [], length (enc m))"
    using marshals_enc unfolding marshals_def by (metis length_replicate)
  then show ?thesis by (simp add: marshal_with_def size_enc)
qed

end

lemma marshals_LogContent: "set_LogContent m \<Longrightarrow> marshals (LogContent_MarshalTo m) (enc_LogContent m)"
proof -
  assume "set_LogContent m"
  then obtain k v where kv: "lc_Key m = Some k" "lc_Value m = Some v" by (auto simp: set_LogContent_def)
  have "writes (\<lambda>st. bind_result (put_string 0x0A k st) (\<lambda>st. bind_result (put_string 0x12 v st) (\<lambda>st. copy_bytes (lc_XXX m) st)))
      (delimited 0x0A (bytes_of k) @ delimited 0x12 (bytes_of v) @ lc_XXX m)"
    by (intro writes_intros)
  from marshals_eq [OF writes_marshals [OF this]] kv show ?thesis
    by (simp add: LogContent_MarshalTo_def enc_LogContent_def delimited_opt_def)
qed

interpretation content_w: pb_writer LogContent_Size LogContent_MarshalTo enc_LogContent set_LogContent
  by unfold_locales (simp_all add: marshals_LogContent)

lemma marshals_PbLog: "set_PbLog m \<Longrightarrow> marshals (PbLog_MarshalTo m) (enc_PbLog m)"
proof -
  assume s: "set_PbLog m"
  then obtain t where t: "pl_Time m = Some t" by (auto simp: set_PbLog_def)
  have "writes (\<lambda>st. bind_result (put_byte 0x08 st) (\<lambda>st. bind_result (encodeVarintLog (ucast t) st) (\<lambda>st.
      bind_result (put_all (\<lambda>e. put_sub 0x12 (LogContent_Size e) (LogContent_MarshalTo e)) (pl_Contents m) st) (\<lambda>st. copy_bytes (pl_XXX m) st))))
      ([0x08] @ varint (ucast t) @ concat (map (\<lambda>c. delimited 0x12 (enc_LogContent c)) (pl_Contents m)) @ pl_XXX m)"
    using s by (intro writes_intros content_w.writes_each) (simp add: set_PbLog_def)
  from marshals_eq [OF writes_marshals [OF this]] t show ?thesis
    by (simp add: PbLog_MarshalTo_def enc_PbLog_def)
qed

interpretation log_w: pb_writer PbLog_Size PbLog_MarshalTo enc_PbLog set_PbLog
  by unfold_locales (simp_all add: marshals_PbLog)

lemma marshals_LogGroup: "set_LogGroup m \<Longrightarrow> marshals (LogGroup_MarshalTo m) (enc_LogGroup m)"
proof -
  assume s: "set_LogGroup m"
  have "writes (\<lambda>st. bind_result (put_all (\<lambda>e. put_sub 0x0A (PbLog_Size e) (PbLog_MarshalTo e)) (lgr_Logs m) st) (\<lambda>st.
      bind_result (put_opt 0x12 (lgr_Reserved m) st) (\<lambda>st. bind_result (put_opt 0x1A (lgr_Topic m) st) (\<lambda>st.
      bind_result (put_opt 0x22 (lgr_Source m) st) (\<lambda>st. copy_bytes (lgr_XXX m) st)))))
      (concat (map (\<lambda>l. delimited 0x0A (enc_PbLog l)) (lgr_Logs m)) @ delimited_opt 0x12 (lgr_Reserved m)
       @ delimited_opt 0x1A (lgr_Topic m) @ delimited_opt 0x22 (lgr_Source m) @ lgr_XXX m)"
    using s by (intro writes_intros log_w.writes_each) (simp add: set_LogGroup_def)
  from marshals_eq [OF writes_marshals [OF this]] show ?thesis
    by (simp add: LogGroup_MarshalTo_def enc_LogGroup_def)
qed

interpretation group_w: pb_writer LogGroup_Size LogGroup_MarshalTo enc_LogGroup set_LogGroup
  by unfold_locales (simp_all add: marshals_LogGroup)

lemma marshals_LogGroupList: "set_LogGroupList m \<Longrightarrow> marshals (LogGroupList_MarshalTo m) (enc_LogGroupList m)"
proof -
  assume s: "set_LogGroupList m"
  have "writes (\<lambda>st. bind_result (put_all (\<lambda>e. put_sub 0x0A (LogGroup_Size e) (LogGroup_MarshalTo e)) (lgl_LogGroups m) st)
      (\<lambda>st. copy_bytes (lgl_XXX m) st))
      (concat (map (\<lambda>g. delimited 0x0A (enc_LogGroup g)) (lgl_LogGroups m)) @ lgl_XXX m)"
    using s by (intro writes_intros group_w.writes_each) (simp add: set_LogGroupList_def)
  from marshals_eq [OF writes_marshals [OF this]] show ?thesis
    by (simp add: LogGroupList_MarshalTo_def enc_LogGroupList_def)
qed

interpretation list_w: pb_writer LogGroupList_Size LogGroupList_MarshalTo enc_LogGroupList set_LogGroupList
  by unfold_locales (simp_all add: marshals_LogGroupList)

text \<open>Without a required field there is an error, whatever the buffer.\<close>

lemma marshal_LogContent_unset:
  "lc_Key m = None \<Longrightarrow> LogContent_Marshal m = Err (RequiredNotSet ''Key'')"
  by (simp add: LogContent_Marshal_def marshal_with_def LogContent_MarshalTo_def)

lemma marshal_PbLog_unset:
  "pl_Time m = None \<Longrightarrow> PbLog_Marshal m = Err (RequiredNotSet ''Time'')"
  by (simp add: PbLog_Marshal_def marshal_with_def PbLog_MarshalTo_def)

section \<open>Reading a varint\<close>

lemma mask7: "(0x7F :: 'a :: len word) = mask 7"
  by (simp add: mask_eq_exp_minus_1)

lemma low_seven_bits:
  "push_bit s (ucast (ucast ((v :: u64) AND 0x7F OR 0x80) :: byte) AND 0x7F) OR push_bit (s + 7) (ucast (drop_bit 7 v))
    = (push_bit s (ucast v) :: 'a :: len word)"
proof (rule bit_word_eqI)
  fix n assume n: "n < LENGTH('a)"
  have b80: "bit (0x80 :: u64) k \<longleftrightarrow> k = 7" "bit (0x80 :: byte) k \<longleftrightarrow> k = 7" for k
    using bit_exp_iff [where 'a = u64, of 7 k] bit_exp_iff [where 'a = byte, of 7 k] by auto
  have b80': "bit (0x80 :: int) k \<Longrightarrow> k = 7" for k
    using bit_exp_iff [where 'a = int, of 7 k] by simp
  consider "n < s" | "s \<le> n" "n < s + 7" | k where "n = s + 7 + k"
    by (metis le_add_diff_inverse not_less)
  then show "bit (push_bit s (ucast (ucast (v AND 0x7F OR 0x80) :: byte) AND 0x7F) OR push_bit (s + 7) (ucast (drop_bit 7 v)) :: 'a word) n
      \<longleftrightarrow> bit (push_bit s (ucast v) :: 'a word) n"
    unfolding mask7 using n by cases (auto simp: bit_simps b80 dest: b80')
qed

lemma varint_byte:
  assumes "128 \<le> (v :: u64)"
  shows "\<not> (ucast (v AND 0x7F OR 0x80) :: byte) < 0x80"
proof -
  have "bit (0x80 :: u64) 7" using bit_exp_iff [where 'a = u64, of 7 7] by simp
  then have b: "bit (ucast (v AND 0x7F OR 0x80) :: byte) 7" by (simp add: bit_simps)
  have "\<not> bit w 7" if "w < 0x80" for w :: byte
  proof -
    have "unat w < 2 ^ 7" using that by (simp add: word_less_nat_alt)
    then have "\<not> bit (unat w) 7" by (simp add: bit_iff_odd)
    then show ?thesis by (simp add: bit_unsigned_iff)
  qed
  with b show ?thesis by blast
qed

lemma drop_bit_push:
  assumes "128 \<le> drop_bit s (V :: u64)"
  shows "s + 7 < 64"
proof (rule ccontr)
  assume "\<not> s + 7 < 64"
  then have "(2 :: nat) ^ 64 \<le> 2 ^ (s + 7)" by (intro power_increasing) auto
  moreover have "unat V < 2 ^ 64" using unsigned_less [of V, where 'a = nat] by simp
  ultimately have "unat V < 128 * 2 ^ s" by (simp add: power_add mult.commute)
  then have "unat V div 2 ^ s < 128" by (simp add: div_less_iff_less_mult)
  moreover have "unat (drop_bit s V) = unat V div 2 ^ s" by (simp only: unat_drop_bit_eq) (simp add: drop_bit_eq_div)
  ultimately show False using assms by (simp add: word_le_nat_alt)
qed

text \<open>
  Reading goes on where writing has started, into a word of any width; in the code the
  width is at least that of what was written.
\<close>

lemma read_varint_varint:
  assumes "v = drop_bit s V" and "s < 64"
  shows "read_varint (pre @ varint v @ rest) (int (length pre)) s (acc :: 'a :: len word)
    = Ok (acc OR push_bit s (ucast v), int (length pre + sovLog v))"
  using assms
proof (induction v arbitrary: s pre acc rule: varint.induct)
  case (1 v)
  show ?case
  proof (cases "128 \<le> v")
    case True
    let ?b = "ucast (v AND 0x7F OR 0x80) :: byte"
    have s: "s + 7 < 64" and v: "drop_bit 7 v = drop_bit (s + 7) V"
      using True drop_bit_push [of s V] "1.prems"(1) by (simp_all add: add.commute)
    have eq: "varint v = ?b # varint (drop_bit 7 v)" using True by (simp add: varint.simps [of v])
    have len: "sovLog v = Suc (sovLog (drop_bit 7 v))"
      using True zero_or_128 [of v] by (subst sovLog.simps) (simp add: Let_def)
    have "read_varint (pre @ varint v @ rest) (int (length pre)) s acc
        = read_varint ((pre @ [?b]) @ varint (drop_bit 7 v) @ rest) (int (length (pre @ [?b]))) (s + 7)
            (acc OR push_bit s (ucast ?b AND 0x7F))"
      using s varint_byte [OF True] by (subst read_varint.simps) (simp add: eq Let_def add.commute)
    also have "\<dots> = Ok ((acc OR push_bit s (ucast ?b AND 0x7F)) OR push_bit (s + 7) (ucast (drop_bit 7 v)),
        int (length (pre @ [?b]) + sovLog (drop_bit 7 v)))"
      by (rule "1.IH" [OF True v s])
    finally show ?thesis unfolding or.assoc low_seven_bits len by simp
  next
    case False
    have small: "unat v < 128" using False by (simp add: word_le_nat_alt)
    then have "(ucast v :: byte) < 0x80" by (simp add: word_less_nat_alt unsigned_ucast_eq take_bit_nat_eq_self)
    moreover have "(ucast (ucast v :: byte) AND 0x7F :: 'a word) = ucast v"
    proof (rule bit_word_eqI)
      fix n assume n: "n < LENGTH('a)"
      have "bit v n \<Longrightarrow> n < 7"
      proof (rule ccontr)
        assume "bit v n" "\<not> n < 7"
        then have "bit (drop_bit 7 v) (n - 7)" by (simp add: bit_simps)
        then show False using False zero_or_128 [of v] by simp
      qed
      with n show "bit (ucast (ucast v :: byte) AND 0x7F :: 'a word) n \<longleftrightarrow> bit (ucast v :: 'a word) n"
        unfolding mask7 by (auto simp: bit_simps)
    qed
    moreover have "sovLog v = 1" using False zero_or_128 [of v] by (simp add: sovLog.simps)
    ultimately show ?thesis
      using False "1.prems"(2) by (subst read_varint.simps) (simp add: varint.simps [of v] Let_def del: push_bit_and)
  qed
qed

lemma read_varint_u64 [simp]:
  "read_varint (pre @ varint v @ rest) (int (length pre)) 0 (0 :: u64) = Ok (v, int (length pre + sovLog v))"
  using read_varint_varint [of v 0 v pre rest "0 :: u64"] by simp

lemma read_varint_u32 [simp]:
  "read_varint (pre @ varint (ucast v) @ rest) (int (length pre)) 0 (0 :: u32)
    = Ok (v, int (length pre + sovLog (ucast v)))"
proof -
  have "(ucast (ucast v :: u64) :: u32) = v" by (rule bit_word_eqI) (auto simp: bit_simps)
  then show ?thesis using read_varint_varint [of "ucast v" 0 "ucast v" pre rest "0 :: u32"] by simp
qed


section \<open>Reading fields\<close>

text \<open>All lengths are below \<open>2 ^ 62\<close>, far above what a machine can hold.\<close>

abbreviation fits :: "byte list \<Rightarrow> bool" where
  "fits data \<equiv> length data < 2 ^ 62"

lemma wrap64_small: "0 \<le> i \<Longrightarrow> i < 2 ^ 63 \<Longrightarrow> wrap64 i = i"
  by (simp add: wrap64_def)

lemma sint_len64: "n < 2 ^ 63 \<Longrightarrow> sint (len64 n) = int n"
  by (simp add: len64_def sint_uint signed_take_bit_int_eq_self unsigned_of_nat take_bit_nat_eq_self uint_nat)

lemma slice_mid: "slice (pre @ bs @ rest) (int (length pre)) (int (length pre + length bs)) = Ok bs"
  by (simp add: slice_def nat_add_distrib)

lemma read_delimited_at:
  assumes "fits (pre @ varint (len64 (length bs)) @ bs @ rest)"
  shows "read_delimited f 2 (pre @ varint (len64 (length bs)) @ bs @ rest) (int (length pre))
    = Ok (bs, int (length pre + sovLog (len64 (length bs)) + length bs))"
proof -
  let ?v = "varint (len64 (length bs))"
  have n: "sint (len64 (length bs)) = int (length bs)" using assms by (intro sint_len64) simp
  have w: "wrap64 (int (length (pre @ ?v)) + int (length bs)) = int (length (pre @ ?v) + length bs)"
    using assms by (subst wrap64_small) simp_all
  have "slice ((pre @ ?v) @ bs @ rest) (int (length (pre @ ?v))) (int (length (pre @ ?v) + length bs)) = Ok bs"
    by (rule slice_mid)
  then show ?thesis using w n by (simp add: read_delimited_def add.assoc)
qed

lemma read_tag_byte:
  assumes "t < 0x80"
  shows "read_varint (pre @ t # rest) (int (length pre)) 0 (0 :: u64) = Ok (ucast t, int (length pre) + 1)"
proof -
  have "unat t < 128" using assms by (simp add: word_less_nat_alt)
  then have "unat (take_bit 7 (ucast t :: u64)) = unat (ucast t :: u64)"
    by (simp add: unsigned_take_bit_eq unsigned_ucast_eq take_bit_nat_eq_self)
  then have "(ucast t AND 0x7F :: u64) = ucast t"
    by (simp add: mask7 take_bit_eq_mask word_unat_eq_iff)
  then show ?thesis using assms by (simp add: read_varint.simps Let_def)
qed

lemma read_tags:
  "read_tag msg (pre @ 0x08 # rest) (int (length pre)) = Ok ((1, 0), int (length pre) + 1)"
  "read_tag msg (pre @ 0x0A # rest) (int (length pre)) = Ok ((1, 2), int (length pre) + 1)"
  "read_tag msg (pre @ 0x12 # rest) (int (length pre)) = Ok ((2, 2), int (length pre) + 1)"
  "read_tag msg (pre @ 0x1A # rest) (int (length pre)) = Ok ((3, 2), int (length pre) + 1)"
  "read_tag msg (pre @ 0x22 # rest) (int (length pre)) = Ok ((4, 2), int (length pre) + 1)"
  by (simp_all add: read_tag_def read_tag_byte Let_def)

text \<open>
  From the state \<open>s\<close> the loop takes \<open>bs\<close>, wherever they stand, and goes on after them in
  the state \<open>s'\<close>; of its turns at most one for each byte is used.
\<close>

definition takes :: "string \<Rightarrow> 's field_step \<Rightarrow> byte list \<Rightarrow> 's \<Rightarrow> 's \<Rightarrow> bool" where
  "takes msg field bs s s' \<longleftrightarrow>
     (\<forall>pre rest n. fits (pre @ bs @ rest) \<and> length bs < n \<longrightarrow>
       (\<exists>n'. n \<le> n' + length bs \<and>
          field_loop msg field n (pre @ bs @ rest) (int (length pre), s)
            = field_loop msg field n' (pre @ bs @ rest) (int (length pre + length bs), s')))"

lemma takes_Nil: "takes msg field [] s s"
  unfolding takes_def by force

lemma takes_append:
  assumes "takes msg field as s s1" and "takes msg field bs s1 s2"
  shows "takes msg field (as @ bs) s s2"
  unfolding takes_def
proof (intro allI impI)
  fix pre rest n assume a: "fits (pre @ (as @ bs) @ rest) \<and> length (as @ bs) < n"
  then obtain n1 where n1: "n \<le> n1 + length as"
    "field_loop msg field n (pre @ as @ bs @ rest) (int (length pre), s)
      = field_loop msg field n1 (pre @ as @ bs @ rest) (int (length pre + length as), s1)"
    using assms(1) unfolding takes_def by (metis add_lessD1 append_assoc length_append)
  have "fits ((pre @ as) @ bs @ rest) \<and> length bs < n1" using a n1(1) by simp
  then obtain n2 where "n1 \<le> n2 + length bs"
    "field_loop msg field n1 ((pre @ as) @ bs @ rest) (int (length (pre @ as)), s1)
      = field_loop msg field n2 ((pre @ as) @ bs @ rest) (int (length (pre @ as) + length bs), s2)"
    using assms(2) unfolding takes_def by blast
  with n1 show "\<exists>n'. n \<le> n' + length (as @ bs) \<and>
      field_loop msg field n (pre @ (as @ bs) @ rest) (int (length pre), s)
        = field_loop msg field n' (pre @ (as @ bs) @ rest) (int (length pre + length (as @ bs)), s2)"
    by (intro exI [of _ n2]) (simp add: add.assoc)
qed

lemma takes_fold:
  assumes "\<And>m s. m \<in> set ms \<Longrightarrow> takes msg field (g m) s (upd m s)"
  shows "takes msg field (concat (map g ms)) s (fold upd ms s)"
  using assms
proof (induction ms arbitrary: s)
  case (Cons m ms)
  then show ?case by (auto intro: takes_append)
qed (simp add: takes_Nil)

text \<open>One field: its head, and what the \<open>switch\<close> does with the rest of it.\<close>

lemma takes_field:
  assumes head: "\<And>pre rest. read_tag msg (pre @ (t # bs) @ rest) (int (length pre)) = Ok (tag, int (length pre) + 1)"
    and rest: "\<And>pre rest. fits ((pre @ [t]) @ bs @ rest) \<Longrightarrow>
      field tag ((pre @ [t]) @ bs @ rest) (int (length pre)) (int (length (pre @ [t]))) s
        = Ok (int (length (pre @ [t]) + length bs), s')"
  shows "takes msg field (t # bs) s s'"
  unfolding takes_def
proof (intro allI impI)
  fix pre rest n assume a: "fits (pre @ (t # bs) @ rest) \<and> length (t # bs) < n"
  then obtain k where k: "n = Suc k" by (cases n) auto
  have "field tag (pre @ (t # bs) @ rest) (int (length pre)) (int (length pre) + 1) s
      = Ok (int (length pre + length (t # bs)), s')"
    using rest [of pre rest] a by (simp add: add.commute)
  then show "\<exists>n'. n \<le> n' + length (t # bs) \<and>
      field_loop msg field n (pre @ (t # bs) @ rest) (int (length pre), s)
        = field_loop msg field n' (pre @ (t # bs) @ rest) (int (length pre + length (t # bs)), s')"
    using head [of pre rest] by (intro exI [of _ k]) (simp add: k)
qed

lemma takes_delimited:
  assumes head: "\<And>pre rest. read_tag msg (pre @ t # rest) (int (length pre)) = Ok ((f, 2), int (length pre) + 1)"
    and switch: "\<And>data pre i j. fits data \<Longrightarrow> read_delimited name 2 data i = Ok (bs, j) \<Longrightarrow> field (f, 2) data pre i s = Ok (j, s')"
  shows "takes msg field (delimited t bs) s s'"
  unfolding delimited_def
proof (rule takes_field)
  fix pre rest
  show "read_tag msg (pre @ (t # varint (len64 (length bs)) @ bs) @ rest) (int (length pre)) = Ok ((f, 2), int (length pre) + 1)"
    using head by simp
  assume fit: "fits ((pre @ [t]) @ (varint (len64 (length bs)) @ bs) @ rest)"
  then show "field (f, 2) ((pre @ [t]) @ (varint (len64 (length bs)) @ bs) @ rest) (int (length pre)) (int (length (pre @ [t]))) s
      = Ok (int (length (pre @ [t]) + length (varint (len64 (length bs)) @ bs)), s')"
    using read_delimited_at [of "pre @ [t]" bs rest name] by (intro switch) (simp_all add: add.assoc)
qed

lemma takes_opt:
  assumes "\<And>v. x = Some v \<Longrightarrow> takes msg field (delimited t (bytes_of v)) s (upd v)"
  shows "takes msg field (delimited_opt t x) s (case x of None \<Rightarrow> s | Some v \<Rightarrow> upd v)"
  using assms by (simp add: takes_Nil delimited_opt_def split: option.split)

lemma takes_all:
  assumes "takes msg field bs s s'" and "fits bs"
  shows "read_fields msg field s bs = Ok (int (length bs), s')"
proof -
  obtain n' where n: "Suc (length bs) \<le> n' + length bs" "field_loop msg field (Suc (length bs)) bs (0, s) = field_loop msg field n' bs (int (length bs), s')"
    using assms unfolding takes_def by (fastforce dest: spec [of _ "[]"] spec [of _ "Suc (length bs)"])
  then obtain k where "n' = Suc k" by (cases n') auto
  with n show ?thesis by (simp add: read_fields_def)
qed


section \<open>The loops end\<close>

lemma read_varint_ends: "read_varint data i s acc \<noteq> Diverges"
  by (induction data i s acc rule: read_varint.induct) (subst read_varint.simps, simp add: Let_def)

lemma read_varint_progress:
  "read_varint data i s acc = Ok (v, j) \<Longrightarrow> 0 \<le> i \<and> i < j \<and> j \<le> int (length data)"
proof (induction data i s acc rule: read_varint.induct)
  case (1 data i s acc)
  let ?b = "data ! nat i"
  show ?case
  proof (cases "64 \<le> s \<or> int (length data) \<le> i \<or> i < 0")
    case True
    with "1.prems" show ?thesis by (subst (asm) read_varint.simps) (auto split: if_splits)
  next
    case False
    show ?thesis
    proof (cases "?b < 0x80")
      case True
      with False "1.prems" show ?thesis by (subst (asm) read_varint.simps) (auto simp: Let_def)
    next
      case no: False
      with False "1.prems" have "read_varint data (i + 1) (s + 7) (acc OR push_bit s (ucast ?b AND 0x7F)) = Ok (v, j)"
        by (subst (asm) read_varint.simps) (simp add: Let_def del: push_bit_and)
      with "1.IH" False no show ?thesis by fastforce
    qed
  qed
qed

lemma wrap64_range: "- (2 ^ 63) \<le> wrap64 i \<and> wrap64 i < 2 ^ 63"
  using pos_mod_bound [of "2 ^ 64" "i + 2 ^ 63"] pos_mod_sign [of "2 ^ 64" "i + 2 ^ 63"]
  by (simp add: wrap64_def)

lemma wrap64_big: "2 ^ 63 \<le> i \<Longrightarrow> i < 2 ^ 64 \<Longrightarrow> wrap64 i = i - 2 ^ 64"
proof -
  assume a: "2 ^ 63 \<le> i" "i < 2 ^ 64"
  have "(i + 2 ^ 63) mod 2 ^ 64 = (i + 2 ^ 63 - 2 ^ 64) mod 2 ^ 64" by (metis mod_diff_right_eq mod_self diff_zero)
  also have "\<dots> = i + 2 ^ 63 - 2 ^ 64" using a by (intro mod_pos_pos_trivial) simp_all
  finally show ?thesis by (simp add: wrap64_def)
qed

text \<open>An index that a length is added to goes forward or becomes negative.\<close>

lemma wrap64_forward:
  "0 \<le> i \<Longrightarrow> i < 2 ^ 63 \<Longrightarrow> 0 \<le> d \<Longrightarrow> d < 2 ^ 63 \<Longrightarrow> wrap64 (i + d) = i + d \<or> wrap64 (i + d) < 0"
  using wrap64_small [of "i + d"] wrap64_big [of "i + d"] by (cases "i + d < 2 ^ 63") auto

lemma sint_bounds: "- (2 ^ 63) \<le> sint (w :: u64) \<and> sint w < 2 ^ 63"
  using sint_greater_eq [of w] sint_less [of w] by simp

lemma skip_group_result:
  "skip_group n data start = Ok r \<Longrightarrow> 0 < r \<and> r \<le> int (length data)"
proof (induction n arbitrary: start)
  case (Suc n)
  then obtain w i where r: "read_varint data start 0 (0 :: u64) = Ok (w, i)" by (auto simp: bind_result_Ok)
  from read_varint_progress [OF r] Suc r show ?case by (auto simp: bind_result_Ok split: if_splits)
qed simp

lemma skip_field_result:
  assumes "fits data" and "skip_field n data = Ok r"
  shows "0 < r \<and> r < 2 ^ 63 \<or> - (2 ^ 63) \<le> r \<and> r < - (2 ^ 62)"
proof (cases n)
  case 0
  with assms show ?thesis by simp
next
  case (Suc k)
  with assms obtain w i where w: "read_varint data 0 0 (0 :: u64) = Ok (w, i)"
    by (auto simp: bind_result_Ok split: if_splits)
  have i: "0 < i" "i \<le> int (length data)" using read_varint_progress [OF w] by auto
  have fwd: "0 < wrap64 (j + d) \<and> wrap64 (j + d) < 2 ^ 63 \<or> - (2 ^ 63) \<le> wrap64 (j + d) \<and> wrap64 (j + d) < - (2 ^ 62)"
    if "0 < j" "j \<le> int (length data)" "0 \<le> d" "d < 2 ^ 63" for j d
    using that assms(1) wrap64_small [of "j + d"] wrap64_big [of "j + d"] wrap64_range [of "j + d"]
    by (cases "j + d < 2 ^ 63") auto
  have len: "0 < wrap64 (j + sint v) \<and> wrap64 (j + sint v) < 2 ^ 63
      \<or> - (2 ^ 63) \<le> wrap64 (j + sint v) \<and> wrap64 (j + sint v) < - (2 ^ 62)"
    if "read_varint data i 0 (0 :: u64) = Ok (v, j)" "0 \<le> sint v" for v j
    using fwd [of j "sint v"] read_varint_progress [OF that(1)] that(2) i sint_bounds [of v] by auto
  have small: "0 < j \<and> j < 2 ^ 63" if "read_varint data i 0 (0 :: u64) = Ok (v, j)" for v j
    using read_varint_progress [OF that] i assms(1) by auto
  have group: "0 < r \<and> r < 2 ^ 63" if "skip_group k data i = Ok r"
    using skip_group_result [OF that] assms(1) by auto
  show ?thesis
    using assms(2) Suc w len small group fwd [of i 8] fwd [of i 4] i assms(1)
    by (auto simp: bind_result_Ok Let_def not_less split: if_splits simp del: skip_group.simps)
qed

lemma skip_ends:
  "(\<forall>data. fits data \<longrightarrow> 2 * length data + 1 \<le> n \<longrightarrow> skip_field n data \<noteq> Diverges)
    \<and> (\<forall>data start. fits data \<longrightarrow> 1 \<le> n \<longrightarrow> (0 \<le> start \<longrightarrow> 2 * nat (int (length data) - start) + 2 \<le> n)
      \<longrightarrow> skip_group n data start \<noteq> Diverges)"
proof (induction n)
  case (Suc n)
  have field: "skip_field (Suc n) data \<noteq> Diverges" if a: "fits data" "2 * length data + 1 \<le> Suc n" for data
  proof
    assume "skip_field (Suc n) data = Diverges"
    then obtain w i where w: "read_varint data 0 0 (0 :: u64) = Ok (w, i)" and g: "skip_group n data i = Diverges"
      by (auto simp: bind_result_Diverges read_varint_ends Let_def split: if_splits)
    have "0 < i" "i \<le> int (length data)" using read_varint_progress [OF w] by auto
    then have "1 \<le> n" "0 \<le> i \<longrightarrow> 2 * nat (int (length data) - i) + 2 \<le> n" using a by auto
    with Suc.IH a(1) g show False by blast
  qed
  have "skip_group (Suc n) data start \<noteq> Diverges"
    if a: "fits data" "0 \<le> start \<longrightarrow> 2 * nat (int (length data) - start) + 2 \<le> Suc n" for data start
  proof
    assume "skip_group (Suc n) data start = Diverges"
    then obtain w i where w: "read_varint data start 0 (0 :: u64) = Ok (w, i)"
      and g: "skip_field n (drop (nat start) data) = Diverges \<or>
        (\<exists>nx. skip_field n (drop (nat start) data) = Ok nx \<and> skip_group n data (wrap64 (start + nx)) = Diverges)"
      by (auto simp: bind_result_Diverges read_varint_ends split: if_splits)
    have s: "0 \<le> start" "start < int (length data)" using read_varint_progress [OF w] by auto
    have fit: "fits (drop (nat start) data)" using a(1) by simp
    have "2 * length (drop (nat start) data) + 1 \<le> n" using s a(2) by auto
    with Suc.IH fit g obtain nx where nx: "skip_field n (drop (nat start) data) = Ok nx"
      and gr: "skip_group n data (wrap64 (start + nx)) = Diverges" by blast
    have "wrap64 (start + nx) = start + nx \<and> 0 < nx \<or> wrap64 (start + nx) < 0"
      using skip_field_result [OF fit nx]
    proof
      assume "0 < nx \<and> nx < 2 ^ 63"
      then show ?thesis using wrap64_forward [of start nx] s a(1) by auto
    next
      assume "- (2 ^ 63) \<le> nx \<and> nx < - (2 ^ 62)"
      then have "start + nx < 0" "- (2 ^ 63) \<le> start + nx" using s a(1) by auto
      then show ?thesis by (simp add: wrap64_def)
    qed
    moreover have "1 \<le> n" using s a(2) by auto
    ultimately have "0 \<le> wrap64 (start + nx) \<longrightarrow> 2 * nat (int (length data) - wrap64 (start + nx)) + 2 \<le> n"
      using s a(2) by auto
    with Suc.IH a(1) \<open>1 \<le> n\<close> gr show False by blast
  qed
  with field show ?case by blast
qed simp

lemma skipLog_ends: "fits data \<Longrightarrow> skipLog data \<noteq> Diverges"
  unfolding skipLog_def using skip_ends by blast

text \<open>
  A message's loop ends if its \<open>switch\<close> does and goes forward; both hold for the fields
  that are known and for those that are not.
\<close>

definition progresses :: "'s field_step \<Rightarrow> bool" where
  "progresses field \<longleftrightarrow> (\<forall>tag data pre i s. fits data \<and> 0 \<le> pre \<and> pre < i \<and> i \<le> int (length data) \<longrightarrow>
     field tag data pre i s \<noteq> Diverges
     \<and> (\<forall>j s'. field tag data pre i s = Ok (j, s') \<longrightarrow> pre < j \<and> j \<le> int (length data)))"

lemma read_tag_progress: "read_tag msg data i = Ok (tag, j) \<Longrightarrow> 0 \<le> i \<and> i < j \<and> j \<le> int (length data)"
  by (auto simp: read_tag_def bind_result_Ok Let_def dest: read_varint_progress split: if_splits)

lemma field_loop_ends:
  assumes "progresses field" and "fits data"
  shows "0 \<le> i \<Longrightarrow> i \<le> int (length data) \<Longrightarrow> length data < n + nat i \<Longrightarrow> field_loop msg field n data (i, s) \<noteq> Diverges"
proof (induction n arbitrary: i s)
  case (Suc n)
  show ?case
  proof (cases "i < int (length data)")
    case True
    have "bind_result (field tag data i j s) (field_loop msg field n data) \<noteq> Diverges"
      if t: "read_tag msg data i = Ok (tag, j)" for tag j
    proof -
      have ij: "i < j" "j \<le> int (length data)" using read_tag_progress [OF t] by auto
      have f: "field tag data i j s \<noteq> Diverges"
        and p: "field tag data i j s = Ok (k, s') \<Longrightarrow> i < k \<and> k \<le> int (length data)" for k s'
        using assms Suc.prems(1) ij unfolding progresses_def by blast+
      have "field_loop msg field n data (k, s') \<noteq> Diverges" if "field tag data i j s = Ok (k, s')" for k s'
        using p [OF that] Suc.prems by (intro Suc.IH) auto
      with f show ?thesis by (auto simp: bind_result_Diverges)
    qed
    moreover have "read_tag msg data i \<noteq> Diverges"
      by (auto simp: read_tag_def bind_result_Diverges read_varint_ends Let_def)
    ultimately show ?thesis using True by (auto simp: bind_result_Diverges)
  qed simp
qed simp

lemma read_fields_ends: "progresses field \<Longrightarrow> fits data \<Longrightarrow> read_fields msg field s data \<noteq> Diverges"
  unfolding read_fields_def by (intro field_loop_ends) simp_all

lemma slice_result: "slice data a b = Ok s \<Longrightarrow> 0 \<le> a \<and> a \<le> b \<and> b \<le> int (length data) \<and> length s \<le> length data"
  by (auto simp: slice_def split: if_splits)

lemma slice_ends: "slice data a b \<noteq> Diverges"
  by (simp add: slice_def)

lemma read_delimited_ends:
  "read_delimited f w data i \<noteq> Diverges"
  "read_delimited f w data i = Ok (s, j) \<Longrightarrow> i \<le> j \<and> j \<le> int (length data) \<and> length s \<le> length data"
proof -
  show "read_delimited f w data i \<noteq> Diverges"
    by (auto simp: read_delimited_def bind_result_Diverges read_varint_ends slice_ends Let_def)
  show "i \<le> j \<and> j \<le> int (length data) \<and> length s \<le> length data" if "read_delimited f w data i = Ok (s, j)"
    using that
    by (auto simp: read_delimited_def bind_result_Ok Let_def dest!: slice_result read_varint_progress split: if_splits)
qed

lemma read_unknown_ends:
  assumes "fits data" and "0 \<le> pre" and "pre < int (length data)"
  shows "read_unknown data pre \<noteq> Diverges"
    and "read_unknown data pre = Ok (s, j) \<Longrightarrow> pre < j \<and> j \<le> int (length data)"
proof -
  have fit: "fits (drop (nat pre) data)" using assms(1) by simp
  show "read_unknown data pre \<noteq> Diverges"
    using skipLog_ends [OF fit] by (auto simp: read_unknown_def bind_result_Diverges slice_ends)
  assume "read_unknown data pre = Ok (s, j)"
  then obtain k where k: "skipLog (drop (nat pre) data) = Ok k" "0 \<le> k" "j = wrap64 (pre + k)" and s: "slice data pre j = Ok s"
    by (auto simp: read_unknown_def bind_result_Ok split: if_splits)
  have "0 < k" "k < 2 ^ 63" using skip_field_result [OF fit] k(1,2) unfolding skipLog_def by fastforce+
  then show "pre < j \<and> j \<le> int (length data)"
    using wrap64_forward [of pre k] assms(1,2) slice_result [OF s] k(3) by auto
qed

section \<open>The contract of a message that is read\<close>

text \<open>
  What a message without unknown fields has written is read back; what has been read
  has its required fields; and reading ends.
\<close>

locale pb_message = pb_writer size_of marshalTo enc fields_set
  for size_of :: "'m \<Rightarrow> nat" and marshalTo :: "'m \<Rightarrow> byte list \<Rightarrow> wbuf result"
    and enc :: "'m \<Rightarrow> byte list" and fields_set :: "'m \<Rightarrow> bool" +
  fixes unmarshal :: "byte list \<Rightarrow> 'm result"
    and plain :: "'m \<Rightarrow> bool"
  assumes unmarshal_enc: "fields_set m \<Longrightarrow> plain m \<Longrightarrow> fits (enc m) \<Longrightarrow> unmarshal (enc m) = Ok m"
    and unmarshal_set: "unmarshal bs = Ok m \<Longrightarrow> fields_set m"
    and unmarshal_ends: "fits bs \<Longrightarrow> unmarshal bs \<noteq> Diverges"
begin

lemma roundtrip:
  assumes "fields_set m" and "plain m" and "fits (enc m)"
  shows "\<exists>bs. marshal_with (size_of m) (marshalTo m) = Ok bs \<and> unmarshal bs = Ok m"
  using assms marshal_exact unmarshal_enc by blast

lemma accepted_is_marshalled:
  "unmarshal bs = Ok m \<Longrightarrow> \<exists>out. marshal_with (size_of m) (marshalTo m) = Ok out \<and> length out = size_of m"
  using unmarshal_set marshal_exact by (auto simp: size_enc)

text \<open>A repeated field of these messages inside another one.\<close>

lemma takes_sub:
  assumes "fields_set m" and "plain m" and "fits (enc m)"
    and head: "\<And>pre rest. read_tag msg (pre @ t # rest) (int (length pre)) = Ok ((f, 2), int (length pre) + 1)"
    and switch: "\<And>data pre i. field (f, 2) data pre i s =
      bind_result (read_delimited name 2 data i) (\<lambda>(b, j). bind_result (unmarshal b) (\<lambda>m. Ok (j, upd m s)))"
  shows "takes msg field (delimited t (enc m)) s (upd m s)"
proof (rule takes_delimited [OF head])
  fix data pre i j assume "read_delimited name 2 data i = Ok (enc m, j)"
  then show "field (f, 2) data pre i s = Ok (j, upd m s)"
    using switch unmarshal_enc [OF assms(1-3)] by simp
qed

lemma takes_subs:
  assumes "list_all fields_set ms" and "list_all plain ms" and "\<forall>m\<in>set ms. fits (enc m)"
    and "\<And>pre rest. read_tag msg (pre @ t # rest) (int (length pre)) = Ok ((f, 2), int (length pre) + 1)"
    and "\<And>data pre i s. field (f, 2) data pre i s =
      bind_result (read_delimited name 2 data i) (\<lambda>(b, j). bind_result (unmarshal b) (\<lambda>m. Ok (j, upd m s)))"
  shows "takes msg field (concat (map (\<lambda>m. delimited t (enc m)) ms)) s (fold upd ms s)"
  using assms by (intro takes_fold takes_sub) (auto simp: list_all_iff)

text \<open>The case of such a field goes forward.\<close>

lemma sub_progress:
  assumes "fits data"
  shows "bind_result (read_delimited name w data i) (\<lambda>(b, j). bind_result (unmarshal b) (\<lambda>m. Ok (j, upd m))) \<noteq> Diverges"
    and "bind_result (read_delimited name w data i) (\<lambda>(b, j). bind_result (unmarshal b) (\<lambda>m. Ok (j, upd m))) = Ok (k, s')
      \<Longrightarrow> i \<le> k \<and> k \<le> int (length data) \<and> (\<exists>m. fields_set m \<and> s' = upd m)"
proof -
  show "bind_result (read_delimited name w data i) (\<lambda>(b, j). bind_result (unmarshal b) (\<lambda>m. Ok (j, upd m))) \<noteq> Diverges"
    using read_delimited_ends(1) unmarshal_ends assms
    by (fastforce simp: bind_result_Diverges dest: read_delimited_ends(2))
  assume "bind_result (read_delimited name w data i) (\<lambda>(b, j). bind_result (unmarshal b) (\<lambda>m. Ok (j, upd m))) = Ok (k, s')"
  then show "i \<le> k \<and> k \<le> int (length data) \<and> (\<exists>m. fields_set m \<and> s' = upd m)"
    by (auto simp: bind_result_Ok dest: read_delimited_ends(2) unmarshal_set)
qed

end

text \<open>An invariant of the loop holds of what it returns.\<close>

lemma read_fields_inv:
  assumes "\<And>tag data pre i s j s'. P s \<Longrightarrow> field tag data pre i s = Ok (j, s') \<Longrightarrow> P s'" and "P s"
    and "read_fields msg field s data = Ok (i, s')"
  shows "P s'"
proof -
  have "P s \<Longrightarrow> field_loop msg field n data (i, s) = Ok (j, s') \<Longrightarrow> P s'" for n i j s s'
  proof (induction n arbitrary: i s)
    case (Suc n)
    then show ?case using assms(1) by (fastforce simp: bind_result_Ok split: if_splits)
  qed simp
  then show ?thesis using assms(2,3) unfolding read_fields_def by blast
qed

section \<open>The four messages\<close>

definition plain_LogContent :: "LogContent \<Rightarrow> bool" where
  "plain_LogContent m \<longleftrightarrow> lc_XXX m = []"

definition plain_PbLog :: "PbLog \<Rightarrow> bool" where
  "plain_PbLog m \<longleftrightarrow> pl_XXX m = [] \<and> list_all plain_LogContent (pl_Contents m)"

definition plain_LogGroup :: "LogGroup \<Rightarrow> bool" where
  "plain_LogGroup m \<longleftrightarrow> lgr_XXX m = [] \<and> list_all plain_PbLog (lgr_Logs m)"

definition plain_LogGroupList :: "LogGroupList \<Rightarrow> bool" where
  "plain_LogGroupList m \<longleftrightarrow> lgl_XXX m = [] \<and> list_all plain_LogGroup (lgl_LogGroups m)"

lemma hasFields_bits [simp]:
  "(w :: u64) AND 1 = 0 \<longleftrightarrow> \<not> bit w 0" "w AND 2 = 0 \<longleftrightarrow> \<not> bit w 1"
  "bit (w OR 1) 0" "bit (w OR 2) 1" "bit (w OR 1) 1 \<longleftrightarrow> bit w 1" "bit (w OR 2) 0 \<longleftrightarrow> bit w 0"
proof -
  have two: "bit (2 :: u64) n \<longleftrightarrow> n = 1" for n using bit_exp_iff [where 'a = u64, of 1 n] by auto
  show "w AND 1 = 0 \<longleftrightarrow> \<not> bit w 0" by (simp add: and_one_eq bit_0 mod_2_eq_odd)
  show "w AND 2 = 0 \<longleftrightarrow> \<not> bit w 1"
  proof
    assume "w AND 2 = 0"
    then have "\<not> bit (w AND 2) 1" by (metis bit_0_eq bot_apply bot_bool_def)
    then show "\<not> bit w 1" by (simp add: bit_and_iff two)
  next
    assume "\<not> bit w 1"
    moreover have "n = 1" if "bit (w AND 2) n" for n using that by (simp only: bit_and_iff two)
    ultimately have "\<not> bit (w AND 2) n" for n by (metis bit_and_iff)
    then show "w AND 2 = 0" by (intro bit_word_eqI) simp
  qed
  show "bit (w OR 1) 0" "bit (w OR 2) 1" "bit (w OR 1) 1 \<longleftrightarrow> bit w 1" "bit (w OR 2) 0 \<longleftrightarrow> bit w 0"
    by (auto simp: bit_or_iff two bit_1_iff)
qed

lemmas hasFields_bits_Suc [simp] = hasFields_bits [unfolded One_nat_def]

text \<open>The cases of a \<open>switch\<close> for a string and for a field that is not known go forward.\<close>

lemma string_progress:
  "bind_result (read_delimited name w data i) (\<lambda>(b, j). Ok (j, f b)) \<noteq> Diverges"
  "bind_result (read_delimited name w data i) (\<lambda>(b, j). Ok (j, f b)) = Ok (k, s')
    \<Longrightarrow> i \<le> k \<and> k \<le> int (length data) \<and> (\<exists>b. s' = f b)"
  using read_delimited_ends(1) by (auto simp: bind_result_Diverges bind_result_Ok dest: read_delimited_ends(2))

lemma unknown_progress:
  assumes "fits data" and "0 \<le> pre" and "pre < int (length data)"
  shows "bind_result (read_unknown data pre) (\<lambda>(b, j). Ok (j, f b)) \<noteq> Diverges"
    and "bind_result (read_unknown data pre) (\<lambda>(b, j). Ok (j, f b)) = Ok (k, s') \<Longrightarrow> pre < k \<and> k \<le> int (length data)"
  using read_unknown_ends [OF assms] by (auto simp: bind_result_Diverges bind_result_Ok)

lemma progressesI:
  assumes "\<And>f w data pre i s. fits data \<Longrightarrow> 0 \<le> pre \<Longrightarrow> pre < int (length data) \<Longrightarrow> pre < i \<Longrightarrow>
      field (f, w) data pre i s \<noteq> Diverges
      \<and> (\<forall>j s'. field (f, w) data pre i s = Ok (j, s') \<longrightarrow> pre < j \<and> j \<le> int (length data))"
  shows "progresses field"
  unfolding progresses_def
proof (intro allI impI)
  fix tag :: "int \<times> nat" and data pre i s
  assume a: "fits data \<and> 0 \<le> pre \<and> pre < i \<and> i \<le> int (length data)"
  then have "pre < int (length data)" by linarith
  with a assms [of data pre i "fst tag" "snd tag" s]
  show "field tag data pre i s \<noteq> Diverges
      \<and> (\<forall>j s'. field tag data pre i s = Ok (j, s') \<longrightarrow> pre < j \<and> j \<le> int (length data))"
    by simp
qed

lemma LogContent_progresses: "progresses LogContent_field"
proof (rule progressesI)
  fix f :: int and w data pre i and st :: "LogContent \<times> u64"
  assume a: "fits data" "0 \<le> pre" "pre < int (length data)" "pre < i"
  obtain m has where st: "st = (m, has)" by fastforce
  show "LogContent_field (f, w) data pre i st \<noteq> Diverges
      \<and> (\<forall>j s'. LogContent_field (f, w) data pre i st = Ok (j, s') \<longrightarrow> pre < j \<and> j \<le> int (length data))"
    using a(4) unfolding st LogContent_field_def Let_def prod.case
    by (auto simp: string_progress(1) unknown_progress(1) [OF a(1-3)]
        dest!: string_progress(2) unknown_progress(2) [OF a(1-3)] split: if_splits)
qed


text \<open>A string field is taken as what was written.\<close>

lemma takes_string:
  assumes "\<And>pre rest. read_tag msg (pre @ t # rest) (int (length pre)) = Ok ((f, 2), int (length pre) + 1)"
    and "\<And>data pre i. field (f, 2) data pre i s = bind_result (read_delimited name 2 data i) (\<lambda>(b, j). Ok (j, upd (string_of b)))"
  shows "takes msg field (delimited t (bytes_of v)) s (upd v)"
  by (rule takes_delimited [OF assms(1), where name = name]) (simp add: assms(2))

lemma unmarshal_LogContent_enc:
  assumes "set_LogContent m" and "plain_LogContent m" and "fits (enc_LogContent m)"
  shows "LogContent_Unmarshal zero_LogContent (enc_LogContent m) = Ok m"
proof -
  obtain k v where kv: "lc_Key m = Some k" "lc_Value m = Some v" using assms(1) by (auto simp: set_LogContent_def)
  let ?m1 = "zero_LogContent\<lparr>lc_Key := Some k\<rparr>" and ?m2 = "zero_LogContent\<lparr>lc_Key := Some k, lc_Value := Some v\<rparr>"
  have e: "enc_LogContent m = delimited 0x0A (bytes_of k) @ delimited 0x12 (bytes_of v)"
    using assms(2) kv by (simp add: enc_LogContent_def delimited_opt_def plain_LogContent_def)
  have "takes ''Content'' LogContent_field (delimited 0x0A (bytes_of k)) (zero_LogContent, 0) (?m1, 0 OR 1)"
    by (rule takes_string [OF read_tags(2), where upd = "\<lambda>k. (zero_LogContent\<lparr>lc_Key := Some k\<rparr>, 0 OR 1)" and name = "''Key''"])
       (simp add: LogContent_field_def)
  moreover have "takes ''Content'' LogContent_field (delimited 0x12 (bytes_of v)) (?m1, 0 OR 1) (?m2, (0 OR 1) OR 2)"
    by (rule takes_string [OF read_tags(3), where upd = "\<lambda>v. (?m1\<lparr>lc_Value := Some v\<rparr>, (0 OR 1) OR 2)" and name = "''Value''"])
       (simp add: LogContent_field_def)
  ultimately have "takes ''Content'' LogContent_field (enc_LogContent m) (zero_LogContent, 0) (?m2, (0 OR 1) OR 2)"
    unfolding e by (rule takes_append)
  then have "read_fields ''Content'' LogContent_field (zero_LogContent, 0) (enc_LogContent m)
      = Ok (int (length (enc_LogContent m)), (?m2, (0 OR 1) OR 2))"
    using assms(3) by (rule takes_all)
  moreover have "?m2 = m" using kv assms(2) by (cases m) (simp add: zero_LogContent_def plain_LogContent_def)
  moreover have "bit (((0 :: u64) OR 1) OR 2) 0" "bit (((0 :: u64) OR 1) OR 2) 1" by (simp_all only: hasFields_bits)
  ultimately show ?thesis
    unfolding LogContent_Unmarshal_def by (simp only: bind_result.simps prod.case hasFields_bits if_False not_True_eq_False) simp
qed

text \<open>The bits of \<open>hasFields\<close> are set for fields that are.\<close>

definition seen_LogContent :: "LogContent \<times> u64 \<Rightarrow> bool" where
  "seen_LogContent st \<longleftrightarrow> (bit (snd st) 0 \<longrightarrow> lc_Key (fst st) \<noteq> None) \<and> (bit (snd st) 1 \<longrightarrow> lc_Value (fst st) \<noteq> None)"

lemma LogContent_field_seen:
  "seen_LogContent st \<Longrightarrow> LogContent_field tag data pre i st = Ok (j, st') \<Longrightarrow> seen_LogContent st'"
  by (auto simp: seen_LogContent_def LogContent_field_def bind_result_Ok split: prod.splits if_splits)

lemma LogContent_Unmarshal_set: "LogContent_Unmarshal zero_LogContent bs = Ok m \<Longrightarrow> set_LogContent m"
proof -
  assume "LogContent_Unmarshal zero_LogContent bs = Ok m"
  then obtain i has where r: "read_fields ''Content'' LogContent_field (zero_LogContent, 0) bs = Ok (i, (m, has))"
    and h: "bit has 0" "bit has 1"
    by (auto simp: LogContent_Unmarshal_def bind_result_Ok split: if_splits)
  have "seen_LogContent (m, has)"
    by (rule read_fields_inv [OF LogContent_field_seen _ r]) (auto simp: seen_LogContent_def)
  with h show ?thesis by (simp add: seen_LogContent_def set_LogContent_def)
qed

lemma LogContent_Unmarshal_ends: "fits bs \<Longrightarrow> LogContent_Unmarshal m bs \<noteq> Diverges"
  using read_fields_ends [OF LogContent_progresses]
  by (auto simp: LogContent_Unmarshal_def bind_result_Diverges)

interpretation content: pb_message LogContent_Size LogContent_MarshalTo enc_LogContent set_LogContent
    "LogContent_Unmarshal zero_LogContent" plain_LogContent
  by unfold_locales (simp_all add: unmarshal_LogContent_enc LogContent_Unmarshal_set LogContent_Unmarshal_ends)

text \<open>\<open>Log\<close>.\<close>

lemma takes_time:
  "takes ''Log'' PbLog_field (0x08 # varint (ucast t)) (m, has) (m\<lparr>pl_Time := Some t\<rparr>, has OR 1)"
proof (rule takes_field)
  fix pre rest
  show "read_tag ''Log'' (pre @ (0x08 # varint (ucast t)) @ rest) (int (length pre)) = Ok ((1, 0), int (length pre) + 1)"
    by (simp add: read_tags(1))
  show "PbLog_field (1, 0) ((pre @ [0x08]) @ varint (ucast t) @ rest) (int (length pre)) (int (length (pre @ [0x08]))) (m, has)
      = Ok (int (length (pre @ [0x08]) + length (varint (ucast t))), (m\<lparr>pl_Time := Some t\<rparr>, has OR 1))"
    using read_varint_u32 [of "pre @ [0x08]" t rest] by (simp add: PbLog_field_def)
qed

lemma fold_contents:
  "fold (\<lambda>c (m, h). (m\<lparr>pl_Contents := pl_Contents m @ [c]\<rparr>, h)) cs (m, has) = (m\<lparr>pl_Contents := pl_Contents m @ cs\<rparr>, has)"
  by (induction cs arbitrary: m) simp_all

lemma fits_parts: "fits (concat (map (\<lambda>m. delimited t (g m)) ms) @ rest) \<Longrightarrow> m \<in> set ms \<Longrightarrow> fits (g m)"
proof -
  assume f: "fits (concat (map (\<lambda>m. delimited t (g m)) ms) @ rest)" and m: "m \<in> set ms"
  obtain xs ys where "ms = xs @ m # ys" using split_list [OF m] by blast
  with f show ?thesis by (simp add: size_field_def)
qed

lemma unmarshal_PbLog_enc:
  assumes "set_PbLog m" and "plain_PbLog m" and "fits (enc_PbLog m)"
  shows "PbLog_Unmarshal zero_PbLog (enc_PbLog m) = Ok m"
proof -
  obtain t where t: "pl_Time m = Some t" using assms(1) by (auto simp: set_PbLog_def)
  let ?cs = "concat (map (\<lambda>c. delimited 0x12 (enc_LogContent c)) (pl_Contents m))"
  have e: "enc_PbLog m = (0x08 # varint (ucast t)) @ ?cs"
    using assms(2) t by (simp add: enc_PbLog_def plain_PbLog_def)
  let ?m1 = "zero_PbLog\<lparr>pl_Time := Some t\<rparr>"
  have fit: "\<forall>c\<in>set (pl_Contents m). fits (enc_LogContent c)"
    using assms(3) fits_parts [of "0x12" enc_LogContent "pl_Contents m" "[]"] by (auto simp: e)
  have "takes ''Log'' PbLog_field ?cs (?m1, 0 OR 1) (fold (\<lambda>c (m, h). (m\<lparr>pl_Contents := pl_Contents m @ [c]\<rparr>, h)) (pl_Contents m) (?m1, 0 OR 1))"
    using assms(1,2) fit
    by (intro content.takes_subs [OF _ _ _ read_tags(3), where name = "''Contents''"])
       (auto simp: set_PbLog_def plain_PbLog_def PbLog_field_def case_prod_beta)
  with takes_time have "takes ''Log'' PbLog_field (enc_PbLog m) (zero_PbLog, 0) (?m1\<lparr>pl_Contents := pl_Contents ?m1 @ pl_Contents m\<rparr>, 0 OR 1)"
    unfolding e fold_contents by (rule takes_append)
  then have "read_fields ''Log'' PbLog_field (zero_PbLog, 0) (enc_PbLog m)
      = Ok (int (length (enc_PbLog m)), (?m1\<lparr>pl_Contents := pl_Contents ?m1 @ pl_Contents m\<rparr>, 0 OR 1))"
    using assms(3) by (rule takes_all)
  moreover have "?m1\<lparr>pl_Contents := pl_Contents ?m1 @ pl_Contents m\<rparr> = m"
    using t assms(2) by (cases m) (simp add: zero_PbLog_def plain_PbLog_def)
  moreover have "bit ((0 :: u64) OR 1) 0" by (simp only: hasFields_bits)
  ultimately show ?thesis
    unfolding PbLog_Unmarshal_def by (simp only: bind_result.simps prod.case hasFields_bits if_False not_True_eq_False) simp
qed

definition seen_PbLog :: "PbLog \<times> u64 \<Rightarrow> bool" where
  "seen_PbLog st \<longleftrightarrow> (bit (snd st) 0 \<longrightarrow> pl_Time (fst st) \<noteq> None) \<and> list_all set_LogContent (pl_Contents (fst st))"

lemma PbLog_field_seen:
  "seen_PbLog st \<Longrightarrow> PbLog_field tag data pre i st = Ok (j, st') \<Longrightarrow> seen_PbLog st'"
  by (auto simp: seen_PbLog_def PbLog_field_def bind_result_Ok dest: content.unmarshal_set split: prod.splits if_splits)

lemma PbLog_Unmarshal_set: "PbLog_Unmarshal zero_PbLog bs = Ok m \<Longrightarrow> set_PbLog m"
proof -
  assume "PbLog_Unmarshal zero_PbLog bs = Ok m"
  then obtain i has where r: "read_fields ''Log'' PbLog_field (zero_PbLog, 0) bs = Ok (i, (m, has))" and h: "bit has 0"
    by (auto simp: PbLog_Unmarshal_def bind_result_Ok split: if_splits)
  have "seen_PbLog (m, has)"
    by (rule read_fields_inv [OF PbLog_field_seen _ r]) (auto simp: seen_PbLog_def zero_PbLog_def)
  with h show ?thesis by (simp add: seen_PbLog_def set_PbLog_def)
qed

lemma PbLog_progresses: "progresses PbLog_field"
proof (rule progressesI)
  fix f :: int and w data pre i and st :: "PbLog \<times> u64"
  assume a: "fits data" "0 \<le> pre" "pre < int (length data)" "pre < i"
  obtain m has where st: "st = (m, has)" by fastforce
  show "PbLog_field (f, w) data pre i st \<noteq> Diverges
      \<and> (\<forall>j s'. PbLog_field (f, w) data pre i st = Ok (j, s') \<longrightarrow> pre < j \<and> j \<le> int (length data))"
    using a(4) unfolding st PbLog_field_def Let_def prod.case
    by (auto simp: content.sub_progress(1) [OF a(1)] unknown_progress(1) [OF a(1-3)] bind_result_Diverges [of "read_varint data i 0 0"]
          bind_result_Ok [of "read_varint data i 0 0"] read_varint_ends
        dest!: content.sub_progress(2) [OF a(1)] unknown_progress(2) [OF a(1-3)] dest: read_varint_progress split: if_splits)
qed

lemma PbLog_Unmarshal_ends: "fits bs \<Longrightarrow> PbLog_Unmarshal m bs \<noteq> Diverges"
  using read_fields_ends [OF PbLog_progresses] by (auto simp: PbLog_Unmarshal_def bind_result_Diverges)

interpretation logm: pb_message PbLog_Size PbLog_MarshalTo enc_PbLog set_PbLog
    "PbLog_Unmarshal zero_PbLog" plain_PbLog
  by unfold_locales (simp_all add: unmarshal_PbLog_enc PbLog_Unmarshal_set PbLog_Unmarshal_ends)


text \<open>\<open>LogGroup\<close>.\<close>

lemma fold_logs: "fold (\<lambda>l m. m\<lparr>lgr_Logs := lgr_Logs m @ [l]\<rparr>) ls m = m\<lparr>lgr_Logs := lgr_Logs m @ ls\<rparr>"
  by (induction ls arbitrary: m) simp_all

lemma takes_LogGroup:
  assumes "set_LogGroup m" and "plain_LogGroup m" and "fits (enc_LogGroup m)"
  shows "takes ''LogGroup'' LogGroup_field (enc_LogGroup m) zero_LogGroup m"
proof -
  let ?ls = "concat (map (\<lambda>l. delimited 0x0A (enc_PbLog l)) (lgr_Logs m))"
  let ?m1 = "zero_LogGroup\<lparr>lgr_Logs := lgr_Logs zero_LogGroup @ lgr_Logs m\<rparr>"
  have fit: "\<forall>l\<in>set (lgr_Logs m). fits (enc_PbLog l)"
    using assms(3) fits_parts [of "0x0A" enc_PbLog "lgr_Logs m"] unfolding enc_LogGroup_def by blast
  have "takes ''LogGroup'' LogGroup_field ?ls zero_LogGroup
      (fold (\<lambda>l m. m\<lparr>lgr_Logs := lgr_Logs m @ [l]\<rparr>) (lgr_Logs m) zero_LogGroup)"
    using assms(1,2) fit
    by (intro logm.takes_subs [OF _ _ _ read_tags(2), where name = "''Logs''"])
       (auto simp: set_LogGroup_def plain_LogGroup_def LogGroup_field_def)
  then have logs: "takes ''LogGroup'' LogGroup_field ?ls zero_LogGroup ?m1" unfolding fold_logs .
  have strings: "takes ''LogGroup'' LogGroup_field (delimited_opt 0x12 x) g (case x of None \<Rightarrow> g | Some v \<Rightarrow> g\<lparr>lgr_Reserved := Some v\<rparr>)"
    "takes ''LogGroup'' LogGroup_field (delimited_opt 0x1A x) g (case x of None \<Rightarrow> g | Some v \<Rightarrow> g\<lparr>lgr_Topic := Some v\<rparr>)"
    "takes ''LogGroup'' LogGroup_field (delimited_opt 0x22 x) g (case x of None \<Rightarrow> g | Some v \<Rightarrow> g\<lparr>lgr_Source := Some v\<rparr>)" for x g
    by (intro takes_opt,
        rule takes_string [OF read_tags(3), where upd = "\<lambda>v. g\<lparr>lgr_Reserved := Some v\<rparr>" and name = "''Reserved''"]
             takes_string [OF read_tags(4), where upd = "\<lambda>v. g\<lparr>lgr_Topic := Some v\<rparr>" and name = "''Topic''"]
             takes_string [OF read_tags(5), where upd = "\<lambda>v. g\<lparr>lgr_Source := Some v\<rparr>" and name = "''Source''"],
        simp add: LogGroup_field_def)+
  let ?m2 = "case lgr_Reserved m of None \<Rightarrow> ?m1 | Some v \<Rightarrow> ?m1\<lparr>lgr_Reserved := Some v\<rparr>"
  let ?m3 = "case lgr_Topic m of None \<Rightarrow> ?m2 | Some v \<Rightarrow> ?m2\<lparr>lgr_Topic := Some v\<rparr>"
  let ?m4 = "case lgr_Source m of None \<Rightarrow> ?m3 | Some v \<Rightarrow> ?m3\<lparr>lgr_Source := Some v\<rparr>"
  have "takes ''LogGroup'' LogGroup_field (?ls @ delimited_opt 0x12 (lgr_Reserved m) @ delimited_opt 0x1A (lgr_Topic m)
      @ delimited_opt 0x22 (lgr_Source m)) zero_LogGroup ?m4"
    by (intro takes_append [OF logs] takes_append [OF strings(1)] takes_append [OF strings(2)] strings(3))
  moreover have "?m4 = m"
    using assms(2) by (cases m) (simp add: zero_LogGroup_def plain_LogGroup_def split: option.split)
  ultimately show ?thesis using assms(2) by (simp add: enc_LogGroup_def plain_LogGroup_def)
qed

lemma unmarshal_LogGroup_enc:
  "set_LogGroup m \<Longrightarrow> plain_LogGroup m \<Longrightarrow> fits (enc_LogGroup m) \<Longrightarrow> LogGroup_Unmarshal zero_LogGroup (enc_LogGroup m) = Ok m"
  using takes_all [OF takes_LogGroup] by (simp add: LogGroup_Unmarshal_def)

lemma LogGroup_field_set:
  "set_LogGroup m \<Longrightarrow> LogGroup_field tag data pre i m = Ok (j, m') \<Longrightarrow> set_LogGroup m'"
  by (auto simp: set_LogGroup_def LogGroup_field_def bind_result_Ok dest: logm.unmarshal_set split: prod.splits if_splits)

lemma LogGroup_Unmarshal_set: "LogGroup_Unmarshal zero_LogGroup bs = Ok m \<Longrightarrow> set_LogGroup m"
proof -
  assume "LogGroup_Unmarshal zero_LogGroup bs = Ok m"
  then obtain i where r: "read_fields ''LogGroup'' LogGroup_field zero_LogGroup bs = Ok (i, m)"
    by (auto simp: LogGroup_Unmarshal_def bind_result_Ok split: if_splits)
  show ?thesis
    by (rule read_fields_inv [OF LogGroup_field_set _ r]) (simp_all add: set_LogGroup_def zero_LogGroup_def)
qed

lemma LogGroup_progresses: "progresses LogGroup_field"
proof (rule progressesI)
  fix f :: int and w data pre i and m :: LogGroup
  assume a: "fits data" "0 \<le> pre" "pre < int (length data)" "pre < i"
  show "LogGroup_field (f, w) data pre i m \<noteq> Diverges
      \<and> (\<forall>j s'. LogGroup_field (f, w) data pre i m = Ok (j, s') \<longrightarrow> pre < j \<and> j \<le> int (length data))"
    using a(4) unfolding LogGroup_field_def Let_def prod.case
    by (auto simp: logm.sub_progress(1) [OF a(1)] string_progress(1) unknown_progress(1) [OF a(1-3)]
        dest!: logm.sub_progress(2) [OF a(1)] string_progress(2) unknown_progress(2) [OF a(1-3)] split: if_splits)
qed

lemma LogGroup_Unmarshal_ends: "fits bs \<Longrightarrow> LogGroup_Unmarshal m bs \<noteq> Diverges"
  using read_fields_ends [OF LogGroup_progresses] by (auto simp: LogGroup_Unmarshal_def bind_result_Diverges)

interpretation groupm: pb_message LogGroup_Size LogGroup_MarshalTo enc_LogGroup set_LogGroup
    "LogGroup_Unmarshal zero_LogGroup" plain_LogGroup
  by unfold_locales (simp_all add: unmarshal_LogGroup_enc LogGroup_Unmarshal_set LogGroup_Unmarshal_ends)

text \<open>\<open>LogGroupList\<close>.\<close>

lemma fold_groups: "fold (\<lambda>g m. m\<lparr>lgl_LogGroups := lgl_LogGroups m @ [g]\<rparr>) gs m = m\<lparr>lgl_LogGroups := lgl_LogGroups m @ gs\<rparr>"
  by (induction gs arbitrary: m) simp_all

lemma takes_LogGroupList:
  assumes "set_LogGroupList m" and "plain_LogGroupList m" and "fits (enc_LogGroupList m)"
  shows "takes ''LogGroupList'' LogGroupList_field (enc_LogGroupList m) zero_LogGroupList m"
proof -
  have fit: "\<forall>g\<in>set (lgl_LogGroups m). fits (enc_LogGroup g)"
    using assms(3) fits_parts [of "0x0A" enc_LogGroup "lgl_LogGroups m"] unfolding enc_LogGroupList_def by blast
  have "takes ''LogGroupList'' LogGroupList_field (concat (map (\<lambda>g. delimited 0x0A (enc_LogGroup g)) (lgl_LogGroups m)))
      zero_LogGroupList (fold (\<lambda>g m. m\<lparr>lgl_LogGroups := lgl_LogGroups m @ [g]\<rparr>) (lgl_LogGroups m) zero_LogGroupList)"
    using assms(1,2) fit
    by (intro groupm.takes_subs [OF _ _ _ read_tags(2), where name = "''LogGroups''"])
       (auto simp: set_LogGroupList_def plain_LogGroupList_def LogGroupList_field_def)
  moreover have "zero_LogGroupList\<lparr>lgl_LogGroups := lgl_LogGroups zero_LogGroupList @ lgl_LogGroups m\<rparr> = m"
    using assms(2) by (cases m) (simp add: zero_LogGroupList_def plain_LogGroupList_def)
  ultimately show ?thesis
    using assms(2) unfolding fold_groups by (simp add: enc_LogGroupList_def plain_LogGroupList_def)
qed

lemma unmarshal_LogGroupList_enc:
  "set_LogGroupList m \<Longrightarrow> plain_LogGroupList m \<Longrightarrow> fits (enc_LogGroupList m)
    \<Longrightarrow> LogGroupList_Unmarshal zero_LogGroupList (enc_LogGroupList m) = Ok m"
  using takes_all [OF takes_LogGroupList] by (simp add: LogGroupList_Unmarshal_def)

lemma LogGroupList_field_set:
  "set_LogGroupList m \<Longrightarrow> LogGroupList_field tag data pre i m = Ok (j, m') \<Longrightarrow> set_LogGroupList m'"
  by (auto simp: set_LogGroupList_def LogGroupList_field_def bind_result_Ok dest: groupm.unmarshal_set split: prod.splits if_splits)

lemma LogGroupList_Unmarshal_set: "LogGroupList_Unmarshal zero_LogGroupList bs = Ok m \<Longrightarrow> set_LogGroupList m"
proof -
  assume "LogGroupList_Unmarshal zero_LogGroupList bs = Ok m"
  then obtain i where r: "read_fields ''LogGroupList'' LogGroupList_field zero_LogGroupList bs = Ok (i, m)"
    by (auto simp: LogGroupList_Unmarshal_def bind_result_Ok split: if_splits)
  show ?thesis
    by (rule read_fields_inv [OF LogGroupList_field_set _ r]) (simp_all add: set_LogGroupList_def zero_LogGroupList_def)
qed

lemma LogGroupList_progresses: "progresses LogGroupList_field"
proof (rule progressesI)
  fix f :: int and w data pre i and m :: LogGroupList
  assume a: "fits data" "0 \<le> pre" "pre < int (length data)" "pre < i"
  show "LogGroupList_field (f, w) data pre i m \<noteq> Diverges
      \<and> (\<forall>j s'. LogGroupList_field (f, w) data pre i m = Ok (j, s') \<longrightarrow> pre < j \<and> j \<le> int (length data))"
    using a(4) unfolding LogGroupList_field_def Let_def prod.case
    by (auto simp: groupm.sub_progress(1) [OF a(1)] unknown_progress(1) [OF a(1-3)]
        dest!: groupm.sub_progress(2) [OF a(1)] unknown_progress(2) [OF a(1-3)] split: if_splits)
qed

lemma LogGroupList_Unmarshal_ends: "fits bs \<Longrightarrow> LogGroupList_Unmarshal m bs \<noteq> Diverges"
  using read_fields_ends [OF LogGroupList_progresses] by (auto simp: LogGroupList_Unmarshal_def bind_result_Diverges)

interpretation listm: pb_message LogGroupList_Size LogGroupList_MarshalTo enc_LogGroupList set_LogGroupList
    "LogGroupList_Unmarshal zero_LogGroupList" plain_LogGroupList
  by unfold_locales (simp_all add: unmarshal_LogGroupList_enc LogGroupList_Unmarshal_set LogGroupList_Unmarshal_ends)


section \<open>Properties\<close>

text \<open>
  C34. A list of log groups with its required fields and without unknown ones is
  marshalled into exactly \<open>Size\<close> bytes, no write leaves the buffer, and \<open>Unmarshal\<close>
  of these bytes gives the list back.
\<close>

theorem loggroups_roundtrip:
  assumes "set_LogGroupList m" and "plain_LogGroupList m" and "LogGroupList_Size m < 2 ^ 62"
  shows "\<exists>bs. LogGroupList_Marshal m = Ok bs \<and> length bs = LogGroupList_Size m
    \<and> LogGroupList_Unmarshal zero_LogGroupList bs = Ok m"
  using list_w.marshal_exact [OF assms(1)] unmarshal_LogGroupList_enc [OF assms(1,2)] assms(3)
  by (simp add: LogGroupList_Marshal_def)

definition sample_log :: PbLog where
  "sample_log = \<lparr>pl_Time = Some 300, pl_Contents = [\<lparr>lc_Key = Some ''msg'', lc_Value = Some ''up'', lc_XXX = []\<rparr>], pl_XXX = []\<rparr>"

definition sample_list :: LogGroupList where
  "sample_list = \<lparr>lgl_LogGroups = [\<lparr>lgr_Logs = [sample_log, sample_log], lgr_Reserved = None, lgr_Topic = Some ''t'',
     lgr_Source = Some [], lgr_XXX = []\<rparr>], lgl_XXX = []\<rparr>"

lemma sample_list_ok: "set_LogGroupList sample_list" "plain_LogGroupList sample_list"
  by (simp_all add: sample_list_def sample_log_def set_LogGroupList_def set_LogGroup_def set_PbLog_def set_LogContent_def
      plain_LogGroupList_def plain_LogGroup_def plain_PbLog_def plain_LogContent_def)

lemma sample_list_size: "LogGroupList_Size sample_list = 39"
  unfolding LogGroupList_Size_def LogGroup_Size_def PbLog_Size_def LogContent_Size_def
  by (simp add: sample_list_def sample_log_def size_opt_def size_field_def len64_def sovLog.simps
      del: LogGroup_Size_enc PbLog_Size_enc LogContent_Size_enc)

theorem loggroups_roundtrip_witness:
  "\<exists>bs. LogGroupList_Marshal sample_list = Ok bs \<and> length bs = 39 \<and> LogGroupList_Unmarshal zero_LogGroupList bs = Ok sample_list"
  using loggroups_roundtrip [OF sample_list_ok] by (simp only: sample_list_size) simp

text \<open>
  C35. Whatever bytes \<open>Unmarshal\<close> accepts, the message it returns is well-formed: every
  log in it has its time and every content its key and value. So \<open>Marshal\<close> takes
  each accepted message, without an error and without leaving its buffer.
\<close>

theorem accepted_is_well_formed:
  assumes "LogGroupList_Unmarshal zero_LogGroupList bs = Ok m"
  shows "(\<forall>g\<in>set (lgl_LogGroups m). \<forall>l\<in>set (lgr_Logs g). pl_Time l \<noteq> None
      \<and> (\<forall>c\<in>set (pl_Contents l). lc_Key c \<noteq> None \<and> lc_Value c \<noteq> None))
    \<and> (\<exists>out. LogGroupList_Marshal m = Ok out \<and> length out = LogGroupList_Size m)"
  using listm.unmarshal_set [OF assms] listm.accepted_is_marshalled [OF assms]
  by (auto simp: LogGroupList_Marshal_def set_LogGroupList_def set_LogGroup_def set_PbLog_def set_LogContent_def list_all_iff)

theorem accepted_is_well_formed_witness: "\<exists>out. LogGroupList_Marshal sample_list = Ok out \<and> length out = LogGroupList_Size sample_list"
proof -
  have "LogGroupList_Unmarshal zero_LogGroupList (enc_LogGroupList sample_list) = Ok sample_list"
    using sample_list_size by (intro unmarshal_LogGroupList_enc sample_list_ok) simp
  from accepted_is_well_formed [OF this] show ?thesis by blast
qed

text \<open>
  C36. Reading ends on all bytes: neither the loop over the fields of a message nor
  \<open>skipLog\<close> with the groups inside groups that it passes over runs forever. The number
  of turns is at most one for each byte, and two for each byte of a skipped field.
\<close>

theorem unmarshal_terminates:
  assumes "length bs < 2 ^ 62"
  shows "skipLog bs \<noteq> Diverges \<and> LogContent_Unmarshal c bs \<noteq> Diverges \<and> PbLog_Unmarshal l bs \<noteq> Diverges
    \<and> LogGroup_Unmarshal g bs \<noteq> Diverges \<and> LogGroupList_Unmarshal m bs \<noteq> Diverges"
  using assms skipLog_ends LogContent_Unmarshal_ends PbLog_Unmarshal_ends LogGroup_Unmarshal_ends LogGroupList_Unmarshal_ends
  by blast

theorem unmarshal_terminates_witness: "skipLog [0x2B, 0x33, 0x34, 0x2C] \<noteq> Diverges"
  using unmarshal_terminates [of "[0x2B, 0x33, 0x34, 0x2C]"] by simp

text \<open>The length \<open>2 ^ 63 - 1\<close>, and where it leads.\<close>

definition huge_length :: "byte list" where
  "huge_length = [0xFF, 0xFF, 0xFF, 0xFF, 0xFF, 0xFF, 0xFF, 0xFF, 0x7F]"

lemma huge_length_varint: "huge_length = varint 0x7FFFFFFFFFFFFFFF"
  by (simp add: huge_length_def varint.simps)

lemma read_delimited_huge:
  assumes "fits (pre @ huge_length @ rest)" and "pre \<noteq> []"
  shows "read_delimited f 2 (pre @ huge_length @ rest) (int (length pre)) = Panic"
proof -
  let ?i = "int (length (pre @ huge_length))"
  have r: "read_varint (pre @ huge_length @ rest) (int (length pre)) 0 (0 :: u64) = Ok (0x7FFFFFFFFFFFFFFF, ?i)"
    unfolding huge_length_varint by simp
  have s: "sint (0x7FFFFFFFFFFFFFFF :: u64) = 2 ^ 63 - 1" by simp
  have b: "0 < ?i" "?i < 2 ^ 62" using assms by (simp_all add: huge_length_def)
  then have w: "wrap64 (?i + (2 ^ 63 - 1)) < 0" using wrap64_big [of "?i + (2 ^ 63 - 1)"] by auto
  then have "slice (pre @ huge_length @ rest) ?i (wrap64 (?i + (2 ^ 63 - 1))) = Panic" by (simp add: slice_def)
  with w show ?thesis unfolding read_delimited_def r using s by (simp add: Let_def)
qed

text \<open>
  A field whose length is \<open>2 ^ 63 - 1\<close> passes every check: the index after it is
  computed in 64 bits and wraps below zero, which is not beyond the end of the data,
  and the slice panics. So ten bytes after any valid list, as they may come in the
  answer of a server, end the program instead of giving \<open>ErrUnexpectedEOF\<close>.
\<close>

lemma huge_length_panics:
  assumes "set_LogGroupList m" and "plain_LogGroupList m" and "LogGroupList_Marshal m = Ok bs"
    and "length bs + length rest + 10 < 2 ^ 62"
  shows "LogGroupList_Unmarshal zero_LogGroupList (bs @ 0x0A # huge_length @ rest) = Panic"
proof -
  have bs: "bs = enc_LogGroupList m"
    using assms(3) list_w.marshal_exact [OF assms(1)] by (simp add: LogGroupList_Marshal_def)
  let ?rest = "0x0A # huge_length @ rest"
  let ?loop = "\<lambda>n i. field_loop ''LogGroupList'' LogGroupList_field n (bs @ ?rest) (int i, m)"
  have fit: "fits ((bs @ [0x0A]) @ huge_length @ rest)" using assms(4) by (simp add: huge_length_def)
  have t: "takes ''LogGroupList'' LogGroupList_field bs zero_LogGroupList m"
    unfolding bs using assms(4) bs by (intro takes_LogGroupList assms(1,2)) simp
  have "fits ([] @ bs @ ?rest) \<and> length bs < length (bs @ ?rest) + 1" using fit by simp
  from t [unfolded takes_def, rule_format, OF this] obtain n' where n': "length (bs @ ?rest) + 1 \<le> n' + length bs"
    and loop: "read_fields ''LogGroupList'' LogGroupList_field zero_LogGroupList (bs @ ?rest) = ?loop n' (length bs)"
    unfolding read_fields_def by auto
  obtain k where k: "n' = Suc k" using n' by (cases n') auto
  have "LogGroupList_field (1, 2) ((bs @ [0x0A]) @ huge_length @ rest) (int (length bs)) (int (length (bs @ [0x0A]))) m = Panic"
    using read_delimited_huge [OF fit] unfolding LogGroupList_field_def by (simp add: add.commute)
  then have "?loop n' (length bs) = Panic" using read_tags(2) [of "''LogGroupList''" bs "huge_length @ rest"] by (simp add: k add.commute)
  with loop show ?thesis by (simp add: LogGroupList_Unmarshal_def)
qed

lemma ten_bytes_panic:
  "LogGroupList_Unmarshal zero_LogGroupList [0x0A, 0xFF, 0xFF, 0xFF, 0xFF, 0xFF, 0xFF, 0xFF, 0xFF, 0x7F] = Panic"
proof -
  have "LogGroupList_Marshal zero_LogGroupList = Ok []"
    by (simp add: LogGroupList_Marshal_def marshal_with_def LogGroupList_MarshalTo_def zero_LogGroupList_def copy_bytes_def
        LogGroupList_Size_def del: LogGroupList_Size_enc)
  from huge_length_panics [OF _ _ this, of "[]"] show ?thesis
    by (simp add: set_LogGroupList_def plain_LogGroupList_def zero_LogGroupList_def huge_length_def)
qed

end
