(* ===== verification/Alils_Api.thy ===== *)
theory Alils_Api
  imports Alils_Request Alils_Codec
begin

text \<open>
  The operations of the Alibaba adapter's client (\<open>internal/logs/alils/log_project.go\<close>,
  \<open>log_store.go\<close>, \<open>machine_group.go\<close>, \<open>log_config.go\<close>): each makes one request, reads the
  answer and decodes it. The protobuf package's \<open>Marshal\<close> and \<open>Unmarshal\<close> and the
  compression are outside.
\<close>

section \<open>Answers\<close>

record errorMessage =
  em_Code :: string
  em_Message :: string

definition member_errorMessage :: "errorMessage member_step" where
  "member_errorMessage m st =
     (let (k, v) = m in
      if key_is ''errorCode'' k then set_str (\<lambda>x s. s\<lparr>em_Code := x\<rparr>) v st
      else if key_is ''errorMessage'' k then set_str (\<lambda>x s. s\<lparr>em_Message := x\<rparr>) v st
      else st)"

text \<open>
  What every operation does with its request: the body is read; a status other than 200
  is an error, with the service's code and message when the body has them and with the
  operation's own text \<open>failed\<close> when it is no JSON object.
\<close>

definition reply ::
  "outside \<Rightarrow> LogProject \<Rightarrow> string \<Rightarrow> string \<Rightarrow> headers \<Rightarrow> byte list option \<Rightarrow> string
    \<Rightarrow> (sls_error, (string \<rightharpoonup> string list) \<times> byte list) res" where
  "reply w p method uri h body failed =
     bind_result (request w p method uri h body) (\<lambda>(status, hs, b).
       case b of
         None \<Rightarrow> Err BodyBroken
       | Some buf \<Rightarrow>
           if status \<noteq> 200 then
             (case unmarshal member_errorMessage \<lparr>em_Code = [], em_Message = []\<rparr> buf of
                Inl e \<Rightarrow> Err (ErrorText failed)
              | Inr m \<Rightarrow> Err (ErrorText (em_Code m @ '':'' @ em_Message m)))
           else Ok (hs, buf))"

definition decode :: "'r member_step \<Rightarrow> 'r \<Rightarrow> byte list \<Rightarrow> (sls_error, 'r) res" where
  "decode stp z buf = (case unmarshal stp z buf of Inl e \<Rightarrow> Err (JsonError e) | Inr r \<Rightarrow> Ok r)"

definition no_body :: headers where
  "no_body = [''x-sls-bodyrawsize'' \<mapsto> ''0'']"

definition json_body :: "byte list \<Rightarrow> headers" where
  "json_body body =
     [''x-sls-bodyrawsize'' \<mapsto> dec (length body), ''Content-Type'' \<mapsto> ''application/json'',
      ''Accept-Encoding'' \<mapsto> ''deflate'']"

definition call_plain :: "outside \<Rightarrow> LogProject \<Rightarrow> string \<Rightarrow> string \<Rightarrow> string \<Rightarrow> (sls_error, byte list) res" where
  "call_plain w p method uri failed = bind_result (reply w p method uri no_body None failed) (\<lambda>(hs, buf). Ok buf)"

definition call_json :: "outside \<Rightarrow> LogProject \<Rightarrow> string \<Rightarrow> string \<Rightarrow> json \<Rightarrow> string \<Rightarrow> (sls_error, unit) res" where
  "call_json w p method uri v failed =
     (let body = bytes_of (json_print v) in
      bind_result (reply w p method uri (json_body body) (Some body) failed) (\<lambda>_. Ok ()))"

section \<open>Decoding fields\<close>

text \<open>A slice of strings may be \<open>nil\<close>; a number of 32 bits has no sign.\<close>

definition set_slice :: "(string list option \<Rightarrow> 'r \<Rightarrow> 'r) \<Rightarrow> json \<Rightarrow> bool \<times> 'r \<Rightarrow> bool \<times> 'r" where
  "set_slice upd v st =
     (case v of
        JArr vs \<Rightarrow>
          (fst st \<and> (\<forall>x \<in> set vs. case x of JStr s \<Rightarrow> True | JNull \<Rightarrow> True | _ \<Rightarrow> False),
           upd (Some (map (\<lambda>x. case x of JStr s \<Rightarrow> s | _ \<Rightarrow> []) vs)) (snd st))
      | JNull \<Rightarrow> (fst st, upd None (snd st))
      | _ \<Rightarrow> (False, snd st))"

definition set_u32 :: "(u32 \<Rightarrow> 'r \<Rightarrow> 'r) \<Rightarrow> json \<Rightarrow> bool \<times> 'r \<Rightarrow> bool \<times> 'r" where
  "set_u32 upd v st =
     (case v of
        JNum s \<Rightarrow> if s \<noteq> [] \<and> list_all is_digit s \<and> undec s < 2 ^ 32
                  then (fst st, upd (word_of_nat (undec s)) (snd st)) else (False, snd st)
      | JNull \<Rightarrow> st
      | _ \<Rightarrow> (False, snd st))"

definition set_struct ::
  "'s member_step \<Rightarrow> ('r \<Rightarrow> 's) \<Rightarrow> ('s \<Rightarrow> 'r \<Rightarrow> 'r) \<Rightarrow> json \<Rightarrow> bool \<times> 'r \<Rightarrow> bool \<times> 'r" where
  "set_struct stp get upd v st =
     (case decode_obj stp (get (snd st)) v of (ok, s) \<Rightarrow> (fst st \<and> ok, upd s (snd st)))"

text \<open>A slice of pointers to structs: \<open>null\<close> is a \<open>nil\<close> pointer.\<close>

definition decode_pointers :: "'s member_step \<Rightarrow> 's \<Rightarrow> json \<Rightarrow> bool \<times> 's option list" where
  "decode_pointers stp z v =
     (case v of
        JArr vs \<Rightarrow>
          (\<forall>x \<in> set vs. fst (decode_obj stp z x),
           map (\<lambda>x. case x of JNull \<Rightarrow> None | _ \<Rightarrow> Some (snd (decode_obj stp z x))) vs)
      | JNull \<Rightarrow> (True, [])
      | _ \<Rightarrow> (False, []))"

section \<open>Log stores\<close>

record LogStore =
  ls_Name :: string
  ls_TTL :: int
  ls_ShardCount :: int
  ls_CreateTime :: u32
  ls_LastModifyTime :: u32
  ls_project :: "LogProject option"

definition zero_LogStore :: LogStore where
  "zero_LogStore = \<lparr>ls_Name = [], ls_TTL = 0, ls_ShardCount = 0, ls_CreateTime = 0, ls_LastModifyTime = 0, ls_project = None\<rparr>"

definition member_LogStore :: "LogStore member_step" where
  "member_LogStore m st =
     (let (k, v) = m in
      if key_is ''logstoreName'' k then set_str (\<lambda>x s. s\<lparr>ls_Name := x\<rparr>) v st
      else if key_is ''TTL'' k then set_int (\<lambda>x s. s\<lparr>ls_TTL := x\<rparr>) v st
      else if key_is ''ShardCount'' k then set_int (\<lambda>x s. s\<lparr>ls_ShardCount := x\<rparr>) v st
      else if key_is ''CreateTime'' k then set_u32 (\<lambda>x s. s\<lparr>ls_CreateTime := x\<rparr>) v st
      else if key_is ''LastModifyTime'' k then set_u32 (\<lambda>x s. s\<lparr>ls_LastModifyTime := x\<rparr>) v st
      else st)"

definition json_of_store :: "string \<Rightarrow> int \<Rightarrow> int \<Rightarrow> json" where
  "json_of_store name ttl shardCnt =
     JObj [(''logstoreName'', JStr name), (''ttl'', JNum (dec_int ttl)), (''shardCount'', JNum (dec_int shardCnt))]"

text \<open>The answers that hold a list of names; the counts beside it are decoded too.\<close>

type_synonym names_answer = "int \<times> int \<times> string list option"

definition set_count :: "json \<Rightarrow> bool \<times> names_answer \<Rightarrow> bool \<times> names_answer" where
  "set_count = set_int (\<lambda>x (c, t, ns). (x, t, ns))"

definition set_total :: "json \<Rightarrow> bool \<times> names_answer \<Rightarrow> bool \<times> names_answer" where
  "set_total = set_int (\<lambda>x (c, t, ns). (c, x, ns))"

definition set_names :: "json \<Rightarrow> bool \<times> names_answer \<Rightarrow> bool \<times> names_answer" where
  "set_names = set_slice (\<lambda>x (c, t, ns). (c, t, x))"

definition member_stores :: "names_answer member_step" where
  "member_stores m st =
     (let (k, v) = m in
      if key_is ''Count'' k then set_count v st
      else if key_is ''LogStores'' k then set_names v st else st)"

definition ListLogStore :: "outside \<Rightarrow> LogProject \<Rightarrow> (sls_error, string list option) res" where
  "ListLogStore w p =
     bind_result (call_plain w p ''GET'' ''/logstores'' ''failed to list logstore'') (\<lambda>buf.
     bind_result (decode member_stores (0, 0, None) buf) (\<lambda>(c, t, ns). Ok ns))"

definition GetLogStore :: "outside \<Rightarrow> LogProject \<Rightarrow> string \<Rightarrow> (sls_error, LogStore) res" where
  "GetLogStore w p name =
     bind_result (call_plain w p ''GET'' (''/logstores/'' @ name) ''failed to get logstore'') (\<lambda>buf.
     bind_result (decode member_LogStore zero_LogStore buf) (\<lambda>s. Ok (s\<lparr>ls_project := Some p\<rparr>)))"

definition CreateLogStore :: "outside \<Rightarrow> LogProject \<Rightarrow> string \<Rightarrow> int \<Rightarrow> int \<Rightarrow> (sls_error, unit) res" where
  "CreateLogStore w p name ttl shardCnt =
     call_json w p ''POST'' ''/logstores'' (json_of_store name ttl shardCnt) ''failed to create logstore''"

definition DeleteLogStore :: "outside \<Rightarrow> LogProject \<Rightarrow> string \<Rightarrow> (sls_error, unit) res" where
  "DeleteLogStore w p name =
     bind_result (call_plain w p ''DELETE'' (''/logstores/'' @ name) ''failed to delete logstore'') (\<lambda>_. Ok ())"

definition UpdateLogStore :: "outside \<Rightarrow> LogProject \<Rightarrow> string \<Rightarrow> int \<Rightarrow> int \<Rightarrow> (sls_error, unit) res" where
  "UpdateLogStore w p name ttl shardCnt =
     call_json w p ''PUT'' ''/logstores'' (json_of_store name ttl shardCnt) ''failed to update logstore''"

section \<open>Machine groups\<close>

record MachineGroupAttribute =
  ma_ExternalName :: string
  ma_TopicName :: string

record MachineGroup =
  mg_Name :: string
  mg_Type :: string
  mg_MachineIDType :: string
  mg_MachineIDList :: "string list option"
  mg_Attribute :: MachineGroupAttribute
  mg_CreateTime :: u32
  mg_LastModifyTime :: u32
  mg_project :: "LogProject option"

record Machine =
  mc_IP :: string
  mc_UniqueID :: string
  mc_UserdefinedID :: string

definition zero_MachineGroup :: MachineGroup where
  "zero_MachineGroup = \<lparr>mg_Name = [], mg_Type = [], mg_MachineIDType = [], mg_MachineIDList = None,
     mg_Attribute = \<lparr>ma_ExternalName = [], ma_TopicName = []\<rparr>, mg_CreateTime = 0, mg_LastModifyTime = 0, mg_project = None\<rparr>"

definition member_Attribute :: "MachineGroupAttribute member_step" where
  "member_Attribute m st =
     (let (k, v) = m in
      if key_is ''externalName'' k then set_str (\<lambda>x s. s\<lparr>ma_ExternalName := x\<rparr>) v st
      else if key_is ''groupTopic'' k then set_str (\<lambda>x s. s\<lparr>ma_TopicName := x\<rparr>) v st
      else st)"

definition member_MachineGroup :: "MachineGroup member_step" where
  "member_MachineGroup m st =
     (let (k, v) = m in
      if key_is ''groupName'' k then set_str (\<lambda>x s. s\<lparr>mg_Name := x\<rparr>) v st
      else if key_is ''groupType'' k then set_str (\<lambda>x s. s\<lparr>mg_Type := x\<rparr>) v st
      else if key_is ''machineIdentifyType'' k then set_str (\<lambda>x s. s\<lparr>mg_MachineIDType := x\<rparr>) v st
      else if key_is ''machineList'' k then set_slice (\<lambda>x s. s\<lparr>mg_MachineIDList := x\<rparr>) v st
      else if key_is ''groupAttribute'' k then set_struct member_Attribute mg_Attribute (\<lambda>x s. s\<lparr>mg_Attribute := x\<rparr>) v st
      else if key_is ''CreateTime'' k then set_u32 (\<lambda>x s. s\<lparr>mg_CreateTime := x\<rparr>) v st
      else if key_is ''LastModifyTime'' k then set_u32 (\<lambda>x s. s\<lparr>mg_LastModifyTime := x\<rparr>) v st
      else st)"

definition json_slice :: "string list option \<Rightarrow> json" where
  "json_slice s = (case s of None \<Rightarrow> JNull | Some xs \<Rightarrow> JArr (map JStr xs))"

definition json_u32 :: "u32 \<Rightarrow> json" where
  "json_u32 n = JNum (dec (unat n))"

definition json_of_group :: "MachineGroup \<Rightarrow> json" where
  "json_of_group m =
     JObj [(''groupName'', JStr (mg_Name m)), (''groupType'', JStr (mg_Type m)),
           (''machineIdentifyType'', JStr (mg_MachineIDType m)), (''machineList'', json_slice (mg_MachineIDList m)),
           (''groupAttribute'', JObj [(''externalName'', JStr (ma_ExternalName (mg_Attribute m))),
                                      (''groupTopic'', JStr (ma_TopicName (mg_Attribute m)))]),
           (''CreateTime'', json_u32 (mg_CreateTime m)), (''LastModifyTime'', json_u32 (mg_LastModifyTime m))]"

definition member_groups :: "names_answer member_step" where
  "member_groups m st =
     (let (k, v) = m in
      if key_is ''MachineGroups'' k then set_names v st
      else if key_is ''Count'' k then set_count v st
      else if key_is ''Total'' k then set_total v st else st)"

definition ListMachineGroup :: "outside \<Rightarrow> LogProject \<Rightarrow> int \<Rightarrow> int \<Rightarrow> (sls_error, string list option \<times> int) res" where
  "ListMachineGroup w p offset sz =
     (let sz = (if sz \<le> 0 then 500 else sz);
          uri = ''/machinegroups?offset='' @ dec_int offset @ ''&size='' @ dec_int sz
      in bind_result (call_plain w p ''GET'' uri ''failed to list machine group'') (\<lambda>buf.
         bind_result (decode member_groups (0, 0, None) buf) (\<lambda>(c, t, ns). Ok (ns, t))))"

definition GetMachineGroup :: "outside \<Rightarrow> LogProject \<Rightarrow> string \<Rightarrow> (sls_error, MachineGroup) res" where
  "GetMachineGroup w p name =
     bind_result (call_plain w p ''GET'' (''/machinegroups/'' @ name) (''failed to get machine group:'' @ name)) (\<lambda>buf.
     bind_result (decode member_MachineGroup zero_MachineGroup buf) (\<lambda>m. Ok (m\<lparr>mg_project := Some p\<rparr>)))"

definition CreateMachineGroup :: "outside \<Rightarrow> LogProject \<Rightarrow> MachineGroup \<Rightarrow> (sls_error, unit) res" where
  "CreateMachineGroup w p m =
     call_json w p ''POST'' ''/machinegroups'' (json_of_group m) ''failed to create machine group''"

definition UpdateMachineGroup :: "outside \<Rightarrow> LogProject \<Rightarrow> MachineGroup \<Rightarrow> (sls_error, unit) res" where
  "UpdateMachineGroup w p m =
     call_json w p ''PUT'' (''/machinegroups/'' @ mg_Name m) (json_of_group m) ''failed to update machine group''"

definition DeleteMachineGroup :: "outside \<Rightarrow> LogProject \<Rightarrow> string \<Rightarrow> (sls_error, unit) res" where
  "DeleteMachineGroup w p name =
     bind_result (call_plain w p ''DELETE'' (''/machinegroups/'' @ name) ''failed to delete machine group'') (\<lambda>_. Ok ())"


section \<open>Configurations\<close>

record InputDetail =
  id_LogType :: string
  id_LogPath :: string
  id_FilePattern :: string
  id_LocalStorage :: bool
  id_TimeFormat :: string
  id_LogBeginRegex :: string
  id_Regex :: string
  id_Keys :: "string list option"
  id_FilterKeys :: "string list option"
  id_FilterRegex :: "string list option"
  id_TopicFormat :: string

record OutputDetail =
  od_Endpoint :: string
  od_LogStoreName :: string

record LogConfig =
  lcf_Name :: string
  lcf_InputType :: string
  lcf_InputDetail :: InputDetail
  lcf_OutputType :: string
  lcf_OutputDetail :: OutputDetail
  lcf_CreateTime :: u32
  lcf_LastModifyTime :: u32
  lcf_project :: "LogProject option"

definition zero_InputDetail :: InputDetail where
  "zero_InputDetail = \<lparr>id_LogType = [], id_LogPath = [], id_FilePattern = [], id_LocalStorage = False, id_TimeFormat = [],
     id_LogBeginRegex = [], id_Regex = [], id_Keys = None, id_FilterKeys = None, id_FilterRegex = None, id_TopicFormat = []\<rparr>"

definition zero_LogConfig :: LogConfig where
  "zero_LogConfig = \<lparr>lcf_Name = [], lcf_InputType = [], lcf_InputDetail = zero_InputDetail, lcf_OutputType = [],
     lcf_OutputDetail = \<lparr>od_Endpoint = [], od_LogStoreName = []\<rparr>, lcf_CreateTime = 0, lcf_LastModifyTime = 0, lcf_project = None\<rparr>"

definition member_InputDetail :: "InputDetail member_step" where
  "member_InputDetail m st =
     (let (k, v) = m in
      if key_is ''logType'' k then set_str (\<lambda>x s. s\<lparr>id_LogType := x\<rparr>) v st
      else if key_is ''logPath'' k then set_str (\<lambda>x s. s\<lparr>id_LogPath := x\<rparr>) v st
      else if key_is ''filePattern'' k then set_str (\<lambda>x s. s\<lparr>id_FilePattern := x\<rparr>) v st
      else if key_is ''localStorage'' k then set_bool (\<lambda>x s. s\<lparr>id_LocalStorage := x\<rparr>) v st
      else if key_is ''timeFormat'' k then set_str (\<lambda>x s. s\<lparr>id_TimeFormat := x\<rparr>) v st
      else if key_is ''logBeginRegex'' k then set_str (\<lambda>x s. s\<lparr>id_LogBeginRegex := x\<rparr>) v st
      else if key_is ''regex'' k then set_str (\<lambda>x s. s\<lparr>id_Regex := x\<rparr>) v st
      else if key_is ''key'' k then set_slice (\<lambda>x s. s\<lparr>id_Keys := x\<rparr>) v st
      else if key_is ''filterKey'' k then set_slice (\<lambda>x s. s\<lparr>id_FilterKeys := x\<rparr>) v st
      else if key_is ''filterRegex'' k then set_slice (\<lambda>x s. s\<lparr>id_FilterRegex := x\<rparr>) v st
      else if key_is ''topicFormat'' k then set_str (\<lambda>x s. s\<lparr>id_TopicFormat := x\<rparr>) v st
      else st)"

definition member_OutputDetail :: "OutputDetail member_step" where
  "member_OutputDetail m st =
     (let (k, v) = m in
      if key_is ''endpoint'' k then set_str (\<lambda>x s. s\<lparr>od_Endpoint := x\<rparr>) v st
      else if key_is ''logstoreName'' k then set_str (\<lambda>x s. s\<lparr>od_LogStoreName := x\<rparr>) v st
      else st)"

definition member_LogConfig :: "LogConfig member_step" where
  "member_LogConfig m st =
     (let (k, v) = m in
      if key_is ''configName'' k then set_str (\<lambda>x s. s\<lparr>lcf_Name := x\<rparr>) v st
      else if key_is ''inputType'' k then set_str (\<lambda>x s. s\<lparr>lcf_InputType := x\<rparr>) v st
      else if key_is ''inputDetail'' k then set_struct member_InputDetail lcf_InputDetail (\<lambda>x s. s\<lparr>lcf_InputDetail := x\<rparr>) v st
      else if key_is ''outputType'' k then set_str (\<lambda>x s. s\<lparr>lcf_OutputType := x\<rparr>) v st
      else if key_is ''outputDetail'' k then set_struct member_OutputDetail lcf_OutputDetail (\<lambda>x s. s\<lparr>lcf_OutputDetail := x\<rparr>) v st
      else if key_is ''CreateTime'' k then set_u32 (\<lambda>x s. s\<lparr>lcf_CreateTime := x\<rparr>) v st
      else if key_is ''LastModifyTime'' k then set_u32 (\<lambda>x s. s\<lparr>lcf_LastModifyTime := x\<rparr>) v st
      else st)"

definition json_of_input :: "InputDetail \<Rightarrow> json" where
  "json_of_input d =
     JObj [(''logType'', JStr (id_LogType d)), (''logPath'', JStr (id_LogPath d)), (''filePattern'', JStr (id_FilePattern d)),
           (''localStorage'', JBool (id_LocalStorage d)), (''timeFormat'', JStr (id_TimeFormat d)),
           (''logBeginRegex'', JStr (id_LogBeginRegex d)), (''regex'', JStr (id_Regex d)), (''key'', json_slice (id_Keys d)),
           (''filterKey'', json_slice (id_FilterKeys d)), (''filterRegex'', json_slice (id_FilterRegex d)),
           (''topicFormat'', JStr (id_TopicFormat d))]"

definition json_of_config :: "LogConfig \<Rightarrow> json" where
  "json_of_config c =
     JObj [(''configName'', JStr (lcf_Name c)), (''inputType'', JStr (lcf_InputType c)),
           (''inputDetail'', json_of_input (lcf_InputDetail c)), (''outputType'', JStr (lcf_OutputType c)),
           (''outputDetail'', JObj [(''endpoint'', JStr (od_Endpoint (lcf_OutputDetail c))),
                                    (''logstoreName'', JStr (od_LogStoreName (lcf_OutputDetail c)))]),
           (''CreateTime'', json_u32 (lcf_CreateTime c)), (''LastModifyTime'', json_u32 (lcf_LastModifyTime c))]"

definition member_configs :: "names_answer member_step" where
  "member_configs m st =
     (let (k, v) = m in
      if key_is ''Total'' k then set_total v st
      else if key_is ''Configs'' k then set_names v st else st)"

definition ListConfig :: "outside \<Rightarrow> LogProject \<Rightarrow> int \<Rightarrow> int \<Rightarrow> (sls_error, string list option \<times> int) res" where
  "ListConfig w p offset sz =
     (let sz = (if sz \<le> 0 then 100 else sz);
          uri = ''/configs?offset='' @ dec_int offset @ ''&size='' @ dec_int sz
      in bind_result (call_plain w p ''GET'' uri ''failed to delete machine group'') (\<lambda>buf.
         bind_result (decode member_configs (0, 0, None) buf) (\<lambda>(c, t, ns). Ok (ns, t))))"

definition GetConfig :: "outside \<Rightarrow> LogProject \<Rightarrow> string \<Rightarrow> (sls_error, LogConfig) res" where
  "GetConfig w p name =
     bind_result (call_plain w p ''GET'' (''/configs/'' @ name) ''failed to delete config'') (\<lambda>buf.
     bind_result (decode member_LogConfig zero_LogConfig buf) (\<lambda>c. Ok (c\<lparr>lcf_project := Some p\<rparr>)))"

definition UpdateConfig :: "outside \<Rightarrow> LogProject \<Rightarrow> LogConfig \<Rightarrow> (sls_error, unit) res" where
  "UpdateConfig w p c =
     call_json w p ''PUT'' (''/configs/'' @ lcf_Name c) (json_of_config c) ''failed to update config''"

definition CreateConfig :: "outside \<Rightarrow> LogProject \<Rightarrow> LogConfig \<Rightarrow> (sls_error, unit) res" where
  "CreateConfig w p c = call_json w p ''POST'' ''/configs'' (json_of_config c) ''failed to update config''"

definition DeleteConfig :: "outside \<Rightarrow> LogProject \<Rightarrow> string \<Rightarrow> (sls_error, unit) res" where
  "DeleteConfig w p name =
     bind_result (call_plain w p ''DELETE'' (''/configs/'' @ name) ''failed to delete config'') (\<lambda>_. Ok ())"

text \<open>Which configurations apply to which groups.\<close>

definition member_applied_groups :: "names_answer member_step" where
  "member_applied_groups m st =
     (let (k, v) = m in
      if key_is ''Count'' k then set_count v st
      else if key_is ''Machinegroups'' k then set_names v st else st)"

definition GetAppliedMachineGroups :: "outside \<Rightarrow> LogProject \<Rightarrow> string \<Rightarrow> (sls_error, string list option) res" where
  "GetAppliedMachineGroups w p confName =
     bind_result (call_plain w p ''GET'' (''/configs/'' @ confName @ ''/machinegroups'') ''failed to get applied machine groups'') (\<lambda>buf.
     bind_result (decode member_applied_groups (0, 0, None) buf) (\<lambda>(c, t, ns). Ok ns))"

definition member_applied_configs :: "names_answer member_step" where
  "member_applied_configs m st =
     (let (k, v) = m in
      if key_is ''count'' k then set_count v st
      else if key_is ''configs'' k then set_names v st else st)"

definition GetAppliedConfigs :: "outside \<Rightarrow> LogProject \<Rightarrow> string \<Rightarrow> (sls_error, string list option) res" where
  "GetAppliedConfigs w p groupName =
     bind_result (call_plain w p ''GET'' (''/machinegroups/'' @ groupName @ ''/configs'') ''failed to applied configs'') (\<lambda>buf.
     bind_result (decode member_applied_configs (0, 0, None) buf) (\<lambda>(c, t, ns). Ok ns))"

definition ApplyConfigToMachineGroup :: "outside \<Rightarrow> LogProject \<Rightarrow> string \<Rightarrow> string \<Rightarrow> (sls_error, unit) res" where
  "ApplyConfigToMachineGroup w p confName groupName =
     bind_result (call_plain w p ''PUT'' (''/machinegroups/'' @ groupName @ ''/configs/'' @ confName)
       ''failed to apply config to machine group'') (\<lambda>_. Ok ())"

definition RemoveConfigFromMachineGroup :: "outside \<Rightarrow> LogProject \<Rightarrow> string \<Rightarrow> string \<Rightarrow> (sls_error, unit) res" where
  "RemoveConfigFromMachineGroup w p confName groupName =
     bind_result (call_plain w p ''DELETE'' (''/machinegroups/'' @ groupName @ ''/configs/'' @ confName)
       ''failed to remove config from machine group'') (\<lambda>_. Ok ())"

text \<open>Methods of a group and of a configuration; without a project they panic.\<close>

definition member_Machine :: "Machine member_step" where
  "member_Machine m st =
     (let (k, v) = m in
      if key_is ''IP'' k then set_str (\<lambda>x s. s\<lparr>mc_IP := x\<rparr>) v st
      else if key_is ''machine-uniqueid'' k then set_str (\<lambda>x s. s\<lparr>mc_UniqueID := x\<rparr>) v st
      else if key_is ''userdefined-id'' k then set_str (\<lambda>x s. s\<lparr>mc_UserdefinedID := x\<rparr>) v st
      else st)"

definition member_MachineList :: "(int \<times> Machine option list) member_step" where
  "member_MachineList m st =
     (let (k, v) = m in
      if key_is ''Total'' k then set_int (\<lambda>x (t, ms). (x, ms)) v st
      else if key_is ''Machines'' k then
        (case decode_pointers member_Machine \<lparr>mc_IP = [], mc_UniqueID = [], mc_UserdefinedID = []\<rparr> v of
           (ok, ms) \<Rightarrow> (fst st \<and> ok, (fst (snd st), if (case v of JArr vs \<Rightarrow> True | JNull \<Rightarrow> True | _ \<Rightarrow> False) then ms else snd (snd st))))
      else st)"

definition ListMachines :: "outside \<Rightarrow> MachineGroup \<Rightarrow> (sls_error, Machine option list \<times> int) res" where
  "ListMachines w m =
     (case mg_project m of
        None \<Rightarrow> Panic
      | Some p \<Rightarrow>
          bind_result (call_plain w p ''GET'' (''/machinegroups/'' @ mg_Name m @ ''/machines'')
            ''failed to remove config from machine group'') (\<lambda>buf.
          bind_result (decode member_MachineList (0, []) buf) (\<lambda>(total, ms). Ok (ms, total))))"

definition group_GetAppliedConfigs :: "outside \<Rightarrow> MachineGroup \<Rightarrow> (sls_error, string list option) res" where
  "group_GetAppliedConfigs w m =
     (case mg_project m of None \<Rightarrow> Panic | Some p \<Rightarrow> GetAppliedConfigs w p (mg_Name m))"

definition GetAppliedMachineGroup :: "outside \<Rightarrow> LogConfig \<Rightarrow> string \<Rightarrow> (sls_error, string list option) res" where
  "GetAppliedMachineGroup w c confName =
     (case lcf_project c of None \<Rightarrow> Panic | Some p \<Rightarrow> GetAppliedMachineGroups w p (lcf_Name c))"

section \<open>Logs of a store\<close>

text \<open>The protobuf package and the compression: how long a text becomes is not known to the code.\<close>

record logs_outside = outside +
  out_Marshal :: "LogGroup \<Rightarrow> byte list result"
  out_Unmarshal :: "byte list \<Rightarrow> LogGroupList result"
  out_Compress :: "byte list \<Rightarrow> byte list option"
  out_Uncompress :: "byte list \<Rightarrow> nat \<Rightarrow> byte list option"

primrec proto_result :: "'a result \<Rightarrow> (sls_error, 'a) res" where
  "proto_result (Ok x) = Ok x"
| "proto_result (Err e) = Err (ProtoError e)"
| "proto_result Panic = Panic"
| "proto_result Diverges = Diverges"

definition with_project :: "LogStore \<Rightarrow> (LogProject \<Rightarrow> (sls_error, 'a) res) \<Rightarrow> (sls_error, 'a) res" where
  "with_project s f = (case ls_project s of None \<Rightarrow> Panic | Some p \<Rightarrow> f p)"

definition member_Shard :: "int member_step" where
  "member_Shard m st = (let (k, v) = m in if key_is ''shardID'' k then set_int (\<lambda>x _. x) v st else st)"

text \<open>The loop over the shards reads a field of each pointer.\<close>

primrec shard_ids :: "int option list \<Rightarrow> (sls_error, int list) res" where
  "shard_ids [] = Ok []"
| "shard_ids (v # vs) = (case v of None \<Rightarrow> Panic | Some i \<Rightarrow> bind_result (shard_ids vs) (\<lambda>is. Ok (i # is)))"

definition ListShards :: "outside \<Rightarrow> LogStore \<Rightarrow> (sls_error, int list) res" where
  "ListShards w s =
     with_project s (\<lambda>p.
       bind_result (call_plain w p ''GET'' (''/logstores/'' @ ls_Name s @ ''/shards'') ''failed to list logstore'') (\<lambda>buf.
         case json_parse (string_of buf) of
           None \<Rightarrow> Err (JsonError SyntaxError)
         | Some v \<Rightarrow>
             (case decode_pointers member_Shard 0 v of
                (ok, shards) \<Rightarrow>
                  if ok \<and> (case v of JArr vs \<Rightarrow> True | JNull \<Rightarrow> True | _ \<Rightarrow> False) then shard_ids shards
                  else Err (JsonError TypeError))))"

definition lz4_body :: "nat \<Rightarrow> headers" where
  "lz4_body n =
     [''x-sls-compresstype'' \<mapsto> ''lz4'', ''x-sls-bodyrawsize'' \<mapsto> dec n, ''Content-Type'' \<mapsto> ''application/x-protobuf'']"

definition PutLogs :: "logs_outside \<Rightarrow> LogStore \<Rightarrow> LogGroup \<Rightarrow> (sls_error, unit) res" where
  "PutLogs w s lg =
     bind_result (proto_result (out_Marshal w lg)) (\<lambda>body.
       case out_Compress w body of
         None \<Rightarrow> Err Lz4Error
       | Some out \<Rightarrow> with_project s (\<lambda>p.
           bind_result (reply (outside.truncate w) p ''POST'' (''/logstores/'' @ ls_Name s) (lz4_body (length body)) (Some out)
             ''failed to put logs'') (\<lambda>_. Ok ())))"

definition member_cursor :: "string member_step" where
  "member_cursor m st = (let (k, v) = m in if key_is ''Cursor'' k then set_str (\<lambda>x _. x) v st else st)"

definition GetCursor :: "outside \<Rightarrow> LogStore \<Rightarrow> int \<Rightarrow> string \<Rightarrow> (sls_error, string) res" where
  "GetCursor w s shardID from_time =
     with_project s (\<lambda>p.
       bind_result (call_plain w p ''GET''
         (''/logstores/'' @ ls_Name s @ ''/shards/'' @ dec_int shardID @ ''?type=cursor&from='' @ from_time) ''failed to get cursor'')
         (decode member_cursor []))"

definition logs_wanted :: headers where
  "logs_wanted = [''x-sls-bodyrawsize'' \<mapsto> ''0'', ''Accept'' \<mapsto> ''application/x-protobuf'', ''Accept-Encoding'' \<mapsto> ''lz4'']"

definition first_header :: "(string \<rightharpoonup> string list) \<Rightarrow> string \<Rightarrow> string option" where
  "first_header hs k = (case hs k of Some (v # vs) \<Rightarrow> Some v | _ \<Rightarrow> None)"

text \<open>
  \<open>make([]byte, n)\<close> panics for a negative number and for one beyond the address space.
\<close>

definition make_bytes :: "int \<Rightarrow> (sls_error, nat) res" where
  "make_bytes n = (if n < 0 \<or> 2 ^ 48 < n then Panic else Ok (nat n))"

definition GetLogsBytes :: "logs_outside \<Rightarrow> LogStore \<Rightarrow> int \<Rightarrow> string \<Rightarrow> int \<Rightarrow> (sls_error, byte list \<times> string) res" where
  "GetLogsBytes w s shardID cursor logGroupMaxCount =
     with_project s (\<lambda>p.
       bind_result (reply (outside.truncate w) p ''GET''
         (''/logstores/'' @ ls_Name s @ ''/shards/'' @ dec_int shardID @ ''?type=logs&cursor='' @ cursor @ ''&count='' @ dec_int logGroupMaxCount)
         logs_wanted None ''failed to get cursor'') (\<lambda>(hs, buf).
       case first_header hs ''X-Sls-Compresstype'' of
         None \<Rightarrow> Err (ErrorText ''can't find 'x-sls-compresstype' header'')
       | Some ct \<Rightarrow>
           if ct \<noteq> ''lz4'' then Err (ErrorText (''unexpected compress type:'' @ ct))
           else
             (case first_header hs ''X-Sls-Cursor'' of
                None \<Rightarrow> Err (ErrorText ''can't find 'x-sls-cursor' header'')
              | Some nextCursor \<Rightarrow>
                  (case first_header hs ''X-Sls-Bodyrawsize'' of
                     None \<Rightarrow> Err (ErrorText ''can't find 'x-sls-bodyrawsize' header'')
                   | Some size_text \<Rightarrow>
                       (case parse_int size_text of
                          None \<Rightarrow> Err NotANumber
                        | Some n \<Rightarrow> bind_result (make_bytes n) (\<lambda>n.
                            case out_Uncompress w buf n of
                              None \<Rightarrow> Err Lz4Error
                            | Some out \<Rightarrow> Ok (out, nextCursor)))))))"

definition LogsBytesDecode :: "logs_outside \<Rightarrow> byte list \<Rightarrow> (sls_error, LogGroupList) res" where
  "LogsBytesDecode w data = proto_result (out_Unmarshal w data)"

definition GetLogs :: "logs_outside \<Rightarrow> LogStore \<Rightarrow> int \<Rightarrow> string \<Rightarrow> int \<Rightarrow> (sls_error, LogGroupList \<times> string) res" where
  "GetLogs w s shardID cursor logGroupMaxCount =
     bind_result (GetLogsBytes w s shardID cursor logGroupMaxCount) (\<lambda>(out, nextCursor).
     bind_result (LogsBytesDecode w out) (\<lambda>gl. Ok (gl, nextCursor)))"


section \<open>When an operation succeeds\<close>

lemma reply_Ok:
  "reply w p method uri h body failed = Ok (hs, buf) \<longleftrightarrow>
    (\<exists>r. new_request w p method uri h body = Ok r \<and> out_http w r = Answer 200 hs (Some buf))"
proof (cases "new_request w p method uri h body")
  case (Ok r)
  then show ?thesis
    by (cases "out_http w r") (auto simp: reply_def request_def split: option.split sum.split)
qed (simp_all add: reply_def request_def)

lemma reply_Ok_I:
  "new_request w p method uri h body = Ok r \<Longrightarrow> out_http w r = Answer 200 hs (Some buf)
    \<Longrightarrow> reply w p method uri h body failed = Ok (hs, buf)"
  using reply_Ok by blast

text \<open>A \<open>GET\<close> that the service answers with \<open>body\<close>.\<close>

definition answers_get :: "outside \<Rightarrow> LogProject \<Rightarrow> string \<Rightarrow> byte list \<Rightarrow> bool" where
  "answers_get w p uri body \<longleftrightarrow>
     (\<exists>r hs. new_request w p ''GET'' uri no_body None = Ok r \<and> out_http w r = Answer 200 hs (Some body))"

lemma answers_get_call: "answers_get w p uri body \<Longrightarrow> call_plain w p ''GET'' uri failed = Ok body"
  unfolding answers_get_def call_plain_def by (auto simp: reply_Ok_I)

section \<open>What is created is got\<close>

lemma ints_only_json [simp]: "ints_only (json_u32 n)" "ints_only (json_slice s)"
proof -
  show "ints_only (json_u32 n)"
    by (auto simp: json_u32_def dec_int_def intro!: exI [of _ "int (unat n)"])
  show "ints_only (json_slice s)" by (auto simp: json_slice_def split: option.split)
qed

lemma set_u32_json [simp]: "set_u32 upd (json_u32 n) (ok, r) = (ok, upd n r)"
proof -
  have "unat n < 2 ^ 32" using unsigned_less [of n, where 'a = nat] by simp
  moreover have "list_all is_digit (dec (unat n))" using dec_digits by (auto simp: list_all_iff)
  ultimately show ?thesis by (simp add: set_u32_def json_u32_def)
qed

lemma set_slice_json [simp]: "set_slice upd (json_slice s) (ok, r) = (ok, upd s r)"
  by (auto simp: set_slice_def json_slice_def comp_def split: option.split)

lemma set_str_json [simp]: "set_str upd (JStr x) (ok, r) = (ok, upd x r)"
  by (simp add: set_str_def)

lemma set_bool_json [simp]: "set_bool upd (JBool b) (ok, r) = (ok, upd b r)"
  by (simp add: set_bool_def)

lemma set_int_json [simp]:
  "- (2 ^ 63) \<le> i \<Longrightarrow> i < 2 ^ 63 \<Longrightarrow> set_int upd (JNum (dec_int i)) (ok, r) = (ok, upd i r)"
  by (simp add: set_int_def parse_int_dec_int)

lemma decode_store:
  assumes "- (2 ^ 63) \<le> ttl" "ttl < 2 ^ 63" "- (2 ^ 63) \<le> n" "n < 2 ^ 63"
  shows "decode_obj member_LogStore zero_LogStore (json_of_store name ttl n)
    = (True, zero_LogStore\<lparr>ls_Name := name, ls_TTL := ttl, ls_ShardCount := n\<rparr>)"
  using assms by (simp add: decode_obj_def json_of_store_def member_LogStore_def key_is_def lower_def char_of_def bit_Suc_0_iff)

lemma decode_Attribute:
  "decode_obj member_Attribute z (JObj [(''externalName'', JStr a), (''groupTopic'', JStr b)])
    = (True, z\<lparr>ma_ExternalName := a, ma_TopicName := b\<rparr>)"
  by (simp add: decode_obj_def member_Attribute_def key_is_def lower_def)

lemma decode_group:
  "decode_obj member_MachineGroup zero_MachineGroup (json_of_group m) = (True, m\<lparr>mg_project := None\<rparr>)"
  by (cases m; cases "mg_Attribute m")
     (simp add: decode_obj_def [of member_MachineGroup] json_of_group_def member_MachineGroup_def key_is_def lower_def
        set_struct_def decode_Attribute zero_MachineGroup_def)

lemma decode_input: "decode_obj member_InputDetail zero_InputDetail (json_of_input d) = (True, d)"
  by (cases d) (simp add: decode_obj_def json_of_input_def member_InputDetail_def key_is_def lower_def zero_InputDetail_def)

lemma decode_output:
  "decode_obj member_OutputDetail z (JObj [(''endpoint'', JStr a), (''logstoreName'', JStr b)])
    = (True, z\<lparr>od_Endpoint := a, od_LogStoreName := b\<rparr>)"
  by (simp add: decode_obj_def member_OutputDetail_def key_is_def lower_def)

lemma decode_config:
  "decode_obj member_LogConfig zero_LogConfig (json_of_config c) = (True, c\<lparr>lcf_project := None\<rparr>)"
  by (cases c; cases "lcf_OutputDetail c")
     (simp add: decode_obj_def [of member_LogConfig] json_of_config_def member_LogConfig_def key_is_def lower_def
        set_struct_def decode_input decode_output zero_LogConfig_def)

text \<open>
  What a call creates, the call that gets it back returns, if the service answers with
  the object as it was sent: a log store with its name, its days and shards, a machine
  group and a configuration with every field, nested ones and slices that are \<open>nil\<close> included.
\<close>

theorem created_is_got:
  assumes "answers_get w p (''/logstores/'' @ name) (bytes_of (json_print (json_of_store name ttl n)))"
    and "- (2 ^ 63) \<le> ttl" "ttl < 2 ^ 63" "- (2 ^ 63) \<le> n" "n < 2 ^ 63"
    and "answers_get w p (''/machinegroups/'' @ mg_Name m) (bytes_of (json_print (json_of_group m)))"
    and "answers_get w p (''/configs/'' @ lcf_Name c) (bytes_of (json_print (json_of_config c)))"
  shows "GetLogStore w p name = Ok (zero_LogStore\<lparr>ls_Name := name, ls_TTL := ttl, ls_ShardCount := n, ls_project := Some p\<rparr>)
    \<and> GetMachineGroup w p (mg_Name m) = Ok (m\<lparr>mg_project := Some p\<rparr>)
    \<and> GetConfig w p (lcf_Name c) = Ok (c\<lparr>lcf_project := Some p\<rparr>)"
proof -
  have ints: "ints_only (json_of_store name ttl n)" "ints_only (json_of_group m)" "ints_only (json_of_config c)"
    by (auto simp: json_of_store_def json_of_group_def json_of_config_def json_of_input_def)
  note d = unmarshal_print_ints [OF ints(1) decode_store [OF assms(2-5)]]
    unmarshal_print_ints [OF ints(2) decode_group] unmarshal_print_ints [OF ints(3) decode_config]
  show ?thesis
    using answers_get_call [OF assms(1)] answers_get_call [OF assms(6)] answers_get_call [OF assms(7)]
    by (simp add: GetLogStore_def GetMachineGroup_def GetConfig_def decode_def d)
qed

text \<open>A service that knows one answer for each path, and keys visited in their order.\<close>

definition sample_outside :: "(string \<rightharpoonup> byte list) \<Rightarrow> outside" where
  "sample_outside service = \<lparr>out_date = ''now'', out_hmac_sha1 = (\<lambda>k s. [1, 2, 3]), out_md5 = (\<lambda>b. []),
     out_visit = (\<lambda>h. sorted_list_of_set (dom h)),
     out_http = (\<lambda>r. case service (rq_url r) of None \<Rightarrow> NoAnswer | Some b \<Rightarrow> Answer 200 Map.empty (Some b))\<rparr>"

definition sample_project :: LogProject where
  "sample_project = NewLogProject ''p'' ''e'' ''id'' ''secret''"

lemma sample_GET:
  assumes "canoResource uri = Some res" and "service (''http://p.e'' @ uri) = Some body"
  shows "answers_get (sample_outside service) sample_project uri body"
proof -
  have "public_headers w p no_body ''Date'' = Some (out_date w)" for w p by (simp add: public_headers_def)
  then have "\<exists>s. signature (sample_outside service) sample_project ''GET'' uri (public_headers (sample_outside service) sample_project no_body) = Ok s"
    using assms(1) by (simp add: signature_def signStr_def)
  then obtain r where r: "new_request (sample_outside service) sample_project ''GET'' uri no_body None = Ok r" "rq_url r = ''http://p.e'' @ uri"
    by (auto simp: new_request_def Let_def bind_result_Ok no_body_def sample_project_def NewLogProject_def)
  then show ?thesis using assms(2) unfolding answers_get_def by (auto simp: sample_outside_def)
qed

definition sample_group :: MachineGroup where
  "sample_group = zero_MachineGroup\<lparr>mg_Name := ''g'', mg_MachineIDList := Some [''a'', ''b''], mg_CreateTime := 7\<rparr>"

definition sample_config :: LogConfig where
  "sample_config = zero_LogConfig\<lparr>lcf_Name := ''c'', lcf_InputDetail := zero_InputDetail\<lparr>id_Keys := Some []\<rparr>\<rparr>"

definition sample_service :: "string \<rightharpoonup> byte list" where
  "sample_service =
     [''http://p.e/logstores/s'' \<mapsto> bytes_of (json_print (json_of_store ''s'' 30 (- 2))),
      ''http://p.e/machinegroups/g'' \<mapsto> bytes_of (json_print (json_of_group sample_group)),
      ''http://p.e/configs/c'' \<mapsto> bytes_of (json_print (json_of_config sample_config))]"

lemma sample_paths:
  "canoResource ''/logstores/s'' \<noteq> None" "canoResource ''/machinegroups/g'' \<noteq> None" "canoResource ''/configs/c'' \<noteq> None"
  by (simp_all add: canoResource_def url_Parse_def cut_or_all_def)

theorem created_is_got_witness:
  "GetMachineGroup (sample_outside sample_service) sample_project ''g'' = Ok (sample_group\<lparr>mg_project := Some sample_project\<rparr>)"
proof -
  have a: "answers_get (sample_outside sample_service) sample_project (''/logstores/'' @ ''s'') (bytes_of (json_print (json_of_store ''s'' 30 (- 2))))"
    "answers_get (sample_outside sample_service) sample_project (''/machinegroups/'' @ mg_Name sample_group) (bytes_of (json_print (json_of_group sample_group)))"
    "answers_get (sample_outside sample_service) sample_project (''/configs/'' @ lcf_Name sample_config) (bytes_of (json_print (json_of_config sample_config)))"
    using sample_paths
    by (auto intro!: sample_GET simp: sample_service_def sample_group_def sample_config_def)
  from created_is_got [OF a(1) _ _ _ _ a(2,3)] show ?thesis by (simp add: sample_group_def)
qed

section \<open>Putting and getting logs\<close>

text \<open>The documented behaviour of the protobuf package and of the compression.\<close>

definition codecs_ok :: "logs_outside \<Rightarrow> bool" where
  "codecs_ok w \<longleftrightarrow> out_Marshal w = LogGroup_Marshal \<and> out_Unmarshal w = LogGroupList_Unmarshal zero_LogGroupList
     \<and> (\<forall>b z. out_Compress w b = Some z \<longrightarrow> out_Uncompress w z (length b) = Some b)"


lemma PutLogs_request:
  assumes "out_Marshal w lg = Ok body" and "out_Compress w body = Some z" and "ls_project s = Some p"
  shows "PutLogs w s lg = Ok () \<longleftrightarrow>
    (\<exists>r hs buf. new_request (outside.truncate w) p ''POST'' (''/logstores/'' @ ls_Name s) (lz4_body (length body)) (Some z) = Ok r
      \<and> out_http w r = Answer 200 hs (Some buf))"
  using assms by (auto simp: PutLogs_def with_project_def bind_result_Ok reply_Ok outside.truncate_def)


definition sample_logs_outside :: "(http_request \<Rightarrow> http_answer) \<Rightarrow> logs_outside" where
  "sample_logs_outside http = \<lparr>out_date = ''now'', out_hmac_sha1 = (\<lambda>k s. [1, 2, 3]), out_md5 = (\<lambda>b. []),
     out_visit = (\<lambda>h. sorted_list_of_set (dom h)), out_http = http, out_Marshal = LogGroup_Marshal,
     out_Unmarshal = LogGroupList_Unmarshal zero_LogGroupList, out_Compress = Some, out_Uncompress = (\<lambda>z n. Some z)\<rparr>"

definition sample_store :: LogStore where
  "sample_store = zero_LogStore\<lparr>ls_Name := ''s'', ls_project := Some sample_project\<rparr>"

text \<open>A service that takes everything that is put, and answers every other request with the sample list.\<close>

definition sample_http :: "http_request \<Rightarrow> http_answer" where
  "sample_http r =
     (if rq_method r = ''POST'' then Answer 200 Map.empty (Some [])
      else Answer 200 [''X-Sls-Compresstype'' \<mapsto> [''lz4''], ''X-Sls-Cursor'' \<mapsto> [''c1''],
        ''X-Sls-Bodyrawsize'' \<mapsto> [dec (length (enc_LogGroupList sample_list))]] (Some (enc_LogGroupList sample_list)))"



lemma shard_ids_nil: "None \<in> set vs \<Longrightarrow> shard_ids vs = Panic"
proof (induction vs)
  case (Cons v vs)
  then show ?case by (cases v) auto
qed simp

definition shard_object :: "json \<Rightarrow> bool" where
  "shard_object v \<longleftrightarrow> v = JNull \<or> (\<exists>i. v = JObj [(''shardID'', JNum (dec_int i))] \<and> - (2 ^ 63) \<le> i \<and> i < 2 ^ 63)"

lemma shards_with_null:
  assumes "\<forall>v \<in> set vs. shard_object v" and "JNull \<in> set vs"
    and "ls_project s = Some p" and "answers_get w p (''/logstores/'' @ ls_Name s @ ''/shards'') (bytes_of (json_print (JArr vs)))"
  shows "ListShards w s = Panic"
proof -
  have "ints_only v" if "v \<in> set vs" for v
    using bspec [OF assms(1) that] by (auto simp: shard_object_def)
  then have "ints_only (JArr vs)" by simp
  then have parse: "json_parse (string_of (bytes_of (json_print (JArr vs)))) = Some (JArr vs)"
    by (simp add: json_parse_print_ints del: json_print.simps)
  have "fst (decode_obj member_Shard 0 v)" if "v \<in> set vs" for v
    using bspec [OF assms(1) that] by (auto simp: shard_object_def decode_obj_def member_Shard_def key_is_def)
  then have d: "decode_pointers member_Shard 0 (JArr vs)
      = (True, map (\<lambda>x. case x of JNull \<Rightarrow> None | _ \<Rightarrow> Some (snd (decode_obj member_Shard 0 x))) vs)"
    by (simp add: decode_pointers_def)
  have "None \<in> set (map (\<lambda>x. case x of JNull \<Rightarrow> None | _ \<Rightarrow> Some (snd (decode_obj member_Shard 0 x))) vs)"
    using assms(2) by (force simp: image_iff)
  from shard_ids_nil [OF this] show ?thesis
    unfolding ListShards_def with_project_def assms(3) option.case answers_get_call [OF assms(4)] bind_result.simps parse d prod.case
    by simp
qed

text \<open>
  C39. Answers of the service that end the program: a raw size below zero, a list of logs
  followed by a length of \<open>2 ^ 63 - 1\<close>, and \<open>null\<close> among the shards. None of them is
  turned into an error.
\<close>

theorem hostile_answers:
  assumes "ls_project s = Some p"
    and "reply (outside.truncate w) p ''GET'' (''/logstores/'' @ ls_Name s @ ''/shards/'' @ dec_int shard
      @ ''?type=logs&cursor='' @ cursor @ ''&count='' @ dec_int count) logs_wanted None ''failed to get cursor'' = Ok (hs, buf)"
    and "first_header hs ''X-Sls-Compresstype'' = Some ''lz4''" and "first_header hs ''X-Sls-Cursor'' = Some next"
    and "first_header hs ''X-Sls-Bodyrawsize'' = Some (dec_int n)" and "- (2 ^ 63) \<le> n" and "n < 2 ^ 48"
    and "n < 0 \<or> codecs_ok w \<and> out_Uncompress w buf (nat n) = Some (bs @ 0x0A # huge_length @ rest)
      \<and> set_LogGroupList gl \<and> plain_LogGroupList gl \<and> LogGroupList_Marshal gl = Ok bs \<and> length bs + length rest + 10 < 2 ^ 62"
    and "answers_get (outside.truncate w) p (''/logstores/'' @ ls_Name s @ ''/shards'') (bytes_of (json_print (JArr vs)))"
    and "\<forall>v \<in> set vs. shard_object v" and "JNull \<in> set vs"
  shows "GetLogs w s shard cursor count = Panic \<and> ListShards (outside.truncate w) s = Panic"
proof
  have n: "parse_int (dec_int n) = Some n" using assms(6,7) by (intro parse_int_dec_int) simp_all
  have bytes: "GetLogsBytes w s shard cursor count = bind_result (make_bytes n) (\<lambda>n.
      case out_Uncompress w buf n of None \<Rightarrow> Err Lz4Error | Some out \<Rightarrow> Ok (out, next))"
    unfolding GetLogsBytes_def with_project_def assms(1) option.case assms(2) bind_result.simps prod.case assms(3-5) n by simp
  show "GetLogs w s shard cursor count = Panic"
  proof (cases "n < 0")
    case True
    then show ?thesis by (simp add: GetLogs_def bytes make_bytes_def)
  next
    case False
    with assms(8) have c: "codecs_ok w" "out_Uncompress w buf (nat n) = Some (bs @ 0x0A # huge_length @ rest)"
      and l: "LogGroupList_Unmarshal zero_LogGroupList (bs @ 0x0A # huge_length @ rest) = Panic"
      using huge_length_panics [of gl bs rest] by auto
    with False assms(7) show ?thesis
      by (simp add: GetLogs_def bytes make_bytes_def LogsBytesDecode_def codecs_ok_def)
  qed
  show "ListShards (outside.truncate w) s = Panic"
    by (rule shards_with_null [OF assms(10,11,1,9)])
qed

text \<open>A service with a list of one shard and \<open>null\<close>, and logs of ten bytes.\<close>

definition hostile_http :: "http_request \<Rightarrow> http_answer" where
  "hostile_http r =
     (if rq_url r = ''http://p.e/logstores/s/shards''
      then Answer 200 Map.empty (Some (bytes_of (json_print (JArr [JObj [(''shardID'', JNum (dec_int 1))], JNull]))))
      else Answer 200 [''X-Sls-Compresstype'' \<mapsto> [''lz4''], ''X-Sls-Cursor'' \<mapsto> [''c1''], ''X-Sls-Bodyrawsize'' \<mapsto> [dec_int 10]]
        (Some (0x0A # huge_length)))"

lemma new_request_url: "new_request w p method uri h body = Ok r \<Longrightarrow> rq_url r = ''http://'' @ lp_Name p @ ''.'' @ lp_Endpoint p @ uri"
  by (auto simp: new_request_def Let_def bind_result_Ok split: if_splits)

theorem hostile_answers_witness:
  "GetLogs (sample_logs_outside hostile_http) sample_store 0 ''c0'' 5 = Panic"
proof -
  let ?w = "sample_logs_outside hostile_http"
  have w: "codecs_ok ?w" by (simp add: codecs_ok_def sample_logs_outside_def)
  have p: "ls_project sample_store = Some sample_project" "ls_Name sample_store = ''s''" by (simp_all add: sample_store_def)
  have h: "out_http (outside.truncate ?w) = hostile_http" by (simp add: sample_logs_outside_def outside.truncate_def)
  have url: "''http://'' @ lp_Name sample_project @ ''.'' @ lp_Endpoint sample_project @ u = ''http://p.e'' @ u" for u
    by (simp add: sample_project_def NewLogProject_def)
  let ?uri = "''/logstores/'' @ ls_Name sample_store @ ''/shards/'' @ dec_int 0 @ ''?type=logs&cursor='' @ ''c0'' @ ''&count='' @ dec_int 5"
  let ?uri2 = "''/logstores/'' @ ls_Name sample_store @ ''/shards''"
  have c: "canoResource ?uri \<noteq> None" "canoResource ?uri2 \<noteq> None"
    by (simp_all add: p(2) canoResource_def url_Parse_def cut_or_all_def dec_int_def dec.simps digit_table)
  obtain r where r: "new_request (outside.truncate ?w) sample_project ''GET'' ?uri logs_wanted None = Ok r"
    using c(1) new_request_exists [of logs_wanted None ?uri] by (fastforce simp: logs_wanted_def)
  obtain r2 where r2: "new_request (outside.truncate ?w) sample_project ''GET'' ?uri2 no_body None = Ok r2"
    using c(2) new_request_exists [of no_body None ?uri2] by (fastforce simp: no_body_def)
  have a: "hostile_http r = Answer 200 [''X-Sls-Compresstype'' \<mapsto> [''lz4''], ''X-Sls-Cursor'' \<mapsto> [''c1''], ''X-Sls-Bodyrawsize'' \<mapsto> [dec_int 10]]
        (Some (0x0A # huge_length))"
    unfolding hostile_http_def new_request_url [OF r] url by (simp add: p(2))
  have a2: "hostile_http r2 = Answer 200 Map.empty (Some (bytes_of (json_print (JArr [JObj [(''shardID'', JNum (dec_int 1))], JNull]))))"
    unfolding hostile_http_def new_request_url [OF r2] url by (simp add: p(2))
  have reply: "reply (outside.truncate ?w) sample_project ''GET'' ?uri logs_wanted None ''failed to get cursor''
      = Ok ([''X-Sls-Compresstype'' \<mapsto> [''lz4''], ''X-Sls-Cursor'' \<mapsto> [''c1''], ''X-Sls-Bodyrawsize'' \<mapsto> [dec_int 10]], 0x0A # huge_length)"
    using r a h by (intro reply_Ok_I) simp_all
  have ans: "answers_get (outside.truncate ?w) sample_project ?uri2 (bytes_of (json_print (JArr [JObj [(''shardID'', JNum (dec_int 1))], JNull])))"
    unfolding answers_get_def h using r2 a2 by blast
  have empty: "LogGroupList_Marshal zero_LogGroupList = Ok []" "set_LogGroupList zero_LogGroupList" "plain_LogGroupList zero_LogGroupList"
    by (simp_all add: LogGroupList_Marshal_def marshal_with_def LogGroupList_MarshalTo_def zero_LogGroupList_def copy_bytes_def
        LogGroupList_Size_def set_LogGroupList_def plain_LogGroupList_def del: LogGroupList_Size_enc)
  have bad: "(10 :: int) < 0 \<or> codecs_ok ?w \<and> out_Uncompress ?w (0x0A # huge_length) (nat 10) = Some ([] @ 0x0A # huge_length @ [])
      \<and> set_LogGroupList zero_LogGroupList \<and> plain_LogGroupList zero_LogGroupList \<and> LogGroupList_Marshal zero_LogGroupList = Ok []
      \<and> length ([] :: byte list) + length ([] :: byte list) + 10 < 2 ^ 62"
    using w empty by (simp add: sample_logs_outside_def)
  have vs: "\<forall>v \<in> set [JObj [(''shardID'', JNum (dec_int 1))], JNull]. shard_object v" "JNull \<in> set [JObj [(''shardID'', JNum (dec_int 1))], JNull]"
    by (auto simp: shard_object_def intro!: exI [of _ 1])
  have hd3: "first_header [''X-Sls-Compresstype'' \<mapsto> [''lz4''], ''X-Sls-Cursor'' \<mapsto> [''c1''], ''X-Sls-Bodyrawsize'' \<mapsto> [dec_int 10]] ''X-Sls-Compresstype'' = Some ''lz4''"
    "first_header [''X-Sls-Compresstype'' \<mapsto> [''lz4''], ''X-Sls-Cursor'' \<mapsto> [''c1''], ''X-Sls-Bodyrawsize'' \<mapsto> [dec_int 10]] ''X-Sls-Cursor'' = Some ''c1''"
    "first_header [''X-Sls-Compresstype'' \<mapsto> [''lz4''], ''X-Sls-Cursor'' \<mapsto> [''c1''], ''X-Sls-Bodyrawsize'' \<mapsto> [dec_int 10]] ''X-Sls-Bodyrawsize'' = Some (dec_int 10)"
    by (simp_all add: first_header_def)
  have range: "- (2 ^ 63) \<le> (10 :: int)" "(10 :: int) < 2 ^ 48" by simp_all
  from hostile_answers [OF p(1) reply hd3 range bad ans vs] show ?thesis ..
qed

end
