(* ===== verification/Alils.thy ===== *)
theory Alils
  imports Alils_Api Log Log_Services
begin

text \<open>
  The adapter for the Alibaba log service (\<open>internal/logs/alils/alils.go\<close>): its settings,
  the log group for each topic, and the sending of full groups. A group is shared by the
  list of groups and the map of topics: the map holds indices into the list. What was sent
  is kept in \<open>al_sent\<close>, with the index of the group. \<open>Init\<close> and \<open>WriteMsg\<close> return \<open>None\<close>
  when they panic.
\<close>

section \<open>Settings\<close>

record AliConfig =
  ac_Project :: string
  ac_Endpoint :: string
  ac_KeyID :: string
  ac_KeySecret :: string
  ac_LogStore :: string
  ac_Topics :: "string list"
  ac_Source :: string
  ac_Level :: int
  ac_FlushWhen :: int

record aliLSWriter =
  al_store :: "LogStore option"
  al_group :: "LogGroup list"
  al_withMap :: bool
  al_groupMap :: "string \<rightharpoonup> nat"
  al_Config :: AliConfig
  al_sent :: "(nat \<times> LogGroup) list"

definition CacheSize :: int where "CacheSize = 64"

definition NewAliLS :: aliLSWriter where
  "NewAliLS = \<lparr>al_store = None, al_group = [], al_withMap = False, al_groupMap = Map.empty,
     al_Config = \<lparr>ac_Project = [], ac_Endpoint = [], ac_KeyID = [], ac_KeySecret = [], ac_LogStore = [], ac_Topics = [],
       ac_Source = [], ac_Level = int (level_num LevelTrace), ac_FlushWhen = 0\<rparr>,
     al_sent = []\<rparr>"

definition member_AliConfig :: "AliConfig member_step" where
  "member_AliConfig m st =
     (let (k, v) = m in
      if key_is ''project'' k then set_str (\<lambda>x s. s\<lparr>ac_Project := x\<rparr>) v st
      else if key_is ''endpoint'' k then set_str (\<lambda>x s. s\<lparr>ac_Endpoint := x\<rparr>) v st
      else if key_is ''key_id'' k then set_str (\<lambda>x s. s\<lparr>ac_KeyID := x\<rparr>) v st
      else if key_is ''key_secret'' k then set_str (\<lambda>x s. s\<lparr>ac_KeySecret := x\<rparr>) v st
      else if key_is ''log_store'' k then set_str (\<lambda>x s. s\<lparr>ac_LogStore := x\<rparr>) v st
      else if key_is ''topics'' k then set_strs (\<lambda>x s. s\<lparr>ac_Topics := x\<rparr>) v st
      else if key_is ''source'' k then set_str (\<lambda>x s. s\<lparr>ac_Source := x\<rparr>) v st
      else if key_is ''level'' k then set_int (\<lambda>x s. s\<lparr>ac_Level := x\<rparr>) v st
      else if key_is ''flush_when'' k then set_int (\<lambda>x s. s\<lparr>ac_FlushWhen := x\<rparr>) v st
      else st)"

definition new_group :: "string \<Rightarrow> string \<Rightarrow> LogGroup" where
  "new_group topic source = zero_LogGroup\<lparr>lgr_Topic := Some topic, lgr_Source := Some source\<rparr>"

definition add_topic :: "string \<Rightarrow> aliLSWriter \<Rightarrow> aliLSWriter" where
  "add_topic topic c =
     c\<lparr>al_group := al_group c @ [new_group topic (ac_Source (al_Config c))],
       al_groupMap := (al_groupMap c)(topic \<mapsto> length (al_group c))\<rparr>"

text \<open>
  \<open>Init\<close>: an error of the configuration's text is dropped. The capacity of the new slices
  is \<open>FlushWhen\<close>, so that a negative one panics. The store that an error of \<open>GetLogStore\<close>
  leaves behind is not used by anything.
\<close>

definition ali_Init :: "outside \<Rightarrow> string \<Rightarrow> aliLSWriter \<Rightarrow> (sls_error option \<times> aliLSWriter) option" where
  "ali_Init w jsonConfig c =
     (let cfg = snd (unmarshal_into member_AliConfig (bytes_of jsonConfig) (al_Config c));
          cfg = (if ac_FlushWhen cfg > CacheSize then cfg\<lparr>ac_FlushWhen := CacheSize\<rparr> else cfg);
          c = c\<lparr>al_Config := cfg\<rparr>;
          prj = NewLogProject (ac_Project cfg) (ac_Endpoint cfg) (ac_KeyID cfg) (ac_KeySecret cfg)
      in case GetLogStore w prj (ac_LogStore cfg) of
           Err e \<Rightarrow> Some (Some e, c\<lparr>al_store := None\<rparr>)
         | Ok s \<Rightarrow>
             if ac_FlushWhen cfg < 0 then None
             else
               let c = c\<lparr>al_store := Some s, al_group := al_group c @ [new_group [] (ac_Source cfg)], al_groupMap := Map.empty\<rparr>;
                   c = fold add_topic (ac_Topics cfg) c
               in Some (None, c\<lparr>al_withMap := length (al_group c) \<noteq> 1\<rparr>)
         | _ \<Rightarrow> None)"

section \<open>Messages\<close>

text \<open>\<open>strings.SplitN(msg, "##", 2)\<close> when the delimiter is there.\<close>

fun cut_delimiter :: "string \<Rightarrow> (string \<times> string) option" where
  "cut_delimiter (a # b # r) =
     (if a = CHR ''#'' \<and> b = CHR ''#'' then Some ([], r)
      else map_option (\<lambda>(p, s). (a # p, s)) (cut_delimiter (b # r)))"
| "cut_delimiter _ = None"

text \<open>
  The topic is what stands between the last blank before the delimiter and the delimiter;
  the blank and the topic are left out of the content. Without a blank the slice
  \<open>strs[0][0:pos]\<close> has the bound -1 and panics.
\<close>

definition split_topic :: "string \<Rightarrow> (string \<times> string) option option" where
  "split_topic msg =
     (case cut_delimiter msg of
        None \<Rightarrow> Some None
      | Some (before, after) \<Rightarrow>
          (case rcut (CHR '' '') before of
             None \<Rightarrow> None
           | Some (pre, topic) \<Rightarrow> Some (Some (topic, pre @ after))))"

text \<open>The index of the group and the content for it.\<close>

definition ali_route :: "bool \<Rightarrow> (string \<rightharpoonup> nat) \<Rightarrow> string \<Rightarrow> (nat \<times> string) option" where
  "ali_route withMap groupMap msg =
     (if withMap then
        (case split_topic msg of
           None \<Rightarrow> None
         | Some None \<Rightarrow> Some (0, msg)
         | Some (Some (topic, body)) \<Rightarrow>
             (case groupMap topic of None \<Rightarrow> Some (0, msg) | Some i \<Rightarrow> Some (i, body)))
      else Some (0, msg))"

definition ali_log :: "int \<Rightarrow> string \<Rightarrow> PbLog" where
  "ali_log unix body =
     \<lparr>pl_Time = Some (word_of_int unix),
      pl_Contents = [\<lparr>lc_Key = Some ''msg'', lc_Value = Some body, lc_XXX = []\<rparr>], pl_XXX = []\<rparr>"

definition ali_flush :: "logs_outside \<Rightarrow> nat \<Rightarrow> aliLSWriter \<Rightarrow> aliLSWriter option" where
  "ali_flush w i c =
     (case al_store c of
        None \<Rightarrow> None
      | Some s \<Rightarrow>
          (let lg = al_group c ! i in
           case PutLogs w s lg of
             Ok u \<Rightarrow> Some (c\<lparr>al_group := (al_group c)[i := lg\<lparr>lgr_Logs := []\<rparr>], al_sent := al_sent c @ [(i, lg)]\<rparr>)
           | Err e \<Rightarrow> Some c
           | _ \<Rightarrow> None))"

definition ali_WriteMsg :: "logs_outside \<Rightarrow> int \<Rightarrow> string \<Rightarrow> nat \<Rightarrow> aliLSWriter \<Rightarrow> aliLSWriter option" where
  "ali_WriteMsg w unix msg level c =
     (if int level > ac_Level (al_Config c) then Some c
      else case ali_route (al_withMap c) (al_groupMap c) msg of
             None \<Rightarrow> None
           | Some (i, body) \<Rightarrow>
               if length (al_group c) \<le> i then None
               else
                 let lg = al_group c ! i;
                     lg = lg\<lparr>lgr_Logs := lgr_Logs lg @ [ali_log unix body]\<rparr>;
                     c = c\<lparr>al_group := (al_group c)[i := lg]\<rparr>
                 in if int (length (lgr_Logs lg)) \<ge> ac_FlushWhen (al_Config c) then ali_flush w i c else Some c)"

text \<open>\<open>Flush\<close> sends every group; \<open>Destroy\<close> does nothing.\<close>

primrec ali_flushes :: "(nat \<Rightarrow> logs_outside) \<Rightarrow> nat list \<Rightarrow> aliLSWriter \<Rightarrow> aliLSWriter option" where
  "ali_flushes ws [] c = Some c"
| "ali_flushes ws (i # is) c = Option.bind (ali_flush (ws i) i c) (ali_flushes ws is)"

definition ali_Flush :: "(nat \<Rightarrow> logs_outside) \<Rightarrow> aliLSWriter \<Rightarrow> aliLSWriter option" where
  "ali_Flush ws c = ali_flushes ws [0..<length (al_group c)] c"

definition ali_Destroy :: "aliLSWriter \<Rightarrow> aliLSWriter" where
  "ali_Destroy c = c"

text \<open>Runs of an adapter: messages and flushes, each with the outside of its moment.\<close>

datatype ali_event =
    Wrote logs_outside int string level
  | Flushed "nat \<Rightarrow> logs_outside"

fun ali_step :: "ali_event \<Rightarrow> aliLSWriter \<Rightarrow> aliLSWriter option" where
  "ali_step (Wrote w unix msg l) c = ali_WriteMsg w unix msg (level_num l) c"
| "ali_step (Flushed ws) c = ali_Flush ws c"

primrec ali_run :: "ali_event list \<Rightarrow> aliLSWriter \<Rightarrow> aliLSWriter option" where
  "ali_run [] c = Some c"
| "ali_run (e # es) c = Option.bind (ali_step e c) (ali_run es)"


section \<open>The invariant\<close>

text \<open>
  After a successful \<open>Init\<close>: the store has its project, the default group is there, every
  topic has a group, and all groups can be marshalled and have no unknown fields.
\<close>

definition ali_inv :: "aliLSWriter \<Rightarrow> bool" where
  "ali_inv c \<longleftrightarrow> (\<exists>s p. al_store c = Some s \<and> ls_project s = Some p) \<and> al_group c \<noteq> []
     \<and> (\<forall>t i. al_groupMap c t = Some i \<longrightarrow> i < length (al_group c))
     \<and> (\<forall>g \<in> set (al_group c). set_LogGroup g \<and> plain_LogGroup g)"

lemma new_group_ok: "set_LogGroup (new_group t s)" "plain_LogGroup (new_group t s)" "lgr_Logs (new_group t s) = []"
  by (simp_all add: new_group_def zero_LogGroup_def set_LogGroup_def plain_LogGroup_def)

lemma add_topic_inv: "ali_inv c \<Longrightarrow> ali_inv (add_topic t c)"
  unfolding ali_inv_def add_topic_def using new_group_ok by (auto simp: less_Suc_eq)

lemma fold_add_topic:
  "ali_inv c \<Longrightarrow> ali_inv (fold add_topic ts c)"
  "al_sent (fold add_topic ts c) = al_sent c" "al_Config (fold add_topic ts c) = al_Config c"
  "\<forall>g \<in> set (al_group c). lgr_Logs g = [] \<Longrightarrow> \<forall>g \<in> set (al_group (fold add_topic ts c)). lgr_Logs g = []"
proof -
  show "ali_inv c \<Longrightarrow> ali_inv (fold add_topic ts c)"
    by (induction ts arbitrary: c) (simp_all add: add_topic_inv)
  show "al_sent (fold add_topic ts c) = al_sent c" "al_Config (fold add_topic ts c) = al_Config c"
    by (induction ts arbitrary: c) (simp_all add: add_topic_def)
  show "\<forall>g \<in> set (al_group c). lgr_Logs g = [] \<Longrightarrow> \<forall>g \<in> set (al_group (fold add_topic ts c)). lgr_Logs g = []"
  proof (induction ts arbitrary: c)
    case (Cons t ts)
    have "\<forall>g \<in> set (al_group (add_topic t c)). lgr_Logs g = []" using Cons.prems by (simp add: add_topic_def new_group_ok)
    from Cons.IH [OF this] show ?case by simp
  qed simp
qed

lemma GetLogStore_project: "GetLogStore w p name = Ok s \<Longrightarrow> ls_project s = Some p"
  by (auto simp: GetLogStore_def bind_result_Ok)

lemma ali_inv_simps [simp]: "ali_inv (c\<lparr>al_withMap := b\<rparr>) = ali_inv c"
  by (simp add: ali_inv_def)

lemma Init_inv:
  assumes "ali_Init w json NewAliLS = Some (None, c)"
  shows "ali_inv c \<and> al_sent c = [] \<and> (\<forall>g \<in> set (al_group c). lgr_Logs g = [])
    \<and> 0 \<le> ac_FlushWhen (al_Config c) \<and> ac_FlushWhen (al_Config c) \<le> 64"
proof -
  define cfg0 where "cfg0 = snd (unmarshal_into member_AliConfig (bytes_of json) (al_Config NewAliLS))"
  define cfg where "cfg = (if ac_FlushWhen cfg0 > CacheSize then cfg0\<lparr>ac_FlushWhen := CacheSize\<rparr> else cfg0)"
  let ?prj = "NewLogProject (ac_Project cfg) (ac_Endpoint cfg) (ac_KeyID cfg) (ac_KeySecret cfg)"
  obtain s where s: "GetLogStore w ?prj (ac_LogStore cfg) = Ok s" and f: "\<not> ac_FlushWhen cfg < 0"
    and c: "c = (let c = fold add_topic (ac_Topics cfg) (NewAliLS\<lparr>al_Config := cfg, al_store := Some s,
        al_group := [] @ [new_group [] (ac_Source cfg)], al_groupMap := Map.empty\<rparr>) in c\<lparr>al_withMap := length (al_group c) \<noteq> 1\<rparr>)"
    using assms unfolding ali_Init_def Let_def cfg0_def [symmetric] cfg_def [symmetric]
    by (auto simp: NewAliLS_def split: res.splits if_splits)
  let ?c0 = "NewAliLS\<lparr>al_Config := cfg, al_store := Some s, al_group := [] @ [new_group [] (ac_Source cfg)], al_groupMap := Map.empty\<rparr>"
  have i: "ali_inv ?c0" using GetLogStore_project [OF s] new_group_ok by (simp add: ali_inv_def)
  have e: "\<forall>g \<in> set (al_group ?c0). lgr_Logs g = []" using new_group_ok by simp
  have "al_sent ?c0 = []" "al_Config ?c0 = cfg" by (simp_all add: NewAliLS_def)
  moreover have "ac_FlushWhen cfg \<le> 64" by (simp add: cfg_def CacheSize_def)
  ultimately show ?thesis
    using fold_add_topic(1) [OF i, of "ac_Topics cfg"] fold_add_topic(4) [OF e, of "ac_Topics cfg"] f
    unfolding c Let_def by (simp add: fold_add_topic(2,3))
qed

section \<open>Nothing panics\<close>

lemma reply_fine: "reply w p method uri h body failed \<noteq> Panic" "reply w p method uri h body failed \<noteq> Diverges"
proof -
  have n: "new_request w p method uri h body \<noteq> Panic" "new_request w p method uri h body \<noteq> Diverges"
    by (auto simp: new_request_def Let_def bind_result_Panic bind_result_Diverges signature_def signStr_def split: option.splits)
  then show "reply w p method uri h body failed \<noteq> Panic" "reply w p method uri h body failed \<noteq> Diverges"
    by (auto simp: reply_def request_def bind_result_Panic bind_result_Diverges split: http_answer.splits option.splits sum.splits)
qed

text \<open>The protobuf package's documented behaviour, for groups.\<close>

definition marshals_ok :: "logs_outside \<Rightarrow> bool" where
  "marshals_ok w \<longleftrightarrow> out_Marshal w = LogGroup_Marshal"

lemma PutLogs_fine:
  assumes "marshals_ok w" and "ls_project s = Some p" and "set_LogGroup lg"
  shows "PutLogs w s lg = Ok () \<or> (\<exists>e. PutLogs w s lg = Err e)"
proof -
  have "out_Marshal w lg = Ok (enc_LogGroup lg)"
    using assms(1) group_w.marshal_exact [OF assms(3)] by (simp add: marshals_ok_def LogGroup_Marshal_def)
  then have "PutLogs w s lg \<noteq> Panic" "PutLogs w s lg \<noteq> Diverges"
    using reply_fine
    by (auto simp: PutLogs_def with_project_def assms(2) bind_result_Panic bind_result_Diverges split: option.splits)
  then show ?thesis by (cases "PutLogs w s lg") auto
qed

text \<open>A flush sends the whole group and empties it, or leaves everything as it was.\<close>

lemma ali_flush_cases:
  assumes "ali_inv c" and "marshals_ok w" and "i < length (al_group c)"
  obtains "ali_flush w i c = Some c"
  | "ali_flush w i c = Some (c\<lparr>al_group := (al_group c)[i := (al_group c ! i)\<lparr>lgr_Logs := []\<rparr>],
      al_sent := al_sent c @ [(i, al_group c ! i)]\<rparr>)"
proof -
  obtain s p where s: "al_store c = Some s" "ls_project s = Some p" using assms(1) by (auto simp: ali_inv_def)
  have "set_LogGroup (al_group c ! i)" using assms(1,3) by (auto simp: ali_inv_def)
  from PutLogs_fine [OF assms(2) s(2) this] show thesis
    using that s(1) by (auto simp: ali_flush_def Let_def)
qed

section \<open>Where the logs are\<close>

definition logs_at :: "nat \<Rightarrow> aliLSWriter \<Rightarrow> PbLog list" where
  "logs_at i c = concat (map (\<lambda>(j, g). if j = i then lgr_Logs g else []) (al_sent c)) @ lgr_Logs (al_group c ! i)"

definition same_setup :: "aliLSWriter \<Rightarrow> aliLSWriter \<Rightarrow> bool" where
  "same_setup c c' \<longleftrightarrow> al_store c' = al_store c \<and> al_withMap c' = al_withMap c \<and> al_groupMap c' = al_groupMap c
     \<and> al_Config c' = al_Config c \<and> length (al_group c') = length (al_group c)"

lemma same_setup_trans: "same_setup a b \<Longrightarrow> same_setup b c \<Longrightarrow> same_setup a c"
  by (simp add: same_setup_def)

text \<open>A flush moves no log from one group to another and loses none.\<close>

lemma flush_keeps:
  assumes "ali_inv c" and "marshals_ok w" and "i < length (al_group c)"
  shows "\<exists>c'. ali_flush w i c = Some c' \<and> ali_inv c' \<and> same_setup c c' \<and> (\<forall>j < length (al_group c). logs_at j c' = logs_at j c)"
proof (rule ali_flush_cases [OF assms])
  assume "ali_flush w i c = Some c"
  with assms(1) show ?thesis by (simp add: same_setup_def)
next
  let ?g = "al_group c ! i"
  let ?c = "c\<lparr>al_group := (al_group c)[i := ?g\<lparr>lgr_Logs := []\<rparr>], al_sent := al_sent c @ [(i, ?g)]\<rparr>"
  assume f: "ali_flush w i c = Some ?c"
  have "set_LogGroup (?g\<lparr>lgr_Logs := []\<rparr>) \<and> plain_LogGroup (?g\<lparr>lgr_Logs := []\<rparr>)"
    using assms(1,3) by (auto simp: ali_inv_def set_LogGroup_def plain_LogGroup_def)
  then have "ali_inv ?c" using assms(1) by (auto simp: ali_inv_def dest!: set_update_subset_insert [THEN subsetD])
  moreover have "\<forall>j < length (al_group c). logs_at j ?c = logs_at j c"
    using assms(3) by (auto simp: logs_at_def nth_list_update)
  moreover have "same_setup c ?c" by (simp add: same_setup_def)
  ultimately show ?thesis using f by blast
qed

lemma route_in_range:
  assumes "ali_inv c" and "ali_route (al_withMap c) (al_groupMap c) msg = Some (i, body)"
  shows "i < length (al_group c)"
  using assms by (auto simp: ali_inv_def ali_route_def split: if_splits option.splits)

text \<open>A message adds its log to the end of its group.\<close>

lemma write_keeps:
  assumes "ali_inv c" and "marshals_ok w" and "int level \<le> ac_Level (al_Config c)"
    and "ali_route (al_withMap c) (al_groupMap c) msg = Some (i, body)"
  shows "\<exists>c'. ali_WriteMsg w unix msg level c = Some c' \<and> ali_inv c' \<and> same_setup c c'
    \<and> (\<forall>j < length (al_group c). logs_at j c' = logs_at j c @ (if j = i then [ali_log unix body] else []))"
proof -
  have i: "i < length (al_group c)" by (rule route_in_range [OF assms(1,4)])
  let ?g = "(al_group c ! i)\<lparr>lgr_Logs := lgr_Logs (al_group c ! i) @ [ali_log unix body]\<rparr>"
  let ?c = "c\<lparr>al_group := (al_group c)[i := ?g]\<rparr>"
  have "set_LogGroup ?g \<and> plain_LogGroup ?g"
    using assms(1) i
    by (auto simp: ali_inv_def set_LogGroup_def plain_LogGroup_def ali_log_def set_PbLog_def set_LogContent_def plain_PbLog_def plain_LogContent_def)
  then have inv: "ali_inv ?c" using assms(1) by (auto simp: ali_inv_def dest!: set_update_subset_insert [THEN subsetD])
  have logs: "logs_at j ?c = logs_at j c @ (if j = i then [ali_log unix body] else [])" if "j < length (al_group c)" for j
    using i that by (auto simp: logs_at_def nth_list_update)
  have su: "same_setup c ?c" by (simp add: same_setup_def)
  have w: "ali_WriteMsg w unix msg level c
      = (if int (length (lgr_Logs ?g)) \<ge> ac_FlushWhen (al_Config c) then ali_flush w i ?c else Some ?c)"
    using assms(3,4) i by (simp add: ali_WriteMsg_def Let_def)
  show ?thesis
  proof (cases "int (length (lgr_Logs ?g)) \<ge> ac_FlushWhen (al_Config c)")
    case True
    obtain c' where "ali_flush w i ?c = Some c'" "ali_inv c'" "same_setup ?c c'" "\<forall>j < length (al_group ?c). logs_at j c' = logs_at j ?c"
      using flush_keeps [OF inv assms(2), of i] i by auto
    with True w logs same_setup_trans [OF su] show ?thesis by (intro exI [of _ c']) simp
  next
    case False
    with w inv su logs show ?thesis by (intro exI [of _ ?c]) simp
  qed
qed

lemma flushes_keep:
  assumes "ali_inv c" and "\<forall>i. marshals_ok (ws i)" and "\<forall>i \<in> set is. i < length (al_group c)"
  shows "\<exists>c'. ali_flushes ws is c = Some c' \<and> ali_inv c' \<and> same_setup c c' \<and> (\<forall>j < length (al_group c). logs_at j c' = logs_at j c)"
  using assms
proof (induction "is" arbitrary: c)
  case (Cons i "is")
  obtain c1 where c1: "ali_flush (ws i) i c = Some c1" "ali_inv c1" "same_setup c c1" "\<forall>j < length (al_group c). logs_at j c1 = logs_at j c"
    using flush_keeps [OF Cons.prems(1), of "ws i" i] Cons.prems by auto
  have len: "length (al_group c1) = length (al_group c)" using c1(3) by (simp add: same_setup_def)
  obtain c2 where c2: "ali_flushes ws is c1 = Some c2" "ali_inv c2" "same_setup c1 c2" "\<forall>j < length (al_group c1). logs_at j c2 = logs_at j c1"
    using Cons.IH [OF c1(2) Cons.prems(2)] Cons.prems(3) len by auto
  then show ?case using c1 len same_setup_trans [OF c1(3) c2(3)] by (intro exI [of _ c2]) simp
qed (simp add: same_setup_def)

section \<open>Runs\<close>

text \<open>What a run is to deliver: the log of every message that passes the level, with its group.\<close>

definition entry :: "aliLSWriter \<Rightarrow> ali_event \<Rightarrow> (nat \<times> PbLog) option" where
  "entry c e =
     (case e of
        Wrote w unix msg l \<Rightarrow>
          if int (level_num l) > ac_Level (al_Config c) then None
          else map_option (\<lambda>(i, body). (i, ali_log unix body)) (ali_route (al_withMap c) (al_groupMap c) msg)
      | Flushed ws \<Rightarrow> None)"

definition entries :: "aliLSWriter \<Rightarrow> ali_event list \<Rightarrow> nat \<Rightarrow> PbLog list" where
  "entries c es i = map snd (filter (\<lambda>(j, l). j = i) (List.map_filter (entry c) es))"

definition event_ok :: "aliLSWriter \<Rightarrow> ali_event \<Rightarrow> bool" where
  "event_ok c e \<longleftrightarrow>
     (case e of
        Wrote w unix msg l \<Rightarrow> marshals_ok w \<and> ali_route (al_withMap c) (al_groupMap c) msg \<noteq> None
      | Flushed ws \<Rightarrow> (\<forall>i. marshals_ok (ws i)))"

lemma same_setup_entry: "same_setup c c' \<Longrightarrow> entry c' = entry c \<and> event_ok c' = event_ok c"
  by (intro conjI ext) (simp_all add: same_setup_def entry_def event_ok_def split: ali_event.split)

lemma step_keeps:
  assumes "ali_inv c" and "event_ok c e"
  shows "\<exists>c'. ali_step e c = Some c' \<and> ali_inv c' \<and> same_setup c c'
    \<and> (\<forall>j < length (al_group c). logs_at j c' = logs_at j c @ entries c [e] j)"
proof (cases e)
  case (Wrote w unix msg l)
  then obtain i body where r: "ali_route (al_withMap c) (al_groupMap c) msg = Some (i, body)" and m: "marshals_ok w"
    using assms(2) by (auto simp: event_ok_def)
  show ?thesis
  proof (cases "int (level_num l) > ac_Level (al_Config c)")
    case True
    with Wrote assms(1) show ?thesis
      by (simp add: ali_WriteMsg_def same_setup_def entries_def entry_def map_filter_def)
  next
    case False
    have "entries c [e] j = (if j = i then [ali_log unix body] else [])" for j
      using False Wrote r by (simp add: entries_def entry_def map_filter_def)
    with write_keeps [OF assms(1) m _ r, of "level_num l" unix] False Wrote show ?thesis by simp
  qed
next
  case (Flushed ws)
  with flushes_keep [OF assms(1), of ws "[0..<length (al_group c)]"] assms(2) show ?thesis
    by (simp add: event_ok_def ali_Flush_def entries_def entry_def map_filter_def)
qed

lemma run_keeps:
  assumes "ali_inv c" and "\<forall>e \<in> set es. event_ok c e"
  shows "\<exists>c'. ali_run es c = Some c' \<and> ali_inv c' \<and> same_setup c c'
    \<and> (\<forall>j < length (al_group c). logs_at j c' = logs_at j c @ entries c es j)"
  using assms
proof (induction es arbitrary: c)
  case (Cons e es)
  obtain c1 where c1: "ali_step e c = Some c1" "ali_inv c1" "same_setup c c1"
      "\<forall>j < length (al_group c). logs_at j c1 = logs_at j c @ entries c [e] j"
    using step_keeps [OF Cons.prems(1), of e] Cons.prems(2) by auto
  note s = same_setup_entry [OF c1(3)]
  obtain c2 where c2: "ali_run es c1 = Some c2" "ali_inv c2" "same_setup c1 c2"
      "\<forall>j < length (al_group c1). logs_at j c2 = logs_at j c1 @ entries c1 es j"
    using Cons.IH [OF c1(2)] Cons.prems(2) s by auto
  have "entries c (e # es) j = entries c [e] j @ entries c es j" for j
    by (simp add: entries_def map_filter_def)
  moreover have "entries c1 es = entries c es" using s by (intro ext) (simp add: entries_def)
  moreover have "length (al_group c1) = length (al_group c)" using c1(3) by (simp add: same_setup_def)
  ultimately show ?case using c1 c2 same_setup_trans [OF c1(3) c2(3)] by (intro exI [of _ c2]) simp
qed (simp add: same_setup_def entries_def map_filter_def)

text \<open>With a service that takes every group, none stays longer than the limit.\<close>

definition takes_every_group :: "logs_outside \<Rightarrow> bool" where
  "takes_every_group w \<longleftrightarrow> (\<forall>s p lg. ls_project s = Some p \<and> set_LogGroup lg \<longrightarrow> PutLogs w s lg = Ok ())"

definition event_taken :: "ali_event \<Rightarrow> bool" where
  "event_taken e \<longleftrightarrow> (case e of Wrote w unix msg l \<Rightarrow> takes_every_group w | Flushed ws \<Rightarrow> \<forall>i. takes_every_group (ws i))"

definition below_limit :: "aliLSWriter \<Rightarrow> bool" where
  "below_limit c \<longleftrightarrow> (\<forall>g \<in> set (al_group c). int (length (lgr_Logs g)) < max 1 (ac_FlushWhen (al_Config c)))"

lemma flush_taken:
  assumes "ali_inv c" and "takes_every_group w" and "i < length (al_group c)"
  shows "ali_flush w i c = Some (c\<lparr>al_group := (al_group c)[i := (al_group c ! i)\<lparr>lgr_Logs := []\<rparr>],
      al_sent := al_sent c @ [(i, al_group c ! i)]\<rparr>)"
proof -
  obtain s p where s: "al_store c = Some s" "ls_project s = Some p" using assms(1) by (auto simp: ali_inv_def)
  have "set_LogGroup (al_group c ! i)" using assms(1,3) by (auto simp: ali_inv_def)
  with s assms(2) have "PutLogs w s (al_group c ! i) = Ok ()" by (auto simp: takes_every_group_def)
  with s(1) show ?thesis by (simp add: ali_flush_def Let_def)
qed

lemma flush_below:
  assumes "ali_inv c" and "takes_every_group w" and "i < length (al_group c)"
    and "\<forall>j < length (al_group c). j \<noteq> i \<longrightarrow> int (length (lgr_Logs (al_group c ! j))) < max 1 (ac_FlushWhen (al_Config c))"
    and "ali_flush w i c = Some c'"
  shows "below_limit c'"
proof -
  have "(0 :: int) < max 1 (ac_FlushWhen (al_Config c))" by (simp add: less_max_iff_disj)
  with flush_taken [OF assms(1-3)] assms(3-5) show ?thesis
    by (auto simp: below_limit_def in_set_conv_nth nth_list_update)
qed

lemma below_nth: "below_limit c \<Longrightarrow> j < length (al_group c) \<Longrightarrow> int (length (lgr_Logs (al_group c ! j))) < max 1 (ac_FlushWhen (al_Config c))"
  by (simp add: below_limit_def)

lemma write_below:
  assumes "ali_inv c" and "takes_every_group w" and "below_limit c" and "ali_WriteMsg w unix msg level c = Some c'"
  shows "below_limit c'"
proof (cases "int level > ac_Level (al_Config c)")
  case True
  with assms show ?thesis by (simp add: ali_WriteMsg_def)
next
  case False
  then obtain i body where r: "ali_route (al_withMap c) (al_groupMap c) msg = Some (i, body)"
    using assms(4) by (auto simp: ali_WriteMsg_def split: option.splits)
  have i: "i < length (al_group c)" by (rule route_in_range [OF assms(1) r])
  let ?g = "(al_group c ! i)\<lparr>lgr_Logs := lgr_Logs (al_group c ! i) @ [ali_log unix body]\<rparr>"
  let ?c = "c\<lparr>al_group := (al_group c)[i := ?g]\<rparr>"
  have w: "(if int (length (lgr_Logs ?g)) \<ge> ac_FlushWhen (al_Config c) then ali_flush w i ?c else Some ?c) = Some c'"
    using assms(4) False r i by (simp add: ali_WriteMsg_def Let_def)
  have others: "\<forall>j < length (al_group ?c). j \<noteq> i \<longrightarrow> int (length (lgr_Logs (al_group ?c ! j))) < max 1 (ac_FlushWhen (al_Config ?c))"
    using below_nth [OF assms(3)] by simp
  show ?thesis
  proof (cases "int (length (lgr_Logs ?g)) \<ge> ac_FlushWhen (al_Config c)")
    case True
    have "set_LogGroup ?g \<and> plain_LogGroup ?g"
      using assms(1) i
      by (auto simp: ali_inv_def set_LogGroup_def plain_LogGroup_def ali_log_def set_PbLog_def set_LogContent_def plain_PbLog_def plain_LogContent_def)
    then have "ali_inv ?c" using assms(1) by (auto simp: ali_inv_def dest!: set_update_subset_insert [THEN subsetD])
    from flush_below [OF this assms(2) _ others] True w i show ?thesis by simp
  next
    case False
    with w have "c' = ?c" by simp
    with False others i show ?thesis by (auto simp: below_limit_def in_set_conv_nth nth_list_update)
  qed
qed

lemma flushes_below:
  assumes "ali_inv c" and "\<forall>i. marshals_ok (ws i) \<and> takes_every_group (ws i)" and "below_limit c"
    and "\<forall>i \<in> set is. i < length (al_group c)" and "ali_flushes ws is c = Some c'"
  shows "below_limit c'"
  using assms
proof (induction "is" arbitrary: c)
  case (Cons i "is")
  then obtain c1 where c1: "ali_flush (ws i) i c = Some c1" "ali_flushes ws is c1 = Some c'" by (auto simp: bind_eq_Some_conv)
  have k: "ali_inv c1" "same_setup c c1" using flush_keeps [OF Cons.prems(1), of "ws i" i] Cons.prems(2,4) c1(1) by auto
  have "below_limit c1"
    using flush_below [OF Cons.prems(1), of "ws i" i c1] below_nth [OF Cons.prems(3)] Cons.prems(2,4) c1(1) by auto
  with Cons.IH [OF k(1) Cons.prems(2)] k(2) Cons.prems(4) c1(2) show ?case by (auto simp: same_setup_def)
qed simp

lemma run_below:
  assumes "ali_inv c" and "\<forall>e \<in> set es. event_ok c e \<and> event_taken e" and "below_limit c" and "ali_run es c = Some c'"
  shows "below_limit c'"
  using assms
proof (induction es arbitrary: c)
  case (Cons e es)
  then obtain c1 where c1: "ali_step e c = Some c1" "ali_run es c1 = Some c'" by (auto simp: bind_eq_Some_conv)
  have k: "ali_inv c1" "same_setup c c1" using step_keeps [OF Cons.prems(1), of e] Cons.prems(2) c1(1) by auto
  have "below_limit c1"
  proof (cases e)
    case (Wrote w unix msg l)
    with write_below [OF Cons.prems(1) _ Cons.prems(3)] c1(1) Cons.prems(2) show ?thesis by (auto simp: event_taken_def)
  next
    case (Flushed ws)
    with flushes_below [OF Cons.prems(1) _ Cons.prems(3), of ws "[0..<length (al_group c)]" c1] c1(1) Cons.prems(2)
    show ?thesis by (auto simp: event_taken_def event_ok_def ali_Flush_def)
  qed
  with Cons.IH [OF k(1)] Cons.prems(2) c1(2) same_setup_entry [OF k(2)] show ?case by auto
qed simp


section \<open>Topics and panics\<close>

text \<open>
  \<open>WriteMsg\<close> panics exactly for a message whose delimiter has no blank before it, when
  there are topics. The logger's own messages begin with a level and a blank; what its
  \<open>Write\<close> hands over as it is can have such a delimiter.
\<close>

lemma write_panics:
  assumes "ali_inv c" and "marshals_ok w" and "int level \<le> ac_Level (al_Config c)"
  shows "ali_WriteMsg w unix msg level c = None \<longleftrightarrow>
    al_withMap c \<and> (\<exists>before after. cut_delimiter msg = Some (before, after) \<and> CHR '' '' \<notin> set before)"
proof (cases "ali_route (al_withMap c) (al_groupMap c) msg")
  case None
  then show ?thesis
    using assms(3) by (auto simp: ali_WriteMsg_def ali_route_def split_topic_def rcut_None split: if_splits option.splits)
next
  case (Some r)
  obtain i body where r: "r = (i, body)" by fastforce
  have "ali_WriteMsg w unix msg level c \<noteq> None" using write_keeps [OF assms] Some r by fastforce
  moreover have "\<not> (al_withMap c \<and> (\<exists>before after. cut_delimiter msg = Some (before, after) \<and> CHR '' '' \<notin> set before))"
  proof
    assume "al_withMap c \<and> (\<exists>before after. cut_delimiter msg = Some (before, after) \<and> CHR '' '' \<notin> set before)"
    then obtain before after where "al_withMap c" "cut_delimiter msg = Some (before, after)" "rcut (CHR '' '') before = None"
      by (auto simp: rcut_None)
    then have "ali_route (al_withMap c) (al_groupMap c) msg = None" by (simp add: ali_route_def split_topic_def)
    with Some show False by simp
  qed
  ultimately show ?thesis by blast
qed

lemma logger_messages_have_topics:
  "k < 8 \<Longrightarrow> ali_route b gm (levelPrefix ! k @ msg) \<noteq> None"
proof -
  assume "k < 8"
  then have "levelPrefix ! k \<in> set levelPrefix" using levelPrefix_distinct(2) by (intro nth_mem) simp
  then obtain x where x: "levelPrefix ! k = [CHR ''['', x, CHR '']'', CHR '' '']" "x \<noteq> CHR ''#''"
    by (auto simp: levelPrefix_def)
  have "cut_delimiter (CHR '' '' # msg) = None \<or> (\<exists>p s. cut_delimiter (CHR '' '' # msg) = Some (CHR '' '' # p, s))"
    by (cases msg; cases "cut_delimiter msg") auto
  then have "cut_delimiter (levelPrefix ! k @ msg) = None
      \<or> (\<exists>p s. cut_delimiter (levelPrefix ! k @ msg) = Some (levelPrefix ! k @ p, s))"
    using x by auto
  then have "split_topic (levelPrefix ! k @ msg) \<noteq> None"
  proof
    assume "\<exists>p s. cut_delimiter (levelPrefix ! k @ msg) = Some (levelPrefix ! k @ p, s)"
    then obtain p s where c: "cut_delimiter (levelPrefix ! k @ msg) = Some (levelPrefix ! k @ p, s)" by blast
    have "rcut (CHR '' '') (levelPrefix ! k @ p) \<noteq> None" using x by (simp add: rcut_None)
    with c show ?thesis by (auto simp: split_topic_def)
  qed (simp add: split_topic_def)
  then show ?thesis by (auto simp: ali_route_def split: option.splits)
qed

section \<open>The contract of adapters\<close>

definition ali_write :: "logs_outside \<times> int \<times> string \<times> level \<Rightarrow> aliLSWriter \<Rightarrow> aliLSWriter option" where
  "ali_write m c = (case m of (w, unix, msg, l) \<Rightarrow> ali_WriteMsg w unix msg (level_num l) c)"

definition ali_settings :: "aliLSWriter \<Rightarrow> bool \<times> (string \<rightharpoonup> nat) \<times> int" where
  "ali_settings c = (al_withMap c, al_groupMap c, ac_Level (al_Config c))"

definition ali_ok :: "bool \<times> (string \<rightharpoonup> nat) \<times> int \<Rightarrow> logs_outside \<times> int \<times> string \<times> level \<Rightarrow> bool" where
  "ali_ok s m = (case (s, m) of ((b, gm, lv), (w, unix, msg, l)) \<Rightarrow> marshals_ok w \<and> ali_route b gm msg \<noteq> None)"

definition ali_passes :: "bool \<times> (string \<rightharpoonup> nat) \<times> int \<Rightarrow> logs_outside \<times> int \<times> string \<times> level \<Rightarrow> bool" where
  "ali_passes s m = (case (s, m) of ((b, gm, lv), (w, unix, msg, l)) \<Rightarrow> int (level_num l) \<le> lv)"

definition ali_line :: "bool \<times> (string \<rightharpoonup> nat) \<times> int \<Rightarrow> logs_outside \<times> int \<times> string \<times> level \<Rightarrow> string" where
  "ali_line s m = (case (s, m) of ((b, gm, lv), (w, unix, msg, l)) \<Rightarrow> snd (the (ali_route b gm msg)))"

definition ali_holds :: "aliLSWriter \<Rightarrow> string \<Rightarrow> bool" where
  "ali_holds c x \<longleftrightarrow> (\<exists>i < length (al_group c). \<exists>l \<in> set (logs_at i c). \<exists>unix. l = ali_log unix x)"

lemma ali_write_step:
  assumes "ali_inv c" and "ali_ok (ali_settings c) m"
  shows "\<exists>c'. ali_write m c = Some c' \<and> ali_inv c' \<and> ali_settings c' = ali_settings c
    \<and> (ali_passes (ali_settings c) m \<longrightarrow> ali_holds c' (ali_line (ali_settings c) m)) \<and> (\<forall>x. ali_holds c x \<longrightarrow> ali_holds c' x)"
proof -
  obtain w unix msg l where m: "m = (w, unix, msg, l)" by (cases m) auto
  obtain i body where r: "ali_route (al_withMap c) (al_groupMap c) msg = Some (i, body)" and w: "marshals_ok w"
    using assms(2) by (auto simp: ali_ok_def ali_settings_def m)
  show ?thesis
  proof (cases "int (level_num l) \<le> ac_Level (al_Config c)")
    case True
    obtain c' where c': "ali_WriteMsg w unix msg (level_num l) c = Some c'" "ali_inv c'" "same_setup c c'"
        "\<forall>j < length (al_group c). logs_at j c' = logs_at j c @ (if j = i then [ali_log unix body] else [])"
      using write_keeps [OF assms(1) w True r] by blast
    have i: "i < length (al_group c)" by (rule route_in_range [OF assms(1) r])
    have len: "length (al_group c') = length (al_group c)" using c'(3) by (simp add: same_setup_def)
    have "ali_holds c' body" unfolding ali_holds_def len using i c'(4) by (intro exI [of _ i]) auto
    moreover have "ali_holds c' x" if "ali_holds c x" for x
      using that c'(4) unfolding ali_holds_def len by fastforce
    ultimately show ?thesis
      using c' r by (auto simp: ali_write_def m ali_settings_def same_setup_def ali_passes_def ali_line_def)
  next
    case False
    then show ?thesis using assms(1) by (simp add: ali_write_def m ali_WriteMsg_def ali_passes_def ali_settings_def)
  qed
qed

interpretation ali_adapter: log_adapter ali_write ali_inv ali_settings ali_ok ali_passes ali_line ali_holds
proof unfold_locales
  fix s m s' x
  assume a: "ali_inv s" "ali_ok (ali_settings s) m"
  from ali_write_step [OF this] show "\<exists>s'. ali_write m s = Some s' \<and> ali_inv s' \<and> ali_settings s' = ali_settings s" by blast
  assume w: "ali_write m s = Some s'"
  with ali_write_step [OF a] show "ali_passes (ali_settings s) m \<Longrightarrow> ali_holds s' (ali_line (ali_settings s) m)"
    and "ali_holds s x \<Longrightarrow> ali_holds s' x" by auto
qed

section \<open>An example\<close>

definition sample_json :: json where
  "sample_json = JObj [(''project'', JStr ''p''), (''endpoint'', JStr ''e''), (''key_id'', JStr ''id''), (''key_secret'', JStr ''secret''),
     (''log_store'', JStr ''s''), (''topics'', JArr [JStr ''t''])]"

definition sample_ali :: aliLSWriter where
  "sample_ali = \<lparr>al_store = Some (zero_LogStore\<lparr>ls_Name := ''s'', ls_TTL := 30, ls_ShardCount := - 2, ls_project := Some sample_project\<rparr>),
     al_group = [new_group [] [], new_group ''t'' []], al_withMap = True, al_groupMap = [''t'' \<mapsto> 1],
     al_Config = \<lparr>ac_Project = ''p'', ac_Endpoint = ''e'', ac_KeyID = ''id'', ac_KeySecret = ''secret'', ac_LogStore = ''s'',
       ac_Topics = [''t''], ac_Source = [], ac_Level = 7, ac_FlushWhen = 0\<rparr>,
     al_sent = []\<rparr>"

lemma store_ints: "ints_only (json_of_store name ttl n)"
  by (auto simp: json_of_store_def)

lemma ali_sample_Init: "ali_Init (sample_outside sample_service) (json_print sample_json) NewAliLS = Some (None, sample_ali)"
proof -
  have nf: "num_free sample_json" by (simp add: sample_json_def)
  have cfg: "unmarshal_into member_AliConfig (bytes_of (json_print sample_json)) (al_Config NewAliLS) = (True, al_Config sample_ali)"
    unfolding unmarshal_into_def string_of_bytes_of json_parse_print [OF nf]
    by (simp add: sample_json_def decode_obj_def member_AliConfig_def key_is_def lower_def set_str_def set_strs_def NewAliLS_def
        sample_ali_def LevelTrace_def)
  have "answers_get (sample_outside sample_service) sample_project ''/logstores/s'' (bytes_of (json_print (json_of_store ''s'' 30 (- 2))))"
    using sample_paths(1) by (auto intro!: sample_GET simp: sample_service_def)
  from answers_get_call [OF this, of "''failed to get logstore''"]
  have "GetLogStore (sample_outside sample_service) sample_project ''s''
      = Ok (zero_LogStore\<lparr>ls_Name := ''s'', ls_TTL := 30, ls_ShardCount := - 2, ls_project := Some sample_project\<rparr>)"
    using unmarshal_print_ints [OF _ decode_store [of 30 "- 2" "''s''"]]
    by (simp add: GetLogStore_def decode_def store_ints)
  then show ?thesis
    unfolding ali_Init_def cfg
    by (simp add: sample_ali_def CacheSize_def sample_project_def Let_def add_topic_def NewAliLS_def)
qed


end
