(* ===== verification/Spec2Isabelle.thy ===== *)
theory Spec2Isabelle
  imports Public_Path Conn_Progress Startup Log_Conn Log_Services Ansi Alils
begin

text \<open>
  A model of opennotr, a reverse proxy that brings the ports of machines behind a NAT to
  a public server, with the properties that make it correct. Strings are lists of bytes,
  machine integers are words, a Go map is a finite map or the list of its entries in the
  order of one iteration, and a panic is a value.

  \<^bold>\<open>The program.\<close> A client (\<open>opennotr/\<close>) connects to the server (\<open>opennotrd/\<close>), sends
  its key, its domain and the ports that it wants (\<open>internal/proto\<close>), and gets a virtual
  address of the pool (\<open>core/dhcp.go\<close>). For each port the server runs a plugin
  (\<open>opennotrd/plugin/\<close>), which listens in public and connects to the virtual address. The
  kernel redirects these connections to the transparent proxies (\<open>core/tcpforward.go\<close>,
  \<open>core/udpforward.go\<close>), which find the client by the address in the session table
  (\<open>core/session.go\<close>), open a stream to it, send one frame that names the local target
  (\<open>core/net.go\<close>), and copy. The client dials the target and copies. The server logs
  with \<open>internal/logs\<close>, a copy of a logging library with adapters for several services.

  \<^bold>\<open>The theories, from below.\<close>
  \<^item> \<open>Prelude\<close>: words, byte lists, decimal texts, readers whose bytes come in chunks.
    \<open>Json\<close>: what is used of \<open>encoding/json\<close>, and the locale \<open>codec\<close>. \<open>Hostport\<close>:
    \<open>net.SplitHostPort\<close>.
  \<^item> \<open>Proto\<close> (\<open>internal/proto/cs.go\<close>): messages, header, \<open>Read\<close>, \<open>Write\<close>; round trips in
    whatever pieces the bytes come, truncated and overlong frames.
  \<^item> \<open>Net_Codec\<close> (\<open>core/net.go\<close>): checksums, the raw packet built byte by byte, the frames
    of a stream; layout, equality with the ones' complement sums, the dead guard.
  \<^item> \<open>Dhcp\<close>, \<open>Session\<close>, \<open>Resolver\<close> (the files of these names in \<open>core/\<close>; the last one also
    has \<open>randomDomain\<close> and \<open>publicIP\<close> of \<open>core/server.go\<close>): the pool with the locale
    \<open>ip_pool\<close>, the table with the locale \<open>session_table\<close>, keys and domains.
  \<^item> \<open>Plugin\<close>, \<open>Recycle\<close>, \<open>Tcp_Proxy\<close>, \<open>Udp_Proxy\<close>, \<open>Plugins\<close> (\<open>opennotrd/plugin/\<close>): the
    manager with the locale \<open>plugin_table\<close>, the stop signal, the goroutines of a running
    proxy as a step relation with an invariant, the four plugins.
  \<^item> \<open>Server\<close> (\<open>core/server.go\<close>): \<open>onConn\<close> cut at its accesses to shared state; invariants
    of every interleaving, the rollback, the pool that is used up.
    \<open>Conn_Progress\<close>: the goroutine of one connection on its own, with a measure of the
    turns that it has left.
  \<^item> \<open>Streams\<close>, \<open>Tcp_Forward\<close>, \<open>Udp_Forward\<close>, \<open>Client\<close>: copying and frames, the transparent
    proxies, the client with its turns of connecting; sessions of datagrams in every
    interleaving.
  \<^item> \<open>Handshake\<close>: a client and the server, from the client's message to the lines that it
    prints, with other connections in between. \<open>Public_Path\<close>: from there to the bytes and
    datagrams of a user, from the public port to the client's local service and back.
  \<^item> \<open>Log_Format\<close>, \<open>Log\<close>, \<open>Log_File\<close>, \<open>Log_Conn\<close>, \<open>Log_Services\<close>, \<open>Ansi\<close> (\<open>internal/logs\<close>): the
    texts of the log (\<open>logger.go\<close>, \<open>console.go\<close>), the logger with its queue (\<open>log.go\<close>), files with
    rotation (\<open>file.go\<close>, \<open>multifile.go\<close>), connections (\<open>conn.go\<close>), mail, webhooks and
    Elasticsearch (\<open>smtp.go\<close>, \<open>slack.go\<close>, \<open>jianliao.go\<close>, \<open>es/es.go\<close>) and colours
    (\<open>color_windows.go\<close>, \<open>color.go\<close>). What an adapter promises is the locale
    \<open>log_adapter\<close>, with the console, the file, the connection and the Alibaba adapter as its
    instances.
  \<^item> \<open>Alils_Proto\<close>, \<open>Alils_Codec\<close>, \<open>Alils_Request\<close>, \<open>Alils_Api\<close>, \<open>Alils\<close>
    (\<open>internal/logs/alils\<close>): the protobuf messages byte by byte (\<open>log.pb.go\<close>) with the
    locales \<open>pb_writer\<close> and \<open>pb_message\<close> for what each of the four messages promises, signed
    requests (\<open>signature.go\<close>, \<open>request.go\<close>), the operations of the service
    (\<open>log_project.go\<close>, \<open>log_store.go\<close>, \<open>machine_group.go\<close>, \<open>log_config.go\<close>) and the adapter
    that groups messages by topic (\<open>alils.go\<close>); round trips, what a request's signature
    covers, answers that end the program, delivery.
  \<^item> \<open>Startup\<close> (\<open>run.go\<close>, \<open>core/config.go\<close>): the stages of the server's start and what they
    log, and that the server which they leave keeps the invariants of \<open>Server\<close>.
  \<^item> This theory: the composition of the server's forwarders with the client, for a
    connection and for datagrams in both directions.

  \<^bold>\<open>State and steps.\<close> A component's state is a record with the fields of the code's
  struct. What the code does under one lock, or without touching shared state, is one
  function on it. Where goroutines meet, these functions are the cases of an inductive
  step relation (\<open>server_step\<close>, \<open>tcp_step\<close>, \<open>udp_step\<close>, \<open>udpf_step\<close>, \<open>bee_run\<close>), and the
  properties are invariants of everything that is reachable. What the environment decides
  (the order of an iteration over a map, the clock, dialling, whether a write succeeds,
  which case of a \<open>select\<close> is taken) is an argument.

  \<^bold>\<open>Bounds.\<close> No model has fuel that can run out: the JSON parser takes the length of its
  text as fuel, which its round trip shows to be enough; the loops that read protobuf
  fields have one turn for each byte and one more, and \<open>skipLog\<close> two, which
  \<open>Alils_Codec\<close> shows to be enough for all data shorter than 2^62 bytes; the loop of
  \<open>randomDomain\<close> and the other reading loops are total by a measure; the six digits of
  \<open>itoa\<close> and the 999 numbers of a rotation are the code's own bounds and appear in the
  properties.

  \<^bold>\<open>Outside.\<close> Arguments of the definitions are: files, YAML and flags; the etcd client,
  \<open>smux\<close> and the kernel, by the answers that the code looks at; the HTTP client, MD5,
  HMAC-SHA1, the date, lz4 and the protobuf package's entry points; \<open>url.Parse\<close> for the
  Elasticsearch adapter. \<open>net/url\<close> is modelled for the rooted paths that the Alibaba client
  makes, with semicolons between queries as in Go 1.13.

  \<^bold>\<open>Not modelled.\<close> IPv6 texts of a CIDR; the timers themselves (what they trigger is a
  step); \<open>String\<close> of the configurations and the getters of the protobuf messages, which only
  give access; what is printed of a service's failed answer.
\<close>

section \<open>From the proxy's socket to the client's local service\<close>

text \<open>
  C3. End to end, for TCP: when the server forwards a connection to an address with a
  session, the client that gets the bytes of its stream (in whatever pieces, as long as
  the first one holds the two bytes of the length) connects to the same port of its own
  host, and writes there exactly the bytes that the connection sent, in order.
\<close>

theorem tcp_end_to_end:
  assumes "GetSession vip sm = Some ss" and "plain_host vip" and "plain_host port" and "plain_host sip" and "plain_host sport"
    and "ascii port" and "ascii sip" and "ascii sport"
    and "length (encodeProxyProtocol ''tcp'' sip sport ''127.0.0.1'' port) \<le> 65537"
    and "rsize conn_in \<le> k"
    and "forwardTCP sm (vip @ CHR '':'' # port) (sip @ CHR '':'' # sport) True True (conn_in, k) down_in
      = Forwarded conn header up down"
    and "pending (ch # cs, e) = header @ concat up" and "2 \<le> length ch"
  shows "conn = ss_conn ss \<and> (\<exists>pp stream. handleStream (ch # cs, e) = TcpProxied pp stream
    \<and> pp_SrcIP pp = sip \<and> pp_SrcPort pp = sport
    \<and> (\<forall>c k' remote. 0 < cl_tcpbuf c \<longrightarrow> rsize stream \<le> k' \<longrightarrow>
        (\<exists>ups downs. tcpProxy c (\<lambda>a. True) (stream, k') remote pp = Some (''127.0.0.1:'' @ port, ups, downs)
          \<and> concat ups = pending conn_in)))"
proof -
  have f: "conn = ss_conn ss" "header = encodeProxyProtocol ''tcp'' sip sport targetIP port" "concat up = pending conn_in"
    using assms(11) forwardTCP_session [OF assms(1-5), of "(conn_in, k)" down_in] copy_buffer_all [of 4096 conn_in k] assms(10)
    by simp_all
  have len: "length (encodeProxyProtocol ''tcp'' sip sport targetIP port) \<le> 65537" using assms(9) by (simp add: targetIP_def)
  let ?pp = "\<lparr>pp_Protocol = ''tcp'', pp_SrcIP = sip, pp_SrcPort = sport, pp_DstIP = targetIP, pp_DstPort = port\<rparr>"
  have p: "pending (ch # cs, e) = encodeProxyProtocol ''tcp'' sip sport targetIP port @ pending conn_in"
    using assms(12) f by simp
  obtain stream where s: "handleStream (ch # cs, e) = TcpProxied ?pp stream"
      "\<forall>c k' remote. 0 < cl_tcpbuf c \<longrightarrow> rsize stream \<le> k' \<longrightarrow>
        (\<exists>ups. tcpProxy c (\<lambda>a. True) (stream, k') remote ?pp
            = Some (''127.0.0.1:'' @ port, ups, copy_buffer (cl_tcpbuf c) (snd remote) (fst remote)) \<and> concat ups = pending conn_in)"
    using client_dials [OF assms(6-8) len p assms(13) refl] by blast
  then have "\<exists>ups downs. tcpProxy c (\<lambda>a. True) (stream, k') remote ?pp = Some (''127.0.0.1:'' @ port, ups, downs)
      \<and> concat ups = pending conn_in" if "0 < cl_tcpbuf c" "rsize stream \<le> k'" for c k' remote
    using that by blast
  with s(1) f(1) show ?thesis by (intro conjI exI [of _ ?pp] exI [of _ stream]) simp_all
qed

text \<open>
  C4. End to end, for UDP: the datagrams of one address to one destination, all written
  on one stream after its header, come out at the client one by one, each with its
  payload and in order, and the client sends them to the destination's port on its own
  host; the stream is on the connection of the session of the destination's address.
\<close>

theorem udp_end_to_end:
  assumes "uf_sessions f (session_key raddr od) = None" and "GetSession (host_of od) sm = Some sess" and "ps \<noteq> []"
    and "length (ua_IP raddr) = 4" and "length (ua_IP od) = 4" and "0 \<le> ua_Port raddr" and "0 \<le> ua_Port od"
    and "length (serve_header raddr od) \<le> 65537" and "\<forall>p\<in>set ps. length (snd p) \<le> 65535"
    and "pending (ch # cs, e) = concat (map snd (fst (Serve_run sm good_turn raddr od ps f)))" and "2 \<le> length ch"
  shows "(\<forall>w\<in>set (fst (Serve_run sm good_turn raddr od ps f)). fst w = uf_next f)
    \<and> uf_conns (snd (Serve_run sm good_turn raddr od ps f)) (uf_next f) = Some (ss_conn sess)
    \<and> (\<exists>pp stream. handleStream (ch # cs, e) = UdpProxied pp stream
      \<and> udpProxy (\<lambda>a. True) (\<lambda>a. True) stream answers n pp
          = UdpRunning (''127.0.0.1:'' @ dec (nat (ua_Port od))) (map snd ps) (map encode (take n answers)))"
proof -
  note run = Serve_run_new [OF assms(1-3)]
  have p: "pending (ch # cs, e) = serve_header raddr od @ concat (map encode (map snd ps))"
    using assms(10) run by (simp add: comp_def case_prod_beta)
  have small: "\<forall>p\<in>set (map snd ps). length p \<le> 65535" using assms(9) by simp
  from datagrams_at_client [OF assms(4-8) small p assms(11)] run show ?thesis by auto
qed

text \<open>
  C20. The way back, for UDP: the frames that the client writes for the answers of the
  local service reach the server's goroutine as the same datagrams in the same order, if
  every frame starts a piece that holds at least its length; when the two bytes of a
  length come in two pieces, the goroutine throws them away and takes the payload for
  the next length.
\<close>

theorem udp_way_back:
  assumes "udpProxy resolve dial stream answers n pp = UdpRunning addr sent frames"
    and "\<forall>p\<in>set answers. length p \<le> 65535"
    and "list_all2 (\<lambda>fr chunks. concat chunks = fr \<and> [] \<notin> set chunks \<and> 2 \<le> length (hd chunks)) frames css"
  shows "read_loose (concat css, e) = take n answers
    \<and> (\<forall>h l payload. read_loose ([h] # [l] # payload, e) = read_loose (payload, e))"
proof -
  have fr: "frames = map encode (take n answers)"
    using assms(1) by (auto simp: udpProxy_def Let_def split: if_splits)
  have "list_all2 (\<lambda>p cs. length p \<le> 65535 \<and> frame_chunks p cs) (take n answers) css"
  proof (rule list_all2_all_nthI)
    show "length (take n answers) = length css" using list_all2_lengthD [OF assms(3)] fr by simp
    fix i assume i: "i < length (take n answers)"
    then have "take n answers ! i \<in> set answers" by (meson in_set_takeD nth_mem)
    moreover have "concat (css ! i) = encode (take n answers ! i) \<and> [] \<notin> set (css ! i) \<and> 2 \<le> length (hd (css ! i))"
      using list_all2_nthD [OF assms(3), of i] i fr by simp
    ultimately show "length (take n answers ! i) \<le> 65535 \<and> frame_chunks (take n answers ! i) (css ! i)"
      using assms(2) by (simp add: frame_chunks_def)
  qed
  from read_loose_frames [OF this] show ?thesis using read_loose_split by simp
qed

section \<open>Examples\<close>

definition web_session :: SessionManager where
  "web_session = AddSession ''10.0.0.2'' (newSession 4 ''10.0.0.2'') sessionMgr"

theorem tcp_end_to_end_witness:
  "\<exists>up pp stream. handleStream ([encodeProxyProtocol ''tcp'' ''192.0.2.7'' ''999'' ''127.0.0.1'' ''80'' @ concat up], EOF)
      = TcpProxied pp stream \<and> pp_SrcIP pp = ''192.0.2.7''"
proof -
  let ?h = "encodeProxyProtocol ''tcp'' ''192.0.2.7'' ''999'' ''127.0.0.1'' ''80''"
  let ?in = "([[1, 2, 3]], EOF) :: reader" and ?rev = "(([], EOF) :: reader, 0 :: nat)"
  let ?up = "copy_buffer 4096 9 ?in"
  have g: "GetSession ''10.0.0.2'' web_session = Some (newSession 4 ''10.0.0.2'')"
    by (simp add: web_session_def sess.lookup_insert)
  have ph: "plain_host ''10.0.0.2''" "plain_host ''80''" "plain_host ''192.0.2.7''" "plain_host ''999''"
    by (simp_all add: plain_host_def)
  have asc: "ascii ''80''" "ascii ''192.0.2.7''" "ascii ''999''" by (simp_all add: ascii_def)
  have len: "length ?h \<le> 65537"
    using length_encodeProxyProtocol [of "''tcp''" "''192.0.2.7''" "''999''" "''127.0.0.1''" "''80''"] by simp
  have sz: "rsize ?in \<le> 9" by (simp add: rsize_def pending_def)
  have f: "forwardTCP web_session (''10.0.0.2'' @ CHR '':'' # ''80'') (''192.0.2.7'' @ CHR '':'' # ''999'') True True (?in, 9) ?rev
      = Forwarded 4 ?h ?up []"
    using g host_port_plain [OF ph(1,2)] host_port_plain [OF ph(3,4)]
    by (simp add: forwardTCP_def targetIP_def newSession_def)
  have p: "pending ([?h @ concat ?up], EOF) = ?h @ concat ?up" by (simp add: pending_def)
  have two: "2 \<le> length (?h @ concat ?up)" by (simp add: encodeProxyProtocol_frame)
  from tcp_end_to_end [OF g ph asc len sz f p two] show ?thesis by blast
qed

theorem udp_end_to_end_witness:
  "\<exists>pp stream. handleStream ([concat (map snd (fst (Serve_run one_session good_turn peer vip_dns [(0, [1]), (1, [2, 3])] sample_udp)))], EOF)
      = UdpProxied pp stream
    \<and> udpProxy (\<lambda>a. True) (\<lambda>a. True) stream [] 0 pp = UdpRunning (''127.0.0.1:'' @ dec 53) [[1], [2, 3]] []"
proof -
  let ?ps = "[(0, [1]), (1, [2, 3])] :: (int \<times> byte list) list"
  have s: "uf_sessions sample_udp (session_key peer vip_dns) = None" by simp
  note g = one_session_get
  have ip: "length (ua_IP peer) = 4" "length (ua_IP vip_dns) = 4" "0 \<le> ua_Port peer" "0 \<le> ua_Port vip_dns"
    by (simp_all add: peer_def vip_dns_def)
  have texts: "host_of peer = ''192.0.2.7''" "port_text peer = ''5000''" "port_text vip_dns = ''53''"
    using addr_text_parts [OF ip(1,3)] addr_text_parts [OF ip(2,4)]
    by (simp_all add: peer_def vip_dns_def dec.simps digit_table)
  have len: "length (serve_header peer vip_dns) \<le> 65537"
    using length_encodeProxyProtocol [of "''udp''" "''192.0.2.7''" "''5000''" "''127.0.0.1''" "''53''"]
    by (simp add: serve_header_def texts)
  let ?w = "concat (map snd (fst (Serve_run one_session good_turn peer vip_dns ?ps sample_udp)))"
  have p: "pending ([?w], EOF) = ?w" by (simp add: pending_def)
  have two: "2 \<le> length ?w"
    using Serve_run_new [OF s g, of ?ps] by (simp add: serve_header_def encodeProxyProtocol_frame)
  have ne: "?ps \<noteq> []" and small: "\<forall>p\<in>set ?ps. length (snd p) \<le> 65535" by simp_all
  have port: "nat (ua_Port vip_dns) = 53" by (simp add: vip_dns_def)
  from udp_end_to_end [OF s g ne ip len small p two, of "[]" 0] show ?thesis
    unfolding port by simp
qed

theorem udp_way_back_witness:
  "read_loose ([encode [7], encode [8, 9]], EOF) = [[7], [8, 9]]"
proof -
  have "udpProxy (\<lambda>a. True) (\<lambda>a. True) ([], EOF) [[7], [8, 9]] 2 zero_ProxyProtocol
      = UdpRunning '':'' [] [encode [7], encode [8, 9]]"
    by (simp add: udpProxy_def local_addr_def zero_ProxyProtocol_def read_frames.simps read_frame_def read_full_def)
  from udp_way_back [OF this, of "[[encode [7]], [encode [8, 9]]]" EOF] show ?thesis
    by (auto simp: encode_def put_u16_def)
qed

end
